(* ===== verification/HED_Prelude.thy ===== *)
theory HED_Prelude
  imports Main "HOL-Library.AList" "HOL-Library.Word" "HOL-Library.Multiset"
begin

text \<open>
  Shared vocabulary of the development: the Go types the components use, decimal printing as
  \<^verbatim>\<open>fmt\<close> does it, Go maps as association lists with one entry per key, and the generic
  lemmas on lists and maps that the component theories rest on.

  Conventions. A Go \<^verbatim>\<open>string\<close> or \<^verbatim>\<open>[]byte\<close> is a byte sequence, so both are
  \<open>char list\<close>; a \<^verbatim>\<open>[]byte\<close> whose nil-ness the code can observe is an \<open>option\<close>.
  Unsigned counters and hashes are words of their width and wrap as Go's do; \<^verbatim>\<open>int64\<close> values
  on which the program does arithmetic are \<open>64 word\<close> read by \<open>sint\<close>. A Go \<^verbatim>\<open>int\<close>
  that only holds configuration values, lengths and indices is an \<open>int\<close>, as are
  \<^verbatim>\<open>time.Time\<close> and \<^verbatim>\<open>time.Duration\<close> (nanoseconds). A Go map is an association list
  with distinct keys; the order of the list carries no meaning, and an operation that ranges over
  a map takes the runtime's iteration order as a parameter or is shown not to depend on it.
\<close>

type_synonym bytes = "char list"
type_synonym u32 = "32 word"
type_synonym u64 = "64 word"
type_synonym i64 = "64 word"
type_synonym time = int
type_synonym duration = int
type_synonym ('k, 'v) gomap = "('k \<times> 'v) list"

named_theorems gomap_simps \<open>lookups, sizes and key sets after an update of a Go map\<close>
named_theorems inv_intros \<open>an operation keeps its component's invariant\<close>
named_theorems frame_simps \<open>fields an operation does not write\<close>

subsection \<open>Durations\<close>

definition Millisecond :: duration where "Millisecond = 1000000"
definition Second :: duration where "Second = 1000000000"
definition Minute :: duration where "Minute = 60000000000"

subsection \<open>Decimal printing\<close>

definition digit_char :: "nat \<Rightarrow> char" where
  "digit_char d = char_of (48 + d)"

fun show_nat :: "nat \<Rightarrow> string" where
  "show_nat n = (if n < 10 then [digit_char n] else show_nat (n div 10) @ [digit_char (n mod 10)])"

declare show_nat.simps [simp del]

text \<open>The verb \<^verbatim>\<open>%d\<close> on a signed value.\<close>

definition show_int :: "int \<Rightarrow> string" where
  "show_int i = (if i < 0 then ''-'' @ show_nat (nat (- i)) else show_nat (nat i))"

text \<open>The verb \<^verbatim>\<open>%0wd\<close> on a value that is not negative.\<close>

definition show_pad :: "nat \<Rightarrow> nat \<Rightarrow> string" where
  "show_pad w n = (let s = show_nat n in replicate (w - length s) (CHR ''0'') @ s)"

text \<open>Reading decimal digits back (\<^verbatim>\<open>strconv\<close>): the value of a string of digits.\<close>

definition is_digit :: "char \<Rightarrow> bool" where
  "is_digit c \<longleftrightarrow> 48 \<le> (of_char c :: nat) \<and> (of_char c :: nat) \<le> 57"

definition digit_val :: "char \<Rightarrow> nat" where
  "digit_val c = of_char c - 48"

definition digits_val :: "string \<Rightarrow> nat" where
  "digits_val s = foldl (\<lambda>a c. 10 * a + digit_val c) 0 s"

subsection \<open>Lists\<close>

lemma sum_list_update_nat:
  "i < length xs \<Longrightarrow> sum_list (xs[i := v]) + xs ! i = sum_list xs + (v :: nat)"
  by (induction xs arbitrary: i) (auto split: nat.splits simp: nth_Cons')

lemma nth_update_any: "xs[i := v] ! j = (if i = j \<and> i < length xs then v else xs ! j)"
  by (cases "i < length xs") (simp_all add: nth_list_update not_less list_update_beyond)

text \<open>A list whose elements fit into an interval as a multiset repeats none.\<close>

lemma mset_range_distinct:
  assumes "mset xs \<subseteq># mset_set {1..m :: nat}"
  shows "distinct xs"
proof -
  have "count (mset xs) x \<le> count (mset_set {1..m}) x" for x using assms by (rule mset_subset_eq_count)
  then have "count (mset xs) x \<le> 1" for x by (metis count_mset_set' le_trans le_refl zero_le_one)
  then have "count (mset xs) x = (if x \<in> set xs then 1 else 0)" for x
    by (metis One_nat_def Suc_leI count_greater_zero_iff count_mset_0_iff le_antisym set_mset_mset)
  then show ?thesis by (simp add: distinct_count_atmost_1)
qed

lemma mset_range_bounds: "mset xs \<subseteq># mset_set {1..m :: nat} \<Longrightarrow> x \<in> set xs \<Longrightarrow> 1 \<le> x \<and> x \<le> m"
  using set_mset_mono [of "mset xs" "mset_set {1..m}"] by auto

subsection \<open>Words\<close>

lemma unat_u64_less: "unat (w :: u64) < 2 ^ 64"
  using unsigned_less [of w] by simp

lemma unat_of_nat_u64: "n < 2 ^ 64 \<Longrightarrow> unat (of_nat n :: u64) = n"
  by (simp add: unat_of_nat)

lemma sint_of_int_i64: "- (2 ^ 63) \<le> n \<Longrightarrow> n < 2 ^ 63 \<Longrightarrow> sint (of_int n :: i64) = n"
  by (simp add: signed_of_int signed_take_bit_int_eq_self)

subsection \<open>Go maps\<close>

abbreviation gm_keys :: "('k, 'v) gomap \<Rightarrow> 'k set" where
  "gm_keys m \<equiv> fst ` set m"

definition gm_ok :: "('k, 'v) gomap \<Rightarrow> bool" where
  "gm_ok m \<longleftrightarrow> distinct (map fst m)"

lemma gm_ok_Nil [simp, inv_intros]: "gm_ok []"
  by (simp add: gm_ok_def)

lemma gm_ok_update [inv_intros]: "gm_ok m \<Longrightarrow> gm_ok (AList.update k v m)"
  by (simp add: gm_ok_def distinct_update)

lemma gm_ok_delete [inv_intros]: "gm_ok m \<Longrightarrow> gm_ok (AList.delete k m)"
  by (simp add: gm_ok_def distinct_delete)

lemma gm_lookup_update [gomap_simps]:
  "map_of (AList.update k v m) j = (if j = k then Some v else map_of m j)"
  by (simp add: update_conv')

lemma gm_lookup_delete [gomap_simps]:
  "map_of (AList.delete k m) j = (if j = k then None else map_of m j)"
  by (simp add: delete_conv')

lemma gm_keys_update [gomap_simps]: "gm_keys (AList.update k v m) = insert k (gm_keys m)"
  by (metis dom_map_of_conv_image_fst dom_fun_upd option.distinct(1) update_conv')

lemma gm_keys_delete [gomap_simps]: "gm_keys (AList.delete k m) = gm_keys m - {k}"
  by (metis dom_map_of_conv_image_fst dom_fun_upd delete_conv')

lemma gm_lookup_None [gomap_simps]: "map_of m k = None \<longleftrightarrow> k \<notin> gm_keys m"
  by (rule map_of_eq_None_iff)

lemma gm_size: "gm_ok m \<Longrightarrow> length m = card (gm_keys m)"
  by (metis distinct_card gm_ok_def length_map set_map)

lemma gm_size_update [gomap_simps]:
  "gm_ok m \<Longrightarrow> length (AList.update k v m) = (if k \<in> gm_keys m then length m else Suc (length m))"
  by (simp add: gm_size gm_ok_update gm_keys_update insert_absorb)

lemma gm_size_delete_in [gomap_simps]:
  assumes "gm_ok m" and "k \<in> gm_keys m"
  shows "Suc (length (AList.delete k m)) = length m"
proof -
  have "card (gm_keys m - {k}) = card (gm_keys m) - 1" using assms(2) by simp
  moreover have "0 < card (gm_keys m)" using assms(2) by (auto simp: card_gt_0_iff)
  ultimately show ?thesis
    using assms(1) by (simp add: gm_size gm_ok_delete gm_keys_delete)
qed

lemma gm_size_delete_notin [gomap_simps]:
  "k \<notin> gm_keys m \<Longrightarrow> AList.delete k m = m"
  by (simp add: AList.delete_eq filter_id_conv) force

lemma gm_lookup_in: "map_of m k = Some v \<Longrightarrow> k \<in> gm_keys m"
  by (metis gm_lookup_None option.distinct(1))

subsection \<open>Decimal printing and reading\<close>

lemma show_nat_ne [simp]: "show_nat n \<noteq> []"
  by (subst show_nat.simps) simp

lemma digit_char_props:
  assumes "d < 10"
  shows "is_digit (digit_char d)" and "digit_val (digit_char d) = d"
  using assms by (auto simp: is_digit_def digit_val_def digit_char_def)

lemma show_nat_digits: "\<forall>c \<in> set (show_nat n). is_digit c"
proof (induction n rule: show_nat.induct)
  case (1 n)
  then show ?case
    by (cases "n < 10") (auto simp: show_nat.simps [of n] digit_char_props)
qed

lemma digits_val_snoc: "digits_val (s @ [c]) = 10 * digits_val s + digit_val c"
  by (simp add: digits_val_def)

lemma digits_val_show_nat [simp]: "digits_val (show_nat n) = n"
proof (induction n rule: show_nat.induct)
  case (1 n)
  show ?case
  proof (cases "n < 10")
    case True
    then show ?thesis by (simp add: show_nat.simps [of n] digits_val_def digit_char_props)
  next
    case False
    then show ?thesis
      by (simp add: show_nat.simps [of n] digits_val_snoc digit_char_props 1)
  qed
qed

lemma show_nat_inj: "show_nat m = show_nat n \<longleftrightarrow> m = n"
  by (metis digits_val_show_nat)

end
