(* ===== verification/HED_Hash.thy ===== *)
theory HED_Hash
  imports HED_Prelude
begin

text \<open>
  The hashes of the Go standard library that route keys: FNV-1a of \<^verbatim>\<open>hash/fnv\<close> at 32 and 64
  bits, and the IEEE CRC-32 of \<^verbatim>\<open>hash/crc32\<close> that the write-ahead log stores in its records.
\<close>

unbundle bit_operations_syntax

definition fnv64a :: "bytes \<Rightarrow> u64" where
  "fnv64a bs = foldl (\<lambda>h b. (h XOR of_char b) * 1099511628211) 14695981039346656037 bs"

definition fnv32a :: "bytes \<Rightarrow> u32" where
  "fnv32a bs = foldl (\<lambda>h b. (h XOR of_char b) * 16777619) 2166136261 bs"

text \<open>The register of the checksum is a 32-bit value, kept as an \<open>int\<close> in \<open>{0..<2^32}\<close>.\<close>

definition crc_bit :: "int \<Rightarrow> int" where
  "crc_bit c = (if odd c then (c div 2) XOR 0xEDB88320 else c div 2)"

definition crc_byte :: "int \<Rightarrow> char \<Rightarrow> int" where
  "crc_byte c b =
     (let c0 = c XOR of_char b
      in crc_bit (crc_bit (crc_bit (crc_bit (crc_bit (crc_bit (crc_bit (crc_bit c0))))))))"

definition crc32_ieee :: "bytes \<Rightarrow> u32" where
  "crc32_ieee bs = word_of_int (foldl crc_byte 0xFFFFFFFF bs XOR 0xFFFFFFFF)"

lemma fnv64a_Nil: "fnv64a [] = 14695981039346656037"
  by (simp add: fnv64a_def)

lemma fnv64a_snoc: "fnv64a (bs @ [b]) = (fnv64a bs XOR of_char b) * 1099511628211"
  by (simp add: fnv64a_def)

lemma fnv32a_snoc: "fnv32a (bs @ [b]) = (fnv32a bs XOR of_char b) * 16777619"
  by (simp add: fnv32a_def)

end
