(* ===== verification/V2_Types.thy ===== *)
theory V2_Types
  imports HED_Hash
begin

text \<open>
  The data of \<^verbatim>\<open>pkg/v2/core.go\<close>: errors, transactions, configuration, and the two
  validators that guard the pipeline's entry points.
\<close>

text \<open>
  The sentinel errors of \<^verbatim>\<open>core.go\<close> and \<^verbatim>\<open>recovery.go\<close>, a context error, an error
  of the operating system or of a backend, the wrapper \<^verbatim>\<open>PermanentError\<close>, and an error that
  \<^verbatim>\<open>fmt.Errorf\<close> wraps with a message.
\<close>

datatype err =
    ErrInvalidTxID
  | ErrPayloadTooLarge
  | ErrQueueFull
  | ErrEngineStopped
  | ErrDuplicate
  | ErrInvalidConfig
  | ErrWALCorrupt
  | ErrLedgerStateUnknown
  | ErrContext
  | ErrOther string
  | PermanentError err
  | Wrapped string err

text \<open>\<^verbatim>\<open>errors.As(err, &pe)\<close> follows the chain of wrapped errors.\<close>

fun errors_As_Permanent :: "err \<Rightarrow> bool" where
  "errors_As_Permanent (PermanentError e) = True"
| "errors_As_Permanent (Wrapped m e) = errors_As_Permanent e"
| "errors_As_Permanent _ = False"

record Tx =
  tx_ID :: string
  tx_Key :: string
  tx_Payload :: "bytes option"
  tx_Partition :: int
  tx_Sequence :: u64

text \<open>The length of a slice; that of a nil slice is 0.\<close>

definition slice_len :: "bytes option \<Rightarrow> int" where
  "slice_len p = (case p of None \<Rightarrow> 0 | Some b \<Rightarrow> int (length b))"

definition zero_Tx :: Tx where
  "zero_Tx = \<lparr>tx_ID = '''', tx_Key = '''', tx_Payload = None, tx_Partition = 0, tx_Sequence = 0\<rparr>"

record RetryPolicy =
  MaxAttempts :: int
  InitialBackoff :: duration
  MaxBackoff :: duration

record Config =
  Partitions :: int
  QueueCapacity :: int
  BatchSize :: int
  MaxPayloadBytes :: int
  DedupCapacity :: int
  FlushInterval :: duration
  DedupTTL :: duration
  CommitTimeout :: duration
  Retry :: RetryPolicy
  WALPath :: string
  SyncWAL :: bool

definition DefaultConfig :: Config where
  "DefaultConfig = \<lparr>Partitions = 8, QueueCapacity = 65536, BatchSize = 256,
     MaxPayloadBytes = 1048576, DedupCapacity = 1000000, FlushInterval = 2 * Millisecond,
     DedupTTL = 10 * Minute, CommitTimeout = 5 * Second,
     Retry = \<lparr>MaxAttempts = 5, InitialBackoff = 2 * Millisecond, MaxBackoff = 250 * Millisecond\<rparr>,
     WALPath = '''', SyncWAL = False\<rparr>"

definition Validate :: "Config \<Rightarrow> err option" where
  "Validate c =
     (if Partitions c \<le> 0 \<or> QueueCapacity c \<le> 0 \<or> BatchSize c \<le> 0 \<or> FlushInterval c \<le> 0
        \<or> MaxPayloadBytes c \<le> 0 \<or> DedupCapacity c \<le> 0 \<or> DedupTTL c \<le> 0 \<or> CommitTimeout c < 0
        \<or> MaxAttempts (Retry c) \<le> 0 \<or> InitialBackoff (Retry c) \<le> 0
        \<or> MaxBackoff (Retry c) < InitialBackoff (Retry c)
      then Some ErrInvalidConfig else None)"

text \<open>
  The loop of \<^verbatim>\<open>ValidateTx\<close> ranges over the runes of the identifier. Every accepted rune is
  ASCII and every byte from 128 on starts a rune that is not, so the test is bytewise.
\<close>

definition id_rune_ok :: "char \<Rightarrow> bool" where
  "id_rune_ok c \<longleftrightarrow> (let r = (of_char c :: nat) in
     (97 \<le> r \<and> r \<le> 122) \<or> (65 \<le> r \<and> r \<le> 90) \<or> (48 \<le> r \<and> r \<le> 57)
     \<or> r = 45 \<or> r = 95 \<or> r = 46)"

definition ValidateTx :: "Tx \<Rightarrow> int \<Rightarrow> err option" where
  "ValidateTx tx maxPayload =
     (if length (tx_ID tx) = 0 \<or> length (tx_ID tx) > 256 then Some ErrInvalidTxID
      else if \<not> list_all id_rune_ok (tx_ID tx) then Some ErrInvalidTxID
      else if maxPayload \<le> 0 \<or> slice_len (tx_Payload tx) > maxPayload then Some ErrPayloadTooLarge
      else None)"

lemma DefaultConfig_valid: "Validate DefaultConfig = None"
  by (simp add: Validate_def DefaultConfig_def Millisecond_def Second_def Minute_def)

lemma Validate_None:
  "Validate c = None \<longleftrightarrow>
     0 < Partitions c \<and> 0 < QueueCapacity c \<and> 0 < BatchSize c \<and> 0 < FlushInterval c
     \<and> 0 < MaxPayloadBytes c \<and> 0 < DedupCapacity c \<and> 0 < DedupTTL c \<and> 0 \<le> CommitTimeout c
     \<and> 0 < MaxAttempts (Retry c) \<and> 0 < InitialBackoff (Retry c)
     \<and> InitialBackoff (Retry c) \<le> MaxBackoff (Retry c)"
  by (auto simp: Validate_def)

lemma ValidateTx_None:
  "ValidateTx tx n = None \<longleftrightarrow>
     tx_ID tx \<noteq> [] \<and> length (tx_ID tx) \<le> 256 \<and> list_all id_rune_ok (tx_ID tx)
     \<and> 0 < n \<and> slice_len (tx_Payload tx) \<le> n"
  by (auto simp: ValidateTx_def)

end
