(* ===== verification/V2_Queue.thy ===== *)
theory V2_Queue
  imports V2_Types
begin

text \<open>
  Routing and queueing of \<^verbatim>\<open>pkg/v2/core.go\<close>: the FNV router, the bounded partition queue, and
  the backpressure levels. The contract of a bounded FIFO queue is the locale \<open>bounded_fifo\<close>;
  the partition queue is one instance of it and the ring buffer of \<^verbatim>\<open>pkg/router\<close> another.
\<close>

subsection \<open>The router\<close>

record Router =
  r_partitions :: int

definition NewRouter :: "int \<Rightarrow> err + Router" where
  "NewRouter n = (if n \<le> 0 then Inl ErrInvalidConfig else Inr \<lparr>r_partitions = n\<rparr>)"

definition Partition :: "Router \<Rightarrow> string \<Rightarrow> int" where
  "Partition r key = uint (fnv64a key) mod r_partitions r"

definition PartitionCount :: "Router \<Rightarrow> int" where
  "PartitionCount r = r_partitions r"

subsection \<open>The partition queue\<close>

text \<open>
  The buffered channel \<^verbatim>\<open>items\<close> is the list of its elements, oldest first; \<^verbatim>\<open>notify\<close>, a
  channel of capacity 1, is whether its token is present.
\<close>

record Queue =
  q_items :: "Tx list"
  q_cap :: int
  q_closed :: bool
  q_notify :: bool
  q_depth :: int

definition NewQueue :: "int \<Rightarrow> err + Queue" where
  "NewQueue n =
     (if n \<le> 0 then Inl ErrInvalidConfig
      else Inr \<lparr>q_items = [], q_cap = n, q_closed = False, q_notify = False, q_depth = 0\<rparr>)"

text \<open>A send on a full \<^verbatim>\<open>notify\<close> channel takes the default branch, so a push leaves the token.\<close>

definition Push :: "Tx \<Rightarrow> Queue \<Rightarrow> err + Queue" where
  "Push tx q =
     (if q_closed q then Inl ErrEngineStopped
      else if int (length (q_items q)) < q_cap q
        then Inr (q\<lparr>q_items := q_items q @ [tx], q_depth := q_depth q + 1, q_notify := True\<rparr>)
      else Inl ErrQueueFull)"

fun pop_more :: "nat \<Rightarrow> Queue \<Rightarrow> Tx list \<times> Queue" where
  "pop_more 0 q = ([], q)"
| "pop_more (Suc k) q =
     (case q_items q of
        [] \<Rightarrow> ([], q)
      | tx # rest \<Rightarrow>
          (let (out, q') = pop_more k (q\<lparr>q_items := rest, q_depth := q_depth q - 1\<rparr>)
           in (tx # out, q')))"

text \<open>
  \<^verbatim>\<open>PopBatchInto\<close> returns the batch and whether an empty queue was found closed; the reuse of
  the caller's buffer is not visible in the elements returned.
\<close>

definition PopBatchInto :: "int \<Rightarrow> Queue \<Rightarrow> (Tx list \<times> bool) \<times> Queue" where
  "PopBatchInto n q =
     (let n' = (if n \<le> 0 then 1 else n)
      in case q_items q of
           [] \<Rightarrow> (([], q_closed q), q)
         | first # rest \<Rightarrow>
             (let (out, q') = pop_more (nat (n' - 1)) (q\<lparr>q_items := rest, q_depth := q_depth q - 1\<rparr>)
              in ((first # out, False), q')))"

definition PopBatch :: "int \<Rightarrow> Queue \<Rightarrow> (Tx list \<times> bool) \<times> Queue" where
  "PopBatch n q = PopBatchInto n q"

definition CloseQueue :: "Queue \<Rightarrow> Queue" where
  "CloseQueue q = (if q_closed q then q else q\<lparr>q_closed := True, q_notify := True\<rparr>)"

definition Len :: "Queue \<Rightarrow> int" where
  "Len q = (if q_depth q < 0 then 0 else q_depth q)"

definition Cap :: "Queue \<Rightarrow> int" where
  "Cap q = q_cap q"

subsection \<open>Backpressure\<close>

datatype BackpressureLevel = Normal | Busy | Saturated | Rejecting

datatype RejectReason = RejectQueueFull | RejectStopped | RejectInvalid | RejectDuplicate

text \<open>
  The source compares \<^verbatim>\<open>float64(depth)/float64(capacity)\<close> with \<^verbatim>\<open>.8\<close> and \<^verbatim>\<open>.5\<close>.
  Division is correctly rounded and rounding is monotonic, and a ratio below 4/5 or 1/2 of a
  capacity under 2^50 differs from it by more than a rounding step, so the comparisons are those
  of the exact ratios, written here without division.
\<close>

definition Level :: "int \<Rightarrow> int \<Rightarrow> BackpressureLevel" where
  "Level depth capacity =
     (if capacity \<le> 0 \<or> depth \<ge> capacity then Rejecting
      else if 5 * depth \<ge> 4 * capacity then Saturated
      else if 2 * depth \<ge> capacity then Busy
      else Normal)"

subsection \<open>The contract of a bounded FIFO queue\<close>

text \<open>
  A run of pushes and batch pops: the values the queue accepted, the values it handed out, and
  the queue at the end.
\<close>

datatype ('a, 'n) fifo_op = FPush 'a | FPop 'n

fun fifo_run ::
  "('a \<Rightarrow> 'q \<Rightarrow> 'e + 'q) \<Rightarrow> ('n \<Rightarrow> 'q \<Rightarrow> 'a list \<times> 'q) \<Rightarrow> ('a, 'n) fifo_op list \<Rightarrow> 'q
   \<Rightarrow> 'a list \<times> 'a list \<times> 'q" where
  "fifo_run push pop [] q = ([], [], q)"
| "fifo_run push pop (FPush x # ops) q =
     (case push x q of
        Inl e \<Rightarrow> fifo_run push pop ops q
      | Inr q' \<Rightarrow> (case fifo_run push pop ops q' of (acc, out, q'') \<Rightarrow> (x # acc, out, q'')))"
| "fifo_run push pop (FPop n # ops) q =
     (case pop n q of (xs, q') \<Rightarrow>
        (case fifo_run push pop ops q' of (acc, out, q'') \<Rightarrow> (acc, xs @ out, q'')))"

locale bounded_fifo =
  fixes items :: "'q \<Rightarrow> 'a list"
    and bound :: "'q \<Rightarrow> nat"
    and invar :: "'q \<Rightarrow> bool"
    and push :: "'a \<Rightarrow> 'q \<Rightarrow> 'e + 'q"
    and pop :: "'n \<Rightarrow> 'q \<Rightarrow> 'a list \<times> 'q"
  assumes bound_ok: "invar q \<Longrightarrow> length (items q) \<le> bound q"
    and push_ok: "\<lbrakk>invar q; push x q = Inr q'\<rbrakk>
          \<Longrightarrow> invar q' \<and> items q' = items q @ [x] \<and> bound q' = bound q"
    and pop_ok: "\<lbrakk>invar q; pop n q = (xs, q')\<rbrakk>
          \<Longrightarrow> invar q' \<and> xs @ items q' = items q \<and> bound q' = bound q"
begin

lemma run_lossless:
  assumes "invar q" and "fifo_run push pop ops q = (acc, out, q')"
  shows "invar q' \<and> out @ items q' = items q @ acc \<and> bound q' = bound q"
  using assms
proof (induction ops arbitrary: q acc out q')
  case Nil
  then show ?case by simp
next
  case (Cons op ops)
  show ?case
  proof (cases op)
    case (FPush x)
    with Cons show ?thesis
      by (fastforce split: sum.splits prod.splits dest: push_ok)
  next
    case (FPop n)
    obtain xs q1 where p: "pop n q = (xs, q1)" by force
    obtain a o2 q2 where r: "fifo_run push pop ops q1 = (a, o2, q2)" by (metis prod_cases3)
    from Cons.prems(2) FPop p r have eq: "acc = a" "out = xs @ o2" "q' = q2" by auto
    from pop_ok [OF Cons.prems(1) p] have q1: "invar q1" "xs @ items q1 = items q" "bound q1 = bound q"
      by auto
    from Cons.IH [OF q1(1) r] q1 eq show ?thesis
      by (metis append.assoc)
  qed
qed

lemma run_bounded:
  assumes "invar q" and "fifo_run push pop ops q = (acc, out, q')"
  shows "length (items q') \<le> bound q"
  using run_lossless [OF assms] bound_ok by metis

end

subsection \<open>The partition queue meets the contract\<close>

definition queue_inv :: "Queue \<Rightarrow> bool" where
  "queue_inv q \<longleftrightarrow> 0 < q_cap q \<and> int (length (q_items q)) \<le> q_cap q
     \<and> q_depth q = int (length (q_items q))"

lemma queue_inv_New [inv_intros]: "NewQueue n = Inr q \<Longrightarrow> queue_inv q"
  by (auto simp: NewQueue_def queue_inv_def split: if_splits)

lemma Push_Inr:
  "Push tx q = Inr q' \<longleftrightarrow> \<not> q_closed q \<and> int (length (q_items q)) < q_cap q
     \<and> q' = q\<lparr>q_items := q_items q @ [tx], q_depth := q_depth q + 1, q_notify := True\<rparr>"
  by (auto simp: Push_def)

lemma Push_Inl:
  "Push tx q = Inl e \<longleftrightarrow> (q_closed q \<and> e = ErrEngineStopped)
     \<or> (\<not> q_closed q \<and> q_cap q \<le> int (length (q_items q)) \<and> e = ErrQueueFull)"
  by (auto simp: Push_def)

lemma queue_inv_Push [inv_intros]: "queue_inv q \<Longrightarrow> Push tx q = Inr q' \<Longrightarrow> queue_inv q'"
  by (auto simp: Push_Inr queue_inv_def)

lemma queue_inv_Close [inv_intros]: "queue_inv q \<Longrightarrow> queue_inv (CloseQueue q)"
  by (auto simp: CloseQueue_def queue_inv_def)

lemma pop_more_eq:
  "pop_more k q =
     (take k (q_items q),
      q\<lparr>q_items := drop k (q_items q), q_depth := q_depth q - int (min k (length (q_items q)))\<rparr>)"
proof (induction k arbitrary: q)
  case 0
  then show ?case by simp
next
  case (Suc k)
  show ?case
    by (cases "q_items q") (simp_all add: Suc)
qed

text \<open>A batch is a prefix of the queue of the asked length, or all there is.\<close>

definition batch_len :: "int \<Rightarrow> nat" where
  "batch_len n = nat (if n \<le> 0 then 1 else n)"

lemma PopBatchInto_eq:
  "PopBatchInto n q =
     ((take (batch_len n) (q_items q), q_items q = [] \<and> q_closed q),
      q\<lparr>q_items := drop (batch_len n) (q_items q),
        q_depth := q_depth q - int (min (batch_len n) (length (q_items q)))\<rparr>)"
proof (cases "q_items q")
  case Nil
  then show ?thesis by (simp add: PopBatchInto_def)
next
  case (Cons t ts)
  have k: "batch_len n = Suc (nat ((if n \<le> 0 then 1 else n) - 1))"
    by (auto simp: batch_len_def)
  show ?thesis
    by (simp add: PopBatchInto_def Let_def Cons k pop_more_eq)
qed

lemma queue_inv_Pop [inv_intros]: "queue_inv q \<Longrightarrow> queue_inv (snd (PopBatchInto n q))"
  by (auto simp: PopBatchInto_eq queue_inv_def)

definition pop_items :: "int \<Rightarrow> Queue \<Rightarrow> Tx list \<times> Queue" where
  "pop_items n q = (fst (fst (PopBatchInto n q)), snd (PopBatchInto n q))"

interpretation pq: bounded_fifo q_items "\<lambda>q. nat (q_cap q)" queue_inv Push pop_items
proof
  show "queue_inv q \<Longrightarrow> length (q_items q) \<le> nat (q_cap q)" for q
    by (auto simp: queue_inv_def)
  show "queue_inv q \<Longrightarrow> Push x q = Inr q'
        \<Longrightarrow> queue_inv q' \<and> q_items q' = q_items q @ [x] \<and> nat (q_cap q') = nat (q_cap q)" for q x q'
    by (auto simp: Push_Inr queue_inv_def)
  show "queue_inv q \<Longrightarrow> pop_items n q = (xs, q')
        \<Longrightarrow> queue_inv q' \<and> xs @ q_items q' = q_items q \<and> nat (q_cap q') = nat (q_cap q)" for q n xs q'
    by (auto simp: pop_items_def PopBatchInto_eq queue_inv_def)
qed

subsection \<open>Properties\<close>

text \<open>
  C24 A partition queue loses, invents and reorders nothing: for every sequence of pushes and batch
  pops, the transactions handed out followed by those still queued are the accepted ones in the
  order of their acceptance, and the depth counter is the number queued, at most the capacity.
\<close>

theorem queue_run_lossless:
  assumes "NewQueue n = Inr q" and "fifo_run Push pop_items ops q = (acc, out, q')"
  shows "out @ q_items q' = acc \<and> Len q' = int (length (q_items q')) \<and> Len q' \<le> n"
proof -
  have q: "queue_inv q" "q_items q = []" "q_cap q = n"
    using assms(1) queue_inv_New by (auto simp: NewQueue_def split: if_splits)
  note r = pq.run_lossless [OF q(1) assms(2)] and b = pq.run_bounded [OF q(1) assms(2)]
  have "0 < n" using assms(1) by (auto simp: NewQueue_def split: if_splits)
  then show ?thesis using r b q by (auto simp: queue_inv_def Len_def)
qed

theorem queue_run_lossless_witness:
  "\<exists>q acc out q'. NewQueue 1 = Inr q
     \<and> fifo_run Push pop_items [FPush zero_Tx, FPush zero_Tx, FPop 5, FPush zero_Tx] q = (acc, out, q')
     \<and> out @ q_items q' = acc \<and> Len q' = int (length (q_items q')) \<and> Len q' \<le> 1"
proof -
  obtain q where q: "NewQueue 1 = Inr q" by (simp add: NewQueue_def)
  obtain acc out q' where r: "fifo_run Push pop_items [FPush zero_Tx, FPush zero_Tx, FPop 5, FPush zero_Tx] q
      = (acc, out, q')"
    by (metis prod_cases3)
  from q r queue_run_lossless [OF q r] show ?thesis by blast
qed

text \<open>
  Backpressure tells the truth: the level of an open queue is REJECTING exactly when a push would
  be refused as full, and below that SATURATED, BUSY and NORMAL split at four fifths and one half of
  the capacity.
\<close>

theorem level_matches_push:
  assumes "NewQueue n = Inr q0" and "fifo_run Push pop_items ops q0 = (acc, out, q)" and "\<not> q_closed q"
  shows "(Level (Len q) (Cap q) = Rejecting \<longleftrightarrow> Push tx q = Inl ErrQueueFull)
     \<and> (Level (Len q) (Cap q) = Saturated \<longleftrightarrow> 4 * n \<le> 5 * Len q \<and> Len q < n)
     \<and> (Level (Len q) (Cap q) = Busy \<longleftrightarrow> n \<le> 2 * Len q \<and> 5 * Len q < 4 * n)
     \<and> (Level (Len q) (Cap q) = Normal \<longleftrightarrow> 2 * Len q < n)"
proof -
  have q: "queue_inv q0" "q_cap q0 = n"
    using assms(1) queue_inv_New by (auto simp: NewQueue_def split: if_splits)
  have "queue_inv q" "nat (q_cap q) = nat (q_cap q0)" using pq.run_lossless [OF q(1) assms(2)] by simp_all
  moreover from this have "q_cap q = n" using q by (auto simp: queue_inv_def)
  ultimately have "queue_inv q" "q_cap q = n" by simp_all
  then have "Len q = int (length (q_items q))" "0 < n" "Cap q = n" "int (length (q_items q)) \<le> n"
    by (auto simp: queue_inv_def Len_def Cap_def)
  then show ?thesis using assms(3) \<open>q_cap q = n\<close> by (auto simp: Level_def Push_def)
qed

theorem level_matches_push_witness:
  "\<exists>q0 acc out q. NewQueue 2 = Inr q0 \<and> fifo_run Push pop_items [FPush zero_Tx] q0 = (acc, out, q)
     \<and> (Level (Len q) (Cap q) = Rejecting \<longleftrightarrow> Push zero_Tx q = Inl ErrQueueFull)
     \<and> (Level (Len q) (Cap q) = Saturated \<longleftrightarrow> 4 * 2 \<le> 5 * Len q \<and> Len q < 2)
     \<and> (Level (Len q) (Cap q) = Busy \<longleftrightarrow> 2 \<le> 2 * Len q \<and> 5 * Len q < 4 * 2)
     \<and> (Level (Len q) (Cap q) = Normal \<longleftrightarrow> 2 * Len q < 2)"
proof -
  obtain q0 where q0: "NewQueue 2 = Inr q0" "\<not> q_closed q0" "q_items q0 = []" "q_cap q0 = 2"
    by (simp add: NewQueue_def)
  obtain q where r: "fifo_run Push pop_items [FPush zero_Tx] q0 = ([zero_Tx], [], q)" "\<not> q_closed q"
    using q0 by (simp add: Push_def)
  show ?thesis using q0(1) r(1) level_matches_push [OF q0(1) r(1,2), of zero_Tx] by blast
qed

lemma Partition_range: "NewRouter n = Inr r \<Longrightarrow> 0 \<le> Partition r key \<and> Partition r key < PartitionCount r"
  by (auto simp: NewRouter_def Partition_def PartitionCount_def split: if_splits)

end
