(* ===== verification/V2_Dedup.thy ===== *)
theory V2_Dedup
  imports V2_Types
begin

text \<open>
  The sharded deduplication table of \<^verbatim>\<open>pkg/v2/core.go\<close>: \<^verbatim>\<open>NewDedup\<close>, \<^verbatim>\<open>SeenOrAdd\<close>,
  \<^verbatim>\<open>Forget\<close> and the two helpers that run under the shard's mutex. Each operation holds that
  mutex from start to end, so each is one atomic step. The theory shows that the table never
  indexes an empty order slice, stays within its capacity and keeps its order slice bounded, and
  what a lookup answers; it also shows where the time-to-live is not honoured.
\<close>

subsection \<open>State and operations\<close>

record dedupShard =
  ds_m :: "(string, time) gomap"
  ds_order :: "string list"
  ds_capacity :: int

record Dedup =
  dd_shards :: "dedupShard list"
  dd_ttl :: duration
  dd_capacity :: int

definition dedupShards :: nat where
  "dedupShards = 32"

definition shard_cap :: "int \<Rightarrow> nat \<Rightarrow> int" where
  "shard_cap n i =
     (let base = n div 32; rem = n mod 32; capn = (if int i < rem then base + 1 else base)
      in if capn = 0 then 1 else capn)"

definition NewDedup :: "int \<Rightarrow> duration \<Rightarrow> err + Dedup" where
  "NewDedup n ttl =
     (if n \<le> 0 \<or> ttl \<le> 0 then Inl ErrInvalidConfig
      else Inr \<lparr>dd_shards = map (\<lambda>i. \<lparr>ds_m = [], ds_order = [], ds_capacity = shard_cap n i\<rparr>)
                              [0..<dedupShards],
                dd_ttl = ttl, dd_capacity = n\<rparr>)"

definition shard_index :: "string \<Rightarrow> nat" where
  "shard_index idt = unat (fnv64a idt mod 32)"

fun expire_loop :: "time \<Rightarrow> (string, time) gomap \<Rightarrow> string list \<Rightarrow> (string, time) gomap \<times> string list" where
  "expire_loop now m [] = (m, [])"
| "expire_loop now m (idt # rest) =
     (case map_of m idt of
        None \<Rightarrow> expire_loop now (AList.delete idt m) rest
      | Some expires \<Rightarrow>
          if \<not> now < expires then expire_loop now (AList.delete idt m) rest
          else (m, idt # rest))"

definition expireLocked :: "time \<Rightarrow> dedupShard \<Rightarrow> dedupShard" where
  "expireLocked now s =
     (let (m, order) = expire_loop now (ds_m s) (ds_order s) in s\<lparr>ds_m := m, ds_order := order\<rparr>)"

definition compactLocked :: "dedupShard \<Rightarrow> dedupShard" where
  "compactLocked s =
     (if ds_order s = [] then s
      else s\<lparr>ds_order := filter (\<lambda>idt. map_of (ds_m s) idt \<noteq> None) (ds_order s)\<rparr>)"

text \<open>
  The body of \<^verbatim>\<open>SeenOrAdd\<close> on the shard of the identifier. \<^verbatim>\<open>s.order[0]\<close> panics on an empty
  slice: that is the result \<open>None\<close>.
\<close>

definition shard_SeenOrAdd :: "duration \<Rightarrow> string \<Rightarrow> time \<Rightarrow> dedupShard \<Rightarrow> (bool \<times> dedupShard) option" where
  "shard_SeenOrAdd ttl idt now s0 =
     (let s = expireLocked now s0
      in if map_of (ds_m s) idt \<noteq> None then Some (True, s)
         else if int (length (ds_m s)) \<ge> ds_capacity s
           then (case ds_order s of
                   [] \<Rightarrow> None
                 | old # rest \<Rightarrow>
                     Some (False, s\<lparr>ds_m := AList.update idt (now + ttl) (AList.delete old (ds_m s)),
                                     ds_order := rest @ [idt]\<rparr>))
         else Some (False, s\<lparr>ds_m := AList.update idt (now + ttl) (ds_m s),
                              ds_order := ds_order s @ [idt]\<rparr>))"

definition shard_Forget :: "string \<Rightarrow> dedupShard \<Rightarrow> dedupShard" where
  "shard_Forget idt s =
     (if map_of (ds_m s) idt = None then s
      else let s' = s\<lparr>ds_m := AList.delete idt (ds_m s)\<rparr>
           in if int (length (ds_order s')) > ds_capacity s' * 2 then compactLocked s' else s')"

definition SeenOrAdd :: "string \<Rightarrow> time \<Rightarrow> Dedup \<Rightarrow> (bool \<times> Dedup) option" where
  "SeenOrAdd idt now d =
     (case shard_SeenOrAdd (dd_ttl d) idt now (dd_shards d ! shard_index idt) of
        None \<Rightarrow> None
      | Some (seen, s) \<Rightarrow> Some (seen, d\<lparr>dd_shards := (dd_shards d)[shard_index idt := s]\<rparr>))"

definition Forget :: "string \<Rightarrow> Dedup \<Rightarrow> Dedup" where
  "Forget idt d =
     d\<lparr>dd_shards := (dd_shards d)[shard_index idt := shard_Forget idt (dd_shards d ! shard_index idt)]\<rparr>"

subsection \<open>The invariant of a shard and of the table\<close>

text \<open>
  Every recorded identifier is in the order slice, the map is within capacity, and the order slice
  is at most two capacities longer than the map (stale slots that \<^verbatim>\<open>Forget\<close> leaves behind).
\<close>

definition shard_inv :: "dedupShard \<Rightarrow> bool" where
  "shard_inv s \<longleftrightarrow> gm_ok (ds_m s) \<and> gm_keys (ds_m s) \<subseteq> set (ds_order s)
     \<and> 0 < ds_capacity s \<and> int (length (ds_m s)) \<le> ds_capacity s
     \<and> int (length (ds_order s)) \<le> int (length (ds_m s)) + 2 * ds_capacity s"

definition dedup_inv :: "Dedup \<Rightarrow> bool" where
  "dedup_inv d \<longleftrightarrow> length (dd_shards d) = dedupShards \<and> 0 < dd_ttl d
     \<and> (\<forall>s \<in> set (dd_shards d). shard_inv s)"

lemma shard_index_bound [simp]: "shard_index idt < 32"
proof -
  have "fnv64a idt mod 32 < 32" by (rule word_mod_less_divisor) simp
  then show ?thesis by (simp add: shard_index_def word_less_nat_alt)
qed

lemma dedup_inv_shard: "dedup_inv d \<Longrightarrow> shard_inv (dd_shards d ! shard_index idt)"
  by (auto simp: dedup_inv_def dedupShards_def)

lemma expire_ok: "gm_ok m \<Longrightarrow> gm_ok (fst (expire_loop now m order))"
  by (induction now m order rule: expire_loop.induct) (auto simp: gm_ok_delete split: option.splits)

lemma expire_keys:
  "gm_keys m \<subseteq> set order \<Longrightarrow>
     gm_keys (fst (expire_loop now m order)) \<subseteq> set (snd (expire_loop now m order))"
proof (induction now m order rule: expire_loop.induct)
  case (2 now m idt rest)
  have "gm_keys (AList.delete idt m) \<subseteq> set rest"
    using "2.prems" by (auto simp: gm_keys_delete)
  with 2 show ?case by (simp split: option.split)
qed simp

lemma expire_len:
  "gm_ok m \<Longrightarrow> length (fst (expire_loop now m order)) \<le> length m
     \<and> length (snd (expire_loop now m order)) + length m
         \<le> length order + length (fst (expire_loop now m order))"
proof (induction now m order rule: expire_loop.induct)
  case (2 now m idt rest)
  have "length (AList.delete idt m) \<le> length m \<and> length m \<le> Suc (length (AList.delete idt m))"
    using "2.prems" gm_size_delete_in [of m idt]
    by (cases "idt \<in> gm_keys m") auto
  moreover have "gm_ok (AList.delete idt m)" using "2.prems" by (rule gm_ok_delete)
  moreover have "map_of m idt = None \<Longrightarrow> length (AList.delete idt m) = length m"
    by (simp add: gm_lookup_None)
  ultimately show ?case using "2.IH" by (fastforce split: option.split)
qed simp

lemma expire_sub: "map_of (fst (expire_loop now m order)) i = Some v \<Longrightarrow> map_of m i = Some v"
  by (induction now m order rule: expire_loop.induct)
    (auto simp: gm_lookup_delete split: option.splits if_splits)

lemma expire_keep:
  "map_of m i = Some v \<Longrightarrow> now < v \<Longrightarrow> map_of (fst (expire_loop now m order)) i = Some v"
proof (induction now m order rule: expire_loop.induct)
  case (2 now m idt rest)
  show ?case
  proof (cases "i = idt")
    case True
    with "2.prems" show ?thesis by simp
  next
    case False
    with "2.prems" have "map_of (AList.delete idt m) i = Some v" by (simp add: gm_lookup_delete)
    with 2 show ?thesis by (simp split: option.split)
  qed
qed simp

lemma expire_hd:
  "snd (expire_loop now m order) = x # r \<Longrightarrow>
     \<exists>v. map_of (fst (expire_loop now m order)) x = Some v \<and> now < v"
  by (induction now m order rule: expire_loop.induct) (auto split: option.splits if_splits)

lemma expireLocked_sel [simp]:
  "ds_m (expireLocked now s) = fst (expire_loop now (ds_m s) (ds_order s))"
  "ds_order (expireLocked now s) = snd (expire_loop now (ds_m s) (ds_order s))"
  "ds_capacity (expireLocked now s) = ds_capacity s"
  by (simp_all add: expireLocked_def split: prod.split)

lemma expireLocked_inv [inv_intros]:
  assumes "shard_inv s"
  shows "shard_inv (expireLocked now s)"
  using assms expire_len [of "ds_m s" now "ds_order s"] expire_keys [of "ds_m s" "ds_order s" now]
    expire_ok [of "ds_m s" now "ds_order s"]
  by (simp add: shard_inv_def)

lemma shard_inv_full_order:
  assumes "shard_inv s" and "ds_capacity s \<le> int (length (ds_m s))"
  shows "\<exists>old rest. ds_order s = old # rest"
  using assms by (cases "ds_order s") (auto simp: shard_inv_def)

lemma shard_inv_add:
  "shard_inv s \<Longrightarrow> int (length (ds_m s)) < ds_capacity s \<Longrightarrow> idt \<notin> gm_keys (ds_m s) \<Longrightarrow>
     shard_inv (s\<lparr>ds_m := AList.update idt e (ds_m s), ds_order := ds_order s @ [idt]\<rparr>)"
  by (auto simp: shard_inv_def gm_ok_update gm_keys_update gm_size_update)

lemma shard_inv_evict:
  "shard_inv s \<Longrightarrow> ds_order s = old # rest \<Longrightarrow> old \<in> gm_keys (ds_m s) \<Longrightarrow>
     shard_inv (s\<lparr>ds_m := AList.delete old (ds_m s), ds_order := rest\<rparr>)
     \<and> int (length (AList.delete old (ds_m s))) < ds_capacity s"
  using gm_size_delete_in [of "ds_m s" old]
  by (auto simp: shard_inv_def gm_ok_delete gm_keys_delete)

lemma shard_SeenOrAdd_ok:
  assumes "shard_inv s"
  obtains seen s' where "shard_SeenOrAdd ttl idt now s = Some (seen, s')" and "shard_inv s'"
    and "ds_capacity s' = ds_capacity s"
proof -
  let ?s = "expireLocked now s"
  have e: "shard_inv ?s" using assms by (rule expireLocked_inv)
  show ?thesis
  proof (cases "map_of (ds_m ?s) idt")
    case (Some v)
    then show ?thesis using that [of True ?s] e by (simp add: shard_SeenOrAdd_def)
  next
    case None
    then have notin: "idt \<notin> gm_keys (ds_m ?s)" by (simp only: gm_lookup_None not_False_eq_True)
    show ?thesis
    proof (cases "ds_capacity ?s \<le> int (length (ds_m ?s))")
      case False
      with e notin None show ?thesis
        using that [OF _ shard_inv_add [OF e _ notin, of "now + ttl"]]
        by (simp add: shard_SeenOrAdd_def)
    next
      case True
      with e obtain old rest where o: "ds_order ?s = old # rest"
        using shard_inv_full_order by blast
      then have "old \<in> gm_keys (ds_m ?s)"
        using expire_hd [of now "ds_m s" "ds_order s" old rest] by (auto dest: gm_lookup_in)
      note ev = shard_inv_evict [OF e o this]
      let ?t = "?s\<lparr>ds_m := AList.delete old (ds_m ?s), ds_order := rest\<rparr>"
      have "shard_inv (?t\<lparr>ds_m := AList.update idt (now + ttl) (ds_m ?t), ds_order := ds_order ?t @ [idt]\<rparr>)"
        using ev notin by (intro shard_inv_add) (auto simp: gm_keys_delete)
      with True o None show ?thesis
        using that [of False] by (simp add: shard_SeenOrAdd_def)
    qed
  qed
qed

lemma shard_Forget_inv:
  assumes "shard_inv s"
  shows "shard_inv (shard_Forget idt s)"
proof (cases "map_of (ds_m s) idt")
  case None
  with assms show ?thesis by (simp add: shard_Forget_def)
next
  case (Some v)
  let ?m = "AList.delete idt (ds_m s)"
  have k: "idt \<in> gm_keys (ds_m s)" using Some by (rule gm_lookup_in)
  then have m: "gm_ok ?m" "Suc (length ?m) = length (ds_m s)"
    using assms gm_size_delete_in [of "ds_m s" idt] by (auto simp: shard_inv_def gm_ok_delete)
  have sub: "gm_keys ?m \<subseteq> set (ds_order s)"
    using assms by (auto simp: shard_inv_def gomap_simps)
  show ?thesis
  proof (cases "int (length (ds_order s)) > ds_capacity s * 2")
    case False
    with Some m sub assms show ?thesis by (auto simp: shard_Forget_def shard_inv_def)
  next
    case True
    let ?o = "filter (\<lambda>i. map_of ?m i \<noteq> None) (ds_order s)"
    have "length ?o < length (ds_order s)"
      using k assms by (intro length_filter_less [of idt]) (auto simp: shard_inv_def gomap_simps)
    moreover have "gm_keys ?m \<subseteq> set ?o" using sub by (auto simp only: gm_lookup_None set_filter)
    moreover have "ds_order s \<noteq> []" using k assms by (auto simp: shard_inv_def)
    ultimately show ?thesis
      using True Some m assms
      by (auto simp: shard_Forget_def shard_inv_def compactLocked_def)
  qed
qed

lemma dedup_inv_upd:
  "dedup_inv d \<Longrightarrow> shard_inv s \<Longrightarrow> dedup_inv (d\<lparr>dd_shards := (dd_shards d)[i := s]\<rparr>)"
  by (auto simp: dedup_inv_def dest: set_update_subset_insert [THEN subsetD])

lemma SeenOrAdd_ok:
  assumes "dedup_inv d"
  obtains seen d' where "SeenOrAdd idt now d = Some (seen, d')" and "dedup_inv d'"
proof -
  obtain seen s' where "shard_SeenOrAdd (dd_ttl d) idt now (dd_shards d ! shard_index idt) = Some (seen, s')"
    and "shard_inv s'"
    using shard_SeenOrAdd_ok [OF dedup_inv_shard [OF assms]] by blast
  with assms that show ?thesis by (simp add: SeenOrAdd_def dedup_inv_upd)
qed

lemma SeenOrAdd_inv [inv_intros]:
  "dedup_inv d \<Longrightarrow> SeenOrAdd idt now d = Some (seen, d') \<Longrightarrow> dedup_inv d'"
  by (metis SeenOrAdd_ok option.inject prod.inject)

lemma Forget_inv [inv_intros]: "dedup_inv d \<Longrightarrow> dedup_inv (Forget idt d)"
  unfolding Forget_def by (intro dedup_inv_upd shard_Forget_inv dedup_inv_shard)

lemma shard_cap_pos: "0 < n \<Longrightarrow> 0 < shard_cap n i"
proof -
  assume "0 < n"
  then have "0 \<le> n div 32" by simp
  then show ?thesis by (auto simp: shard_cap_def Let_def)
qed

lemma NewDedup_inv [inv_intros]: "NewDedup n ttl = Inr d \<Longrightarrow> dedup_inv d"
  by (auto simp: NewDedup_def dedup_inv_def shard_inv_def shard_cap_pos dedupShards_def
      less_imp_le split: if_splits)

subsection \<open>What a lookup answers\<close>

text \<open>An identifier is reported as seen exactly when its entry survives the expiry scan.\<close>

lemma shard_SeenOrAdd_seen:
  "shard_SeenOrAdd ttl idt now s = Some (seen, s') \<Longrightarrow>
     seen \<longleftrightarrow> map_of (ds_m (expireLocked now s)) idt \<noteq> None"
  by (auto simp: shard_SeenOrAdd_def Let_def split: if_splits list.splits)

lemma shard_SeenOrAdd_adds:
  "shard_SeenOrAdd ttl idt now s = Some (False, s') \<Longrightarrow> map_of (ds_m s') idt = Some (now + ttl)"
  by (auto simp: shard_SeenOrAdd_def Let_def gm_lookup_update split: if_splits list.splits)

lemma shard_seen_while_live:
  assumes "map_of (ds_m s) idt = Some v" and "now < v"
    and "shard_SeenOrAdd ttl idt now s = Some (seen, s')"
  shows "seen \<and> map_of (ds_m s') idt = Some v"
  using assms expire_keep [OF assms(1,2)]
  by (auto simp: shard_SeenOrAdd_def split: if_splits)

lemma shard_Forget_lookup:
  "map_of (ds_m (shard_Forget idt s)) i = (if i = idt then None else map_of (ds_m s) i)"
  by (auto simp: shard_Forget_def compactLocked_def Let_def gm_lookup_delete)

lemma shard_not_seen_after_Forget:
  assumes "shard_SeenOrAdd ttl idt now (shard_Forget idt s) = Some (seen, s')"
  shows "\<not> seen"
  using shard_SeenOrAdd_seen [OF assms] shard_Forget_lookup [of idt s idt]
  by (metis expireLocked_sel(1) expire_sub not_None_eq option.distinct(1))

text \<open>The entry recorded for an identifier, read through its shard.\<close>

definition dedup_entry :: "Dedup \<Rightarrow> string \<Rightarrow> time option" where
  "dedup_entry d idt = map_of (ds_m (dd_shards d ! shard_index idt)) idt"

lemma SeenOrAdd_cases:
  assumes "SeenOrAdd idt now d = Some (seen, d')"
  obtains s' where "shard_SeenOrAdd (dd_ttl d) idt now (dd_shards d ! shard_index idt) = Some (seen, s')"
    and "d' = d\<lparr>dd_shards := (dd_shards d)[shard_index idt := s']\<rparr>"
  using assms by (auto simp: SeenOrAdd_def split: option.splits)

lemma dedup_inv_len [simp]: "dedup_inv d \<Longrightarrow> shard_index idt < length (dd_shards d)"
  by (simp add: dedup_inv_def dedupShards_def)

lemma SeenOrAdd_ttl [frame_simps]: "SeenOrAdd idt now d = Some (seen, d') \<Longrightarrow> dd_ttl d' = dd_ttl d"
  by (auto elim!: SeenOrAdd_cases)

lemma SeenOrAdd_adds:
  assumes "dedup_inv d" and "SeenOrAdd idt now d = Some (False, d')"
  shows "dedup_entry d' idt = Some (now + dd_ttl d)"
  using assms by (auto elim!: SeenOrAdd_cases dest!: shard_SeenOrAdd_adds simp: dedup_entry_def)

lemma Forget_entry:
  assumes "dedup_inv d"
  shows "dedup_entry (Forget idt d) i = (if i = idt then None else dedup_entry d i)"
proof (cases "shard_index i = shard_index idt")
  case True
  then show ?thesis
    using assms by (simp add: dedup_entry_def Forget_def shard_Forget_lookup)
next
  case False
  then show ?thesis by (auto simp: dedup_entry_def Forget_def)
qed

subsection \<open>Runs of operations\<close>

datatype dedup_op = DSeen string time | DForget string

fun dedup_run :: "dedup_op list \<Rightarrow> Dedup \<Rightarrow> (bool list \<times> Dedup) option" where
  "dedup_run [] d = Some ([], d)"
| "dedup_run (DSeen idt now # ops) d =
     (case SeenOrAdd idt now d of
        None \<Rightarrow> None
      | Some (seen, d') \<Rightarrow>
          (case dedup_run ops d' of None \<Rightarrow> None | Some (r, d'') \<Rightarrow> Some (seen # r, d'')))"
| "dedup_run (DForget idt # ops) d = dedup_run ops (Forget idt d)"

definition dedup_caps :: "Dedup \<Rightarrow> int list" where
  "dedup_caps d = map ds_capacity (dd_shards d)"

lemma shard_Forget_cap [simp]: "ds_capacity (shard_Forget idt s) = ds_capacity s"
  by (simp add: shard_Forget_def compactLocked_def Let_def)

lemma dedup_caps_upd:
  "ds_capacity s = ds_capacity (dd_shards d ! i) \<Longrightarrow>
     dedup_caps (d\<lparr>dd_shards := (dd_shards d)[i := s]\<rparr>) = dedup_caps d"
  by (simp add: dedup_caps_def map_update list_update_same_conv)
    (metis list_update_id map_update)

lemma SeenOrAdd_caps:
  assumes "dedup_inv d" and "SeenOrAdd idt now d = Some (seen, d')"
  shows "dedup_caps d' = dedup_caps d"
proof -
  obtain s' where s': "shard_SeenOrAdd (dd_ttl d) idt now (dd_shards d ! shard_index idt) = Some (seen, s')"
    and d': "d' = d\<lparr>dd_shards := (dd_shards d)[shard_index idt := s']\<rparr>"
    using assms(2) by (rule SeenOrAdd_cases)
  have "ds_capacity s' = ds_capacity (dd_shards d ! shard_index idt)"
    using shard_SeenOrAdd_ok [OF dedup_inv_shard [OF assms(1)]] s'
    by (metis option.inject prod.inject)
  then show ?thesis unfolding d' by (rule dedup_caps_upd)
qed

lemma Forget_caps: "dedup_caps (Forget idt d) = dedup_caps d"
  unfolding Forget_def by (rule dedup_caps_upd) simp

lemma dedup_run_ok:
  assumes "dedup_inv d"
  shows "\<exists>r d'. dedup_run ops d = Some (r, d') \<and> dedup_inv d' \<and> dedup_caps d' = dedup_caps d"
  using assms
proof (induction ops arbitrary: d)
  case Nil
  then show ?case by simp
next
  case (Cons op ops)
  show ?case
  proof (cases op)
    case (DSeen idt now)
    obtain seen d1 where d1: "SeenOrAdd idt now d = Some (seen, d1)" "dedup_inv d1"
      using Cons.prems SeenOrAdd_ok by blast
    with Cons.IH [OF d1(2)] Cons.prems DSeen show ?thesis
      by (auto simp: SeenOrAdd_caps)
  next
    case (DForget idt)
    with Cons.IH [OF Forget_inv [OF Cons.prems]] show ?thesis by (auto simp: Forget_caps)
  qed
qed

text \<open>The shards of a new table share the capacity, each at least 1.\<close>

lemma shard_cap_eq:
  "0 < n \<Longrightarrow> shard_cap n i =
     (if n div 32 = 0 then 1 else n div 32 + (if int i < n mod 32 then 1 else 0))"
proof -
  assume "0 < n"
  then have "0 \<le> n div 32" by simp
  then show ?thesis by (auto simp: shard_cap_def Let_def)
qed

lemma sum_list_shard_cap:
  assumes "0 < n"
  shows "sum_list (map (shard_cap n) [0..<32]) = max n 32"
proof -
  have n: "n = 32 * (n div 32) + n mod 32" by simp
  have "0 \<le> n div 32" "0 \<le> n mod 32" "n mod 32 < 32" using assms by simp_all
  moreover have "sum_list (map (shard_cap n) [0..<32]) =
      (\<Sum>i<32. if n div 32 = 0 then 1 else n div 32 + (if int i < n mod 32 then 1 else 0))"
    by (simp add: interv_sum_list_conv_sum_set_nat lessThan_atLeast0 shard_cap_eq [OF assms])
  moreover have "(\<Sum>i<(32::nat). if int i < n mod 32 then 1 else 0) = n mod 32"
  proof -
    have "{..<(32::nat)} \<inter> {i. int i < n mod 32} = {..<nat (n mod 32)}"
      using calculation(2,3) by auto
    then show ?thesis using calculation(2) by (simp add: sum.If_cases)
  qed
  ultimately show ?thesis
    using n by (cases "n div 32 = 0") (auto simp: sum.distrib)
qed

lemma NewDedup_caps:
  assumes "NewDedup n ttl = Inr d"
  shows "sum_list (dedup_caps d) = max n 32" and "dd_ttl d = ttl"
  using assms sum_list_shard_cap [of n]
  by (auto simp: NewDedup_def dedup_caps_def dedupShards_def o_def split: if_splits)

definition dedup_size :: "Dedup \<Rightarrow> int" where
  "dedup_size d = int (sum_list (map (\<lambda>s. length (ds_m s)) (dd_shards d)))"

lemma dedup_inv_size:
  assumes "dedup_inv d"
  shows "dedup_size d \<le> sum_list (dedup_caps d)"
proof -
  have "int (sum_list (map (\<lambda>s. length (ds_m s)) ss)) \<le> sum_list (map ds_capacity ss)"
    if "\<forall>s \<in> set ss. shard_inv s" for ss
    using that by (induction ss) (auto simp: shard_inv_def)
  then show ?thesis using assms by (simp add: dedup_size_def dedup_caps_def dedup_inv_def)
qed

subsection \<open>Expiry is exact while nothing is forgotten\<close>

text \<open>
  A shard on which only \<^verbatim>\<open>SeenOrAdd\<close> ran, with a clock that did not go back, holds its entries
  in the order of their expiry, each in one slot: then the scan removes every expired entry.
\<close>

definition fresh_order :: "duration \<Rightarrow> time \<Rightarrow> dedupShard \<Rightarrow> bool" where
  "fresh_order ttl t s \<longleftrightarrow> distinct (ds_order s) \<and> gm_keys (ds_m s) = set (ds_order s)
     \<and> sorted (map (\<lambda>i. the (map_of (ds_m s) i)) (ds_order s))
     \<and> (\<forall>i \<in> set (ds_order s). the (map_of (ds_m s) i) \<le> t + ttl)"

lemma expire_live_suffix:
  assumes "distinct order" and "gm_keys m = set order"
    and "sorted (map (\<lambda>i. the (map_of m i)) order)"
    and "expire_loop now m order = (m', order')"
  shows "distinct order' \<and> gm_keys m' = set order' \<and> set order' \<subseteq> set order
     \<and> sorted (map (\<lambda>i. the (map_of m' i)) order')
     \<and> (\<forall>i \<in> set order'. map_of m' i = map_of m i)
     \<and> (\<forall>i v. map_of m' i = Some v \<longrightarrow> now < v)"
  using assms
proof (induction now m order rule: expire_loop.induct)
  case (1 now m)
  then show ?case by simp
next
  case (2 now m idt rest)
  obtain v where v: "map_of m idt = Some v"
    using "2.prems"(2) by (metis gm_lookup_None list.set_intros(1) not_None_eq)
  show ?case
  proof (cases "now < v")
    case True
    with v "2.prems"(4) have eq: "m' = m" "order' = idt # rest" by auto
    have "now < w" if "map_of m i = Some w" for i w
    proof -
      have "i \<in> set (idt # rest)" using gm_lookup_in [OF that] "2.prems"(2) by simp
      then have "i = idt \<or> v \<le> w" using "2.prems"(3) that v by auto
      then show ?thesis using that v True by auto
    qed
    with eq "2.prems" show ?thesis by blast
  next
    case False
    let ?d = "AList.delete idt m"
    have same: "map_of ?d i = map_of m i" if "i \<in> set rest" for i
      using that "2.prems"(1) by (auto simp: gm_lookup_delete)
    have keys: "gm_keys ?d = set rest" using "2.prems"(1,2) by (auto simp: gm_keys_delete)
    have sorted: "sorted (map (\<lambda>i. the (map_of ?d i)) rest)"
      using "2.prems"(3) same by (simp cong: map_cong)
    from False v "2.prems"(4) have "expire_loop now ?d rest = (m', order')" by simp
    with "2.IH"(2) [OF v False _ keys sorted] "2.prems"(1) same show ?thesis by auto
  qed
qed

lemma fresh_expireLocked:
  assumes "fresh_order ttl t s" and "t \<le> now"
  shows "fresh_order ttl now (expireLocked now s)"
    and "map_of (ds_m (expireLocked now s)) i = Some v \<Longrightarrow> now < v"
proof -
  obtain m' order' where e: "expire_loop now (ds_m s) (ds_order s) = (m', order')" by force
  have x: "distinct order'" "gm_keys m' = set order'" "set order' \<subseteq> set (ds_order s)"
      "sorted (map (\<lambda>i. the (map_of m' i)) order')"
      "\<forall>i \<in> set order'. map_of m' i = map_of (ds_m s) i" "\<forall>i v. map_of m' i = Some v \<longrightarrow> now < v"
    using expire_live_suffix [OF _ _ _ e] assms(1) by (auto simp: fresh_order_def)
  have "the (map_of m' i) \<le> now + ttl" if "i \<in> set order'" for i
    using that x(3,5) assms by (fastforce simp: fresh_order_def)
  then show "fresh_order ttl now (expireLocked now s)"
    using x(1,2,4) by (simp add: fresh_order_def e)
  show "now < v" if "map_of (ds_m (expireLocked now s)) i = Some v"
    using x(6) that by (simp add: e)
qed

lemma fresh_append:
  assumes "fresh_order ttl now s" and "idt \<notin> set (ds_order s)"
  shows "fresh_order ttl now
           (s\<lparr>ds_m := AList.update idt (now + ttl) (ds_m s), ds_order := ds_order s @ [idt]\<rparr>)"
proof -
  have "map_of (AList.update idt (now + ttl) (ds_m s)) i = map_of (ds_m s) i"
    if "i \<in> set (ds_order s)" for i
    using that assms(2) by (auto simp: gm_lookup_update)
  then show ?thesis
    using assms
    by (auto simp: fresh_order_def gm_keys_update gm_lookup_update sorted_append cong: map_cong)
qed

lemma fresh_evict:
  assumes "fresh_order ttl now s" and "ds_order s = old # rest"
  shows "fresh_order ttl now (s\<lparr>ds_m := AList.delete old (ds_m s), ds_order := rest\<rparr>)"
proof -
  have "map_of (AList.delete old (ds_m s)) i = map_of (ds_m s) i" if "i \<in> set rest" for i
    using that assms by (auto simp: fresh_order_def gm_lookup_delete)
  then show ?thesis
    using assms by (auto simp: fresh_order_def gm_keys_delete cong: map_cong)
qed

lemma fresh_SeenOrAdd:
  assumes f: "fresh_order ttl t s" and "t \<le> now"
    and r: "shard_SeenOrAdd ttl idt now s = Some (seen, s')"
  shows "fresh_order ttl now s'"
proof -
  let ?s = "expireLocked now s"
  have e: "fresh_order ttl now ?s" using f \<open>t \<le> now\<close> by (rule fresh_expireLocked)
  show ?thesis
  proof (cases "map_of (ds_m ?s) idt")
    case (Some v)
    with r e show ?thesis by (auto simp: shard_SeenOrAdd_def)
  next
    case None
    then have n: "idt \<notin> set (ds_order ?s)" using e by (auto simp: fresh_order_def gm_lookup_None)
    show ?thesis
    proof (cases "ds_capacity ?s \<le> int (length (ds_m ?s))")
      case False
      with None r fresh_append [OF e n] show ?thesis by (auto simp: shard_SeenOrAdd_def)
    next
      case True
      with None r obtain old rest where o: "ds_order ?s = old # rest"
        by (auto simp: shard_SeenOrAdd_def Let_def split: list.splits)
      from fresh_append [OF fresh_evict [OF e o], of idt] True None r o n show ?thesis
        by (auto simp: shard_SeenOrAdd_def)
    qed
  qed
qed

text \<open>A history of \<^verbatim>\<open>SeenOrAdd\<close> calls on one shard, with the times at which they ran.\<close>

fun add_run :: "duration \<Rightarrow> (string \<times> time) list \<Rightarrow> dedupShard \<Rightarrow> dedupShard option" where
  "add_run ttl [] s = Some s"
| "add_run ttl ((idt, now) # h) s =
     (case shard_SeenOrAdd ttl idt now s of None \<Rightarrow> None | Some (_, s') \<Rightarrow> add_run ttl h s')"

lemma fresh_add_run:
  assumes "fresh_order ttl t s" and "sorted (t # map snd h)" and "add_run ttl h s = Some s'"
  shows "fresh_order ttl (last (t # map snd h)) s'"
  using assms
proof (induction h arbitrary: t s)
  case Nil
  then show ?case by simp
next
  case (Cons x h)
  obtain idt now where x: "x = (idt, now)" by force
  from Cons.prems(3) x obtain seen s1 where s1: "shard_SeenOrAdd ttl idt now s = Some (seen, s1)"
    and run: "add_run ttl h s1 = Some s'"
    by (auto split: option.splits)
  have "fresh_order ttl now s1"
    using fresh_SeenOrAdd [OF Cons.prems(1) _ s1] Cons.prems(2) x by simp
  from Cons.IH [OF this _ run] Cons.prems(2) x show ?case by simp
qed

subsection \<open>The whole table\<close>

definition seen_ops :: "(string \<times> time) list \<Rightarrow> dedup_op list" where
  "seen_ops h = map (\<lambda>(i, t). DSeen i t) h"

text \<open>
  What holds after a history \<open>h\<close> of \<^verbatim>\<open>SeenOrAdd\<close> calls up to time \<open>t\<close>: every shard is in order of
  expiry and every entry stems from a call in the history.
\<close>

definition table_fresh :: "(string \<times> time) list \<Rightarrow> time \<Rightarrow> Dedup \<Rightarrow> bool" where
  "table_fresh h t d \<longleftrightarrow> dedup_inv d \<and> (\<forall>s \<in> set (dd_shards d). fresh_order (dd_ttl d) t s)
     \<and> (\<forall>i v. dedup_entry d i = Some v \<longrightarrow> (\<exists>u. (i, u) \<in> set h \<and> v = u + dd_ttl d))"

lemma fresh_order_mono: "fresh_order ttl t s \<Longrightarrow> t \<le> u \<Longrightarrow> fresh_order ttl u s"
  by (force simp: fresh_order_def)

lemma SeenOrAdd_entry:
  assumes "dedup_inv d" and "SeenOrAdd idt now d = Some (seen, d')" and "dedup_entry d' i = Some v"
  shows "dedup_entry d i = Some v \<or> (i = idt \<and> v = now + dd_ttl d)"
proof -
  obtain s' where s': "shard_SeenOrAdd (dd_ttl d) idt now (dd_shards d ! shard_index idt) = Some (seen, s')"
    and d': "d' = d\<lparr>dd_shards := (dd_shards d)[shard_index idt := s']\<rparr>"
    using assms(2) by (rule SeenOrAdd_cases)
  show ?thesis
  proof (cases "shard_index i = shard_index idt")
    case True
    then have "map_of (ds_m s') i = Some v" using assms(1,3) d' by (simp add: dedup_entry_def)
    then have "map_of (ds_m (expireLocked now (dd_shards d ! shard_index idt))) i = Some v
        \<or> (i = idt \<and> v = now + dd_ttl d)"
      using s' by (auto simp: shard_SeenOrAdd_def Let_def gm_lookup_update gm_lookup_delete
          split: if_splits list.splits)
    then show ?thesis using True by (auto simp: dedup_entry_def dest: expire_sub)
  next
    case False
    then show ?thesis using assms(3) d' by (simp add: dedup_entry_def)
  qed
qed

lemma table_fresh_step:
  assumes "table_fresh h t d" and "t \<le> now" and "SeenOrAdd idt now d = Some (seen, d')"
  shows "table_fresh (h @ [(idt, now)]) now d'" and "dd_ttl d' = dd_ttl d"
proof -
  have inv: "dedup_inv d" and fr: "\<forall>s \<in> set (dd_shards d). fresh_order (dd_ttl d) t s"
    and en: "\<And>i v. dedup_entry d i = Some v \<Longrightarrow> \<exists>u. (i, u) \<in> set h \<and> v = u + dd_ttl d"
    using assms(1) by (auto simp: table_fresh_def)
  obtain s' where s': "shard_SeenOrAdd (dd_ttl d) idt now (dd_shards d ! shard_index idt) = Some (seen, s')"
    and d': "d' = d\<lparr>dd_shards := (dd_shards d)[shard_index idt := s']\<rparr>"
    using assms(3) by (rule SeenOrAdd_cases)
  show ttl: "dd_ttl d' = dd_ttl d" using d' by simp
  have "fresh_order (dd_ttl d) t (dd_shards d ! shard_index idt)" using fr inv by simp
  then have "fresh_order (dd_ttl d) now s'" using assms(2) s' by (rule fresh_SeenOrAdd)
  then have "\<forall>s \<in> insert s' (set (dd_shards d)). fresh_order (dd_ttl d) now s"
    using fr fresh_order_mono [OF _ assms(2)] by simp
  moreover have "set (dd_shards d') \<subseteq> insert s' (set (dd_shards d))"
    unfolding d' by (simp add: set_update_subset_insert)
  ultimately have "\<forall>s \<in> set (dd_shards d'). fresh_order (dd_ttl d) now s" by (meson subsetD)
  moreover have "dedup_inv d'" using inv assms(3) by (rule SeenOrAdd_inv)
  ultimately show "table_fresh (h @ [(idt, now)]) now d'"
    unfolding table_fresh_def ttl using en SeenOrAdd_entry [OF inv assms(3)] by fastforce
qed

lemma table_fresh_run:
  assumes "table_fresh h0 t d" and "sorted (t # map snd h)" and "dedup_run (seen_ops h) d = Some (r, d')"
  shows "table_fresh (h0 @ h) (last (t # map snd h)) d' \<and> dd_ttl d' = dd_ttl d"
  using assms
proof (induction h arbitrary: h0 t d r)
  case (Cons x h)
  obtain i u where x: "x = (i, u)" by force
  from Cons.prems(3) x obtain seen d1 r1 where s: "SeenOrAdd i u d = Some (seen, d1)"
      "dedup_run (seen_ops h) d1 = Some (r1, d')"
    by (auto simp: seen_ops_def split: option.splits)
  have "t \<le> u" using Cons.prems(2) x by simp
  note st = table_fresh_step [OF Cons.prems(1) this s(1)]
  from Cons.IH [OF st(1) _ s(2)] st(2) Cons.prems(2) x show ?case by simp
qed (simp add: seen_ops_def)

lemma NewDedup_fresh: "NewDedup n ttl = Inr d \<Longrightarrow> table_fresh [] t d"
  using NewDedup_inv [of n ttl d]
  by (auto simp: table_fresh_def NewDedup_def fresh_order_def dedup_entry_def dedupShards_def split: if_splits)

lemma fresh_seen_iff:
  assumes "table_fresh h t d" and "t \<le> now" and "SeenOrAdd idt now d = Some (seen, d')"
  shows "seen \<longleftrightarrow> (\<exists>v. dedup_entry d idt = Some v \<and> now < v)"
proof -
  let ?s = "dd_shards d ! shard_index idt"
  obtain s' where s': "shard_SeenOrAdd (dd_ttl d) idt now ?s = Some (seen, s')"
    using assms(3) by (rule SeenOrAdd_cases)
  have f: "fresh_order (dd_ttl d) t ?s" using assms(1) by (simp add: table_fresh_def)
  let ?e = "map_of (fst (expire_loop now (ds_m ?s) (ds_order ?s))) idt"
  have seen: "seen \<longleftrightarrow> ?e \<noteq> None" using shard_SeenOrAdd_seen [OF s'] by simp
  show ?thesis
  proof
    assume seen
    then obtain v where v: "?e = Some v" using seen by blast
    then have "map_of (ds_m ?s) idt = Some v" by (rule expire_sub)
    moreover have "now < v" using fresh_expireLocked(2) [OF f assms(2)] v by simp
    ultimately show "\<exists>v. dedup_entry d idt = Some v \<and> now < v" by (simp add: dedup_entry_def)
  next
    assume "\<exists>v. dedup_entry d idt = Some v \<and> now < v"
    then obtain v where "map_of (ds_m ?s) idt = Some v" "now < v" by (auto simp: dedup_entry_def)
    then have "?e = Some v" by (rule expire_keep)
    then show seen using seen by simp
  qed
qed

lemma dedup_run_ttl: "dedup_run ops d = Some (r, d') \<Longrightarrow> dd_ttl d' = dd_ttl d"
proof (induction ops arbitrary: d r)
  case (Cons op ops)
  show ?case
  proof (cases op)
    case (DSeen i t)
    with Cons.prems obtain seen d1 r1 where "SeenOrAdd i t d = Some (seen, d1)" "dedup_run ops d1 = Some (r1, d')"
      by (auto split: option.splits)
    then show ?thesis using Cons.IH SeenOrAdd_ttl by metis
  next
    case (DForget i)
    then show ?thesis using Cons.IH [of "Forget i d"] Cons.prems by (simp add: Forget_def)
  qed
qed simp

subsection \<open>Properties\<close>

text \<open>
  C10 The deduplication table is bounded and never panics: for every sequence of lookups and
  removals, at any times, it answers each call, holds at most \<open>max n 32\<close> identifiers, and no shard's
  order slice exceeds three times its capacity.
\<close>

theorem dedup_run_bounded:
  assumes "NewDedup n ttl = Inr d"
  shows "\<exists>r d'. dedup_run ops d = Some (r, d') \<and> dedup_size d' \<le> max n 32
     \<and> (\<forall>s \<in> set (dd_shards d'). int (length (ds_order s)) \<le> 3 * ds_capacity s)"
proof -
  obtain r d' where r: "dedup_run ops d = Some (r, d')" "dedup_inv d'" "dedup_caps d' = dedup_caps d"
    using dedup_run_ok [OF NewDedup_inv [OF assms]] by blast
  then have "dedup_size d' \<le> max n 32" using dedup_inv_size [OF r(2)] NewDedup_caps(1) [OF assms] by simp
  moreover have "\<forall>s \<in> set (dd_shards d'). int (length (ds_order s)) \<le> 3 * ds_capacity s"
    using r(2) by (auto simp: dedup_inv_def shard_inv_def)
  ultimately show ?thesis using r(1) by blast
qed

definition dedup_128 :: Dedup where
  "dedup_128 = \<lparr>dd_shards = replicate 32 \<lparr>ds_m = [], ds_order = [], ds_capacity = 4\<rparr>, dd_ttl = 10,
     dd_capacity = 128\<rparr>"

lemma NewDedup_128: "NewDedup 128 10 = Inr dedup_128"
  by (simp add: NewDedup_def dedup_128_def shard_cap_def dedupShards_def map_replicate_const)

theorem dedup_run_bounded_witness:
  "\<exists>r d'. dedup_run [DSeen ''a'' 0, DForget ''a'', DSeen ''a'' 5] dedup_128 = Some (r, d') \<and> dedup_size d' \<le> max 128 32
     \<and> (\<forall>s \<in> set (dd_shards d'). int (length (ds_order s)) \<le> 3 * ds_capacity s)"
  by (rule dedup_run_bounded [OF NewDedup_128])

text \<open>
  C25 The time-to-live is exact while nothing is forgotten: after any history of lookups with a clock
  that does not go back, a lookup reports a duplicate exactly if the table still holds an entry for
  the identifier whose expiry lies ahead, and then the identifier was looked up less than one
  time-to-live ago.
\<close>

theorem dedup_ttl_exact:
  assumes "NewDedup n ttl = Inr d" and "dedup_run (seen_ops h) d = Some (r, d1)"
    and "sorted (map snd h @ [now])" and "SeenOrAdd idt now d1 = Some (seen, d2)"
  shows "(seen \<longleftrightarrow> (\<exists>v. dedup_entry d1 idt = Some v \<and> now < v))
     \<and> (seen \<longrightarrow> (\<exists>u. (idt, u) \<in> set h \<and> u \<le> now \<and> now < u + ttl))"
proof -
  define t where "t = Min (insert now (snd ` set h))"
  have "sorted (t # map snd h)" using assms(3) by (auto simp: sorted_append t_def)
  from table_fresh_run [OF NewDedup_fresh [OF assms(1), of t] this assms(2)]
  have f: "table_fresh h (last (t # map snd h)) d1" "dd_ttl d1 = ttl"
    using NewDedup_caps(2) [OF assms(1)] by simp_all
  have "last (t # map snd h) \<le> now"
    using assms(3) by (cases h rule: rev_cases) (auto simp: sorted_append t_def)
  note s = fresh_seen_iff [OF f(1) this assms(4)]
  have "\<exists>u. (idt, u) \<in> set h \<and> u \<le> now \<and> now < u + ttl" if sn: seen
  proof -
    obtain v where v: "dedup_entry d1 idt = Some v" "now < v" using s sn by blast
    have "\<exists>u. (idt, u) \<in> set h \<and> v = u + ttl" using f v(1) unfolding table_fresh_def by blast
    then obtain u where "(idt, u) \<in> set h" "v = u + ttl" by blast
    then show ?thesis using v(2) assms(3) by (force simp: sorted_append)
  qed
  then show ?thesis using s by blast
qed

theorem dedup_ttl_exact_witness:
  "\<exists>r d1 seen d2. dedup_run (seen_ops [(''a'', 0)]) dedup_128 = Some (r, d1) \<and> SeenOrAdd ''a'' 9 d1 = Some (seen, d2)
     \<and> (seen \<longleftrightarrow> (\<exists>v. dedup_entry d1 ''a'' = Some v \<and> 9 < v))
     \<and> (seen \<longrightarrow> (\<exists>u. (''a'', u :: int) \<in> set [(''a'', 0)] \<and> u \<le> 9 \<and> 9 < u + 10))"
proof -
  obtain r d1 where r: "dedup_run (seen_ops [(''a'', 0)]) dedup_128 = Some (r, d1)" "dedup_inv d1"
    using dedup_run_ok [OF NewDedup_inv [OF NewDedup_128]] by blast
  obtain seen d2 where "SeenOrAdd ''a'' 9 d1 = Some (seen, d2)" using SeenOrAdd_ok [OF r(2)] by blast
  with r(1) dedup_ttl_exact [OF NewDedup_128 r(1) _ this] show ?thesis by auto
qed

text \<open>
  A removed identifier can be submitted again at once, and every other identifier keeps its
  entry: what Submit relies on when it gives back an identifier after a failed append or push.
\<close>

theorem dedup_forget_allows_retry:
  assumes "NewDedup n ttl = Inr d0" and "dedup_run ops d0 = Some (r, d)"
  shows "\<exists>d'. SeenOrAdd idt now (Forget idt d) = Some (False, d')
     \<and> dedup_entry d' idt = Some (now + ttl)
     \<and> (\<forall>i. i \<noteq> idt \<longrightarrow> dedup_entry (Forget idt d) i = dedup_entry d i)"
proof -
  obtain r' d'' where "dedup_run ops d0 = Some (r', d'')" "dedup_inv d''" "dedup_caps d'' = dedup_caps d0"
    using dedup_run_ok [OF NewDedup_inv [OF assms(1)]] by blast
  with assms(2) have inv: "dedup_inv d" by simp
  have invF: "dedup_inv (Forget idt d)" using inv by (rule Forget_inv)
  obtain seen d' where s: "SeenOrAdd idt now (Forget idt d) = Some (seen, d')" using SeenOrAdd_ok [OF invF] by blast
  then obtain s' where "shard_SeenOrAdd (dd_ttl d) idt now (shard_Forget idt (dd_shards d ! shard_index idt)) = Some (seen, s')"
    using inv by (auto simp: Forget_def elim!: SeenOrAdd_cases)
  then have "\<not> seen" by (rule shard_not_seen_after_Forget)
  then show ?thesis
    using s SeenOrAdd_adds [OF invF, of idt now d'] Forget_entry [OF inv, of idt] dedup_run_ttl [OF assms(2)]
      NewDedup_caps(2) [OF assms(1)] by (simp add: Forget_def)
qed

theorem dedup_forget_allows_retry_witness:
  "\<exists>r d. dedup_run [DSeen ''a'' 0] dedup_128 = Some (r, d)
     \<and> (\<exists>d'. SeenOrAdd ''a'' 1 (Forget ''a'' d) = Some (False, d') \<and> dedup_entry d' ''a'' = Some (1 + 10)
          \<and> (\<forall>i. i \<noteq> ''a'' \<longrightarrow> dedup_entry (Forget ''a'' d) i = dedup_entry d i))"
proof -
  obtain r d where r: "dedup_run [DSeen ''a'' 0] dedup_128 = Some (r, d)"
    using dedup_run_ok [OF NewDedup_inv [OF NewDedup_128]] by blast
  then show ?thesis using dedup_forget_allows_retry [OF NewDedup_128 r, of "''a''" 1] by blast
qed

text \<open>
  The time-to-live is not honoured once an identifier was forgotten and added again: the order
  slice keeps its stale slot, and the scan stops there on the newer entry. With a time-to-live of
  10, an identifier recorded at time 2 is still reported as a duplicate at time 18.
\<close>

theorem dedup_ttl_stale_slot:
  "\<exists>d'. dedup_run [DSeen ''c6'' 0, DSeen ''a'' 1, DSeen ''d7'' 2, DForget ''a'', DSeen ''a'' 9, DSeen ''d7'' 18]
     dedup_128 = Some ([False, False, False, False, True], d')"
proof -
  have "shard_index ''c6'' = shard_index ''a''" "shard_index ''d7'' = shard_index ''a''"
    by (simp_all add: shard_index_def fnv64a_def)
  moreover have "shard_index ''a'' < 32" by simp
  ultimately show ?thesis
    by (simp add: SeenOrAdd_def Forget_def dedup_128_def shard_SeenOrAdd_def shard_Forget_def
        expireLocked_def compactLocked_def)
qed

end
