(* ===== verification/Go_Json.thy ===== *)
theory Go_Json
  imports HED_Prelude
begin

text \<open>
  What the program uses of \<^verbatim>\<open>encoding/json\<close>, \<^verbatim>\<open>encoding/base64\<close> and \<^verbatim>\<open>unicode/utf8\<close>:
  the encoder for strings, byte slices, integers and objects (with Go's HTML-safe escaping and its
  replacement of invalid UTF-8), and a parser of JSON texts. The parser is recursive descent with
  fuel; each level of recursion consumes at least one byte, so one more than the length of the
  text is enough, and the round trip below holds for every larger amount. The theory proves that
  the parser inverts the printer and that it refuses every proper prefix of a printed object.
\<close>

subsection \<open>UTF-8\<close>

abbreviation byte_in :: "nat \<Rightarrow> nat \<Rightarrow> char \<Rightarrow> bool" where
  "byte_in lo hi c \<equiv> lo \<le> (of_char c :: nat) \<and> (of_char c :: nat) \<le> hi"

text \<open>
  The number of bytes of the valid encoding a text starts with, 0 if it starts with none: the
  first byte gives the width, the second has a range that excludes overlong forms, surrogates and
  values beyond U+10FFFF, the others are continuation bytes.
\<close>

definition lead_width :: "nat \<Rightarrow> nat" where
  "lead_width n =
     (if n < 128 then 1 else if 194 \<le> n \<and> n \<le> 223 then 2 else if 224 \<le> n \<and> n \<le> 239 then 3
      else if 240 \<le> n \<and> n \<le> 244 then 4 else 0)"

definition tail_ok :: "nat \<Rightarrow> bytes \<Rightarrow> bool" where
  "tail_ok n bs =
     (case bs of
        [] \<Rightarrow> True
      | b1 # cs \<Rightarrow>
          byte_in (if n = 224 then 160 else if n = 240 then 144 else 128)
                  (if n = 237 then 159 else if n = 244 then 143 else 191) b1
          \<and> list_all (byte_in 128 191) cs)"

definition rune_len :: "bytes \<Rightarrow> nat" where
  "rune_len bs =
     (case bs of
        [] \<Rightarrow> 0
      | b0 # r \<Rightarrow>
          (let w = lead_width (of_char b0)
           in if 0 < w \<and> w - 1 \<le> length r \<and> tail_ok (of_char b0) (take (w - 1) r) then w else 0))"

lemma rune_len_Nil [simp]: "rune_len [] = 0"
  by (simp add: rune_len_def)

lemma rune_len_le: "rune_len bs \<le> length bs"
  by (auto simp: rune_len_def Let_def split: list.split)

lemma rune_len_pos: "0 < rune_len bs \<Longrightarrow> bs \<noteq> []"
  by auto

lemma rune_len_ascii: "(of_char b :: nat) < 128 \<Longrightarrow> rune_len (b # r) = 1"
  by (simp add: rune_len_def lead_width_def tail_ok_def)

lemma rune_len_one: "rune_len (b # r) = 1 \<longleftrightarrow> (of_char b :: nat) < 128"
  by (auto simp: rune_len_ascii) (auto simp: rune_len_def lead_width_def Let_def split: if_splits)

lemma rune_len_take: "0 < rune_len bs \<Longrightarrow> rune_len (take (rune_len bs) bs @ t) = rune_len bs"
proof (cases bs)
  case (Cons b r)
  let ?w = "lead_width (of_char b)"
  assume "0 < rune_len bs"
  then have w: "rune_len bs = ?w" "0 < ?w" "?w - 1 \<le> length r" "tail_ok (of_char b) (take (?w - 1) r)"
    by (auto simp: Cons rune_len_def Let_def split: if_splits)
  then show ?thesis by (cases ?w) (auto simp: Cons rune_len_def)
qed simp

lemma rune_len_wide:
  assumes "1 < rune_len bs"
  shows "128 \<le> (of_char (hd bs) :: nat)" and "bs \<noteq> []"
proof -
  show "bs \<noteq> []" using assms by auto
  then show "128 \<le> (of_char (hd bs) :: nat)"
    using assms rune_len_one [of "hd bs" "tl bs"] by (cases bs) (auto simp: not_less [symmetric])
qed

function utf8_valid :: "bytes \<Rightarrow> bool" where
  "utf8_valid bs =
     (if bs = [] then True
      else if rune_len bs = 0 then False
      else utf8_valid (drop (rune_len bs) bs))"
  by pat_completeness auto
termination
  by (relation "measure length") auto

declare utf8_valid.simps [simp del]

text \<open>The three bytes of U+FFFD, the replacement character.\<close>

definition rune_error :: bytes where
  "rune_error = [CHR 0xEF, CHR 0xBF, CHR 0xBD]"

text \<open>
  What a reader of the encoding gets back: every byte that starts no valid encoding is replaced by
  U+FFFD. On valid text nothing changes.
\<close>

function clean_utf8 :: "bytes \<Rightarrow> bytes" where
  "clean_utf8 bs =
     (if bs = [] then []
      else if rune_len bs = 0 then rune_error @ clean_utf8 (tl bs)
      else take (rune_len bs) bs @ clean_utf8 (drop (rune_len bs) bs))"
  by pat_completeness auto
termination
  by (relation "measure length") auto

declare clean_utf8.simps [simp del]

lemma clean_utf8_Nil [simp]: "clean_utf8 [] = []" "utf8_valid []"
  by (simp_all add: clean_utf8.simps utf8_valid.simps)

lemma clean_utf8_id: "utf8_valid bs \<Longrightarrow> clean_utf8 bs = bs"
proof (induction bs rule: clean_utf8.induct)
  case (1 bs)
  then show ?case
    by (cases "bs = []") (auto simp: clean_utf8.simps [of bs] utf8_valid.simps [of bs] split: if_splits)
qed

lemma rune_error_len: "rune_len (rune_error @ t) = 3"
  by (simp add: rune_error_def rune_len_def lead_width_def tail_ok_def)

lemma clean_utf8_valid: "utf8_valid (clean_utf8 bs)"
proof (induction bs rule: clean_utf8.induct)
  case (1 bs)
  consider "bs = []" | "bs \<noteq> []" "rune_len bs = 0" | "bs \<noteq> []" "0 < rune_len bs" by blast
  then show ?case
  proof cases
    case 1
    then show ?thesis by (simp add: clean_utf8.simps utf8_valid.simps)
  next
    case 2
    have "drop 3 (rune_error @ clean_utf8 (tl bs)) = clean_utf8 (tl bs)" and ne: "rune_error @ clean_utf8 (tl bs) \<noteq> []"
      by (simp_all add: rune_error_def)
    then have "utf8_valid (rune_error @ clean_utf8 (tl bs)) = utf8_valid (clean_utf8 (tl bs))"
      by (subst utf8_valid.simps) (simp only: rune_error_len ne, simp)
    then show ?thesis using 2 "1.IH"(1) by (simp add: clean_utf8.simps [of bs])
  next
    case 3
    have "length (take (rune_len bs) bs) = rune_len bs" using rune_len_le [of bs] by simp
    with 3 show ?thesis
      using "1.IH"(2) rune_len_take [of bs "clean_utf8 (drop (rune_len bs) bs)"]
      by (simp add: clean_utf8.simps [of bs] utf8_valid.simps [of "take _ _ @ _"])
  qed
qed

text \<open>\<^verbatim>\<open>utf8.AppendRune\<close> on a code point below 2^16 that is no surrogate, and above.\<close>

definition utf8_encode :: "nat \<Rightarrow> bytes" where
  "utf8_encode r =
     (if r < 0x80 then [char_of r]
      else if r < 0x800 then [char_of (0xC0 + r div 64), char_of (0x80 + r mod 64)]
      else if 0xD800 \<le> r \<and> r < 0xE000 then rune_error
      else if r < 0x10000 then
        [char_of (0xE0 + r div 4096), char_of (0x80 + r div 64 mod 64), char_of (0x80 + r mod 64)]
      else if r < 0x110000 then
        [char_of (0xF0 + r div 262144), char_of (0x80 + r div 4096 mod 64),
         char_of (0x80 + r div 64 mod 64), char_of (0x80 + r mod 64)]
      else rune_error)"

subsection \<open>Encoding strings and byte slices\<close>

definition hex_char :: "nat \<Rightarrow> char" where
  "hex_char d = (if d < 10 then char_of (48 + d) else char_of (87 + d))"

definition u_escape :: "nat \<Rightarrow> string" where
  "u_escape r = [CHR 0x5C, CHR ''u'', hex_char (r div 4096 mod 16), hex_char (r div 256 mod 16),
                 hex_char (r div 16 mod 16), hex_char (r mod 16)]"

definition esc_ascii :: "char \<Rightarrow> string" where
  "esc_ascii c =
     (let n = (of_char c :: nat)
      in if n = 0x22 \<or> n = 0x5C then [CHR 0x5C, c]
         else if n = 0x08 then [CHR 0x5C, CHR ''b'']
         else if n = 0x0C then [CHR 0x5C, CHR ''f'']
         else if n = 0x0A then [CHR 0x5C, CHR ''n'']
         else if n = 0x0D then [CHR 0x5C, CHR ''r'']
         else if n = 0x09 then [CHR 0x5C, CHR ''t'']
         else if n < 0x20 \<or> n = 0x3C \<or> n = 0x3E \<or> n = 0x26 then u_escape n
         else [c])"

definition esc_wide :: "bytes \<Rightarrow> string" where
  "esc_wide ch =
     (if ch = [CHR 0xE2, CHR 0x80, CHR 0xA8] then u_escape 0x2028
      else if ch = [CHR 0xE2, CHR 0x80, CHR 0xA9] then u_escape 0x2029
      else ch)"

function json_body :: "bytes \<Rightarrow> string" where
  "json_body bs =
     (if bs = [] then []
      else if rune_len bs = 0 then [CHR 0x5C, CHR ''u'', CHR ''f'', CHR ''f'', CHR ''f'', CHR ''d''] @ json_body (tl bs)
      else if rune_len bs = 1 then esc_ascii (hd bs) @ json_body (tl bs)
      else esc_wide (take (rune_len bs) bs) @ json_body (drop (rune_len bs) bs))"
  by pat_completeness auto
termination
  by (relation "measure length") auto

declare json_body.simps [simp del]

definition json_string :: "bytes \<Rightarrow> string" where
  "json_string bs = [CHR 0x22] @ json_body bs @ [CHR 0x22]"

definition b64_char :: "nat \<Rightarrow> char" where
  "b64_char d =
     (if d < 26 then char_of (65 + d) else if d < 52 then char_of (71 + d)
      else if d < 62 then char_of (d - 4) else if d = 62 then CHR ''+'' else CHR ''/'')"

fun b64_encode :: "bytes \<Rightarrow> string" where
  "b64_encode [] = []"
| "b64_encode [a] =
     (let x = (of_char a :: nat) in [b64_char (x div 4), b64_char (x mod 4 * 16), CHR ''='', CHR ''=''])"
| "b64_encode [a, b] =
     (let x = (of_char a :: nat); y = (of_char b :: nat)
      in [b64_char (x div 4), b64_char (x mod 4 * 16 + y div 16), b64_char (y mod 16 * 4), CHR ''=''])"
| "b64_encode (a # b # c # r) =
     (let x = (of_char a :: nat); y = (of_char b :: nat); z = (of_char c :: nat)
      in [b64_char (x div 4), b64_char (x mod 4 * 16 + y div 16), b64_char (y mod 16 * 4 + z div 64),
          b64_char (z mod 64)] @ b64_encode r)"

definition b64_val :: "char \<Rightarrow> nat option" where
  "b64_val c =
     (if byte_in 65 90 c then Some (of_char c - 65) else if byte_in 97 122 c then Some (of_char c - 71)
      else if byte_in 48 57 c then Some (of_char c + 4)
      else if c = CHR ''+'' then Some 62 else if c = CHR ''/'' then Some 63 else None)"

text \<open>
  \<^verbatim>\<open>base64.StdEncoding.Decode\<close>: carriage returns and newlines are skipped, padding is required,
  the unused bits of the last quantum are ignored.
\<close>

fun b64_quads :: "string \<Rightarrow> bytes option" where
  "b64_quads [] = Some []"
| "b64_quads (a # b # c # d # r) =
     (case (b64_val a, b64_val b) of
        (Some p, Some q) \<Rightarrow>
          (if c = CHR ''='' \<and> d = CHR ''='' \<and> r = [] then Some [char_of (p * 4 + q div 16)]
           else (case b64_val c of
                   None \<Rightarrow> None
                 | Some s \<Rightarrow>
                     if d = CHR ''='' \<and> r = []
                     then Some [char_of (p * 4 + q div 16), char_of (q mod 16 * 16 + s div 4)]
                     else (case (b64_val d, b64_quads r) of
                             (Some t, Some out) \<Rightarrow>
                               Some (char_of (p * 4 + q div 16) # char_of (q mod 16 * 16 + s div 4)
                                     # char_of (s mod 4 * 64 + t) # out)
                           | _ \<Rightarrow> None)))
      | _ \<Rightarrow> None)"
| "b64_quads _ = None"

definition b64_decode :: "string \<Rightarrow> bytes option" where
  "b64_decode s = b64_quads (filter (\<lambda>c. c \<noteq> CHR 0x0A \<and> c \<noteq> CHR 0x0D) s)"

subsection \<open>JSON values and their printing\<close>

datatype json =
    JNull
  | JBool bool
  | JNum string
  | JStr bytes
  | JArr "json list"
  | JObj "(bytes \<times> json) list"

fun print_json :: "json \<Rightarrow> string"
  and print_elems :: "json list \<Rightarrow> string"
  and print_members :: "(bytes \<times> json) list \<Rightarrow> string" where
  "print_json JNull = ''null''"
| "print_json (JBool b) = (if b then ''true'' else ''false'')"
| "print_json (JNum s) = s"
| "print_json (JStr s) = json_string s"
| "print_json (JArr js) = ''['' @ (case js of [] \<Rightarrow> '']'' | j # r \<Rightarrow> print_json j @ print_elems r)"
| "print_json (JObj ms) = ''{'' @
     (case ms of [] \<Rightarrow> ''}'' | (k, j) # r \<Rightarrow> json_string k @ '':'' @ print_json j @ print_members r)"
| "print_elems [] = '']''"
| "print_elems (j # js) = '','' @ print_json j @ print_elems js"
| "print_members [] = ''}''"
| "print_members ((k, j) # ms) = '','' @ json_string k @ '':'' @ print_json j @ print_members ms"

subsection \<open>Parsing\<close>

definition is_ws :: "char \<Rightarrow> bool" where
  "is_ws c \<longleftrightarrow> c = CHR '' '' \<or> c = CHR 0x09 \<or> c = CHR 0x0A \<or> c = CHR 0x0D"

abbreviation skip_ws :: "bytes \<Rightarrow> bytes" where
  "skip_ws \<equiv> dropWhile is_ws"

definition hex_val :: "char \<Rightarrow> nat option" where
  "hex_val c =
     (if byte_in 48 57 c then Some (of_char c - 48)
      else if byte_in 97 102 c then Some (of_char c - 87)
      else if byte_in 65 70 c then Some (of_char c - 55) else None)"

definition hex4 :: "bytes \<Rightarrow> (nat \<times> bytes) option" where
  "hex4 bs =
     (case bs of
        a # b # c # d # r \<Rightarrow>
          (case (hex_val a, hex_val b, hex_val c, hex_val d) of
             (Some w, Some x, Some y, Some z) \<Rightarrow> Some (((w * 16 + x) * 16 + y) * 16 + z, r)
           | _ \<Rightarrow> None)
      | _ \<Rightarrow> None)"

lemma hex4_length: "hex4 bs = Some (v, r) \<Longrightarrow> length r < length bs"
  by (auto simp: hex4_def split: list.splits option.splits)

text \<open>The low half of a surrogate pair, if the text goes on with one.\<close>

definition low_surrogate :: "bytes \<Rightarrow> (nat \<times> bytes) option" where
  "low_surrogate bs =
     (case bs of
        b # u # r \<Rightarrow>
          if b = CHR 0x5C \<and> u = CHR ''u'' then
            (case hex4 r of
               Some (v, r') \<Rightarrow> if 0xDC00 \<le> v \<and> v < 0xE000 then Some (v, r') else None
             | None \<Rightarrow> None)
          else None
      | _ \<Rightarrow> None)"

lemma low_surrogate_length: "low_surrogate bs = Some (v, r) \<Longrightarrow> length r < length bs"
  by (auto simp: low_surrogate_def split: list.splits option.splits if_splits dest!: hex4_length)

definition simple_escape :: "char \<Rightarrow> char option" where
  "simple_escape e =
     (if e = CHR 0x22 \<or> e = CHR 0x5C \<or> e = CHR ''/'' then Some e
      else if e = CHR ''b'' then Some (CHR 0x08) else if e = CHR ''f'' then Some (CHR 0x0C)
      else if e = CHR ''n'' then Some (CHR 0x0A) else if e = CHR ''r'' then Some (CHR 0x0D)
      else if e = CHR ''t'' then Some (CHR 0x09) else None)"

text \<open>
  One unit of a string literal after its opening quote: the bytes it stands for and the rest, or
  \<open>None\<close> for a syntax error.
\<close>

definition str_unit :: "bytes \<Rightarrow> (bytes \<times> bytes) option" where
  "str_unit bs =
     (case bs of
        [] \<Rightarrow> None
      | c # r \<Rightarrow>
          if c = CHR 0x5C then
            (case r of
               [] \<Rightarrow> None
             | e # r' \<Rightarrow>
                 if e = CHR ''u'' then
                   (case hex4 r' of
                      None \<Rightarrow> None
                    | Some (v, r'') \<Rightarrow>
                        if 0xD800 \<le> v \<and> v < 0xDC00 then
                          (case low_surrogate r'' of
                             Some (w, r3) \<Rightarrow>
                               Some (utf8_encode (0x10000 + (v - 0xD800) * 1024 + (w - 0xDC00)), r3)
                           | None \<Rightarrow> Some (rune_error, r''))
                        else Some (utf8_encode v, r''))
                 else (case simple_escape e of None \<Rightarrow> None | Some x \<Rightarrow> Some ([x], r')))
          else if (of_char c :: nat) < 0x20 then None
          else if rune_len bs = 0 then Some (rune_error, r)
          else Some (take (rune_len bs) bs, drop (rune_len bs) bs))"

lemma str_unit_length: "str_unit bs = Some (u, r) \<Longrightarrow> length r < length bs"
  by (auto simp: str_unit_def split: list.splits option.splits if_splits
      dest!: hex4_length low_surrogate_length)

function parse_str :: "bytes \<Rightarrow> (bytes \<times> bytes) option" where
  "parse_str bs =
     (if bs \<noteq> [] \<and> hd bs = CHR 0x22 then Some ([], tl bs)
      else (case str_unit bs of
              None \<Rightarrow> None
            | Some (u, r) \<Rightarrow>
                (case parse_str r of None \<Rightarrow> None | Some (s, r') \<Rightarrow> Some (u @ s, r'))))"
  by pat_completeness auto
termination
  by (relation "measure length") (auto dest: str_unit_length)

declare parse_str.simps [simp del]

text \<open>Number literals: sign, integer part, fraction, exponent.\<close>

definition take_digits :: "bytes \<Rightarrow> bytes \<times> bytes" where
  "take_digits bs = (takeWhile is_digit bs, dropWhile is_digit bs)"

definition num_int :: "bytes \<Rightarrow> (bytes \<times> bytes) option" where
  "num_int bs =
     (case bs of
        [] \<Rightarrow> None
      | c # r \<Rightarrow> if c = CHR ''0'' then Some ([c], r)
                 else if is_digit c then Some (take_digits bs) else None)"

definition num_frac :: "bytes \<Rightarrow> (bytes \<times> bytes) option" where
  "num_frac bs =
     (case bs of
        [] \<Rightarrow> Some ([], [])
      | c # r \<Rightarrow> if c = CHR ''.'' then
                   (let (ds, r') = take_digits r in if ds = [] then None else Some (c # ds, r'))
                 else Some ([], bs))"

definition num_exp :: "bytes \<Rightarrow> (bytes \<times> bytes) option" where
  "num_exp bs =
     (case bs of
        [] \<Rightarrow> Some ([], [])
      | c # r \<Rightarrow> if c = CHR ''e'' \<or> c = CHR ''E'' then
                   (let (sg, r1) = (case r of
                                      [] \<Rightarrow> ([], [])
                                    | s # r' \<Rightarrow> if s = CHR ''+'' \<or> s = CHR ''-'' then ([s], r') else ([], r));
                        (ds, r2) = take_digits r1
                    in if ds = [] then None else Some (c # sg @ ds, r2))
                 else Some ([], bs))"

definition parse_num :: "bytes \<Rightarrow> (bytes \<times> bytes) option" where
  "parse_num bs =
     (let (sg, r0) = (case bs of [] \<Rightarrow> ([], []) | c # r \<Rightarrow> if c = CHR ''-'' then ([c], r) else ([], bs))
      in case num_int r0 of
           None \<Rightarrow> None
         | Some (i, r1) \<Rightarrow>
             (case num_frac r1 of
                None \<Rightarrow> None
              | Some (f, r2) \<Rightarrow>
                  (case num_exp r2 of None \<Rightarrow> None | Some (e, r3) \<Rightarrow> Some (sg @ i @ f @ e, r3))))"

definition strip_lit :: "bytes \<Rightarrow> bytes \<Rightarrow> bytes option" where
  "strip_lit lit bs = (if take (length lit) bs = lit then Some (drop (length lit) bs) else None)"

text \<open>Strings, literals and numbers; then the bodies of objects and arrays over their parts' parsers.\<close>

definition parse_atom :: "bytes \<Rightarrow> (json \<times> bytes) option" where
  "parse_atom bs =
     (case bs of
        [] \<Rightarrow> None
      | c # r \<Rightarrow>
          if c = CHR 0x22 then (case parse_str r of None \<Rightarrow> None | Some (s, r') \<Rightarrow> Some (JStr s, r'))
          else if c = CHR ''t'' then map_option (Pair (JBool True)) (strip_lit ''true'' bs)
          else if c = CHR ''f'' then map_option (Pair (JBool False)) (strip_lit ''false'' bs)
          else if c = CHR ''n'' then map_option (Pair JNull) (strip_lit ''null'' bs)
          else (case parse_num bs of None \<Rightarrow> None | Some (s, r') \<Rightarrow> Some (JNum s, r')))"

definition seq_body ::
  "char \<Rightarrow> (bytes \<Rightarrow> ('a \<times> bytes) option) \<Rightarrow> (bytes \<Rightarrow> ('a list \<times> bytes) option) \<Rightarrow> bytes
   \<Rightarrow> ('a list \<times> bytes) option" where
  "seq_body close item more r =
     (case skip_ws r of
        [] \<Rightarrow> None
      | d # r' \<Rightarrow>
          if d = close then Some ([], r')
          else (case item (d # r') of
                  None \<Rightarrow> None
                | Some (x, r1) \<Rightarrow> (case more r1 of None \<Rightarrow> None | Some (xs, r2) \<Rightarrow> Some (x # xs, r2))))"

definition seq_more ::
  "char \<Rightarrow> (bytes \<Rightarrow> ('a \<times> bytes) option) \<Rightarrow> (bytes \<Rightarrow> ('a list \<times> bytes) option) \<Rightarrow> bytes
   \<Rightarrow> ('a list \<times> bytes) option" where
  "seq_more close item more bs =
     (case skip_ws bs of
        [] \<Rightarrow> None
      | c # r \<Rightarrow>
          if c = close then Some ([], r)
          else if c = CHR '','' then
            (case item r of
               None \<Rightarrow> None
             | Some (x, r1) \<Rightarrow> (case more r1 of None \<Rightarrow> None | Some (xs, r2) \<Rightarrow> Some (x # xs, r2)))
          else None)"

definition pair_body ::
  "(bytes \<Rightarrow> (json \<times> bytes) option) \<Rightarrow> bytes \<Rightarrow> ((bytes \<times> json) \<times> bytes) option" where
  "pair_body val bs =
     (case skip_ws bs of
        [] \<Rightarrow> None
      | c # r \<Rightarrow>
          if c = CHR 0x22 then
            (case parse_str r of
               None \<Rightarrow> None
             | Some (k, r1) \<Rightarrow>
                 (case skip_ws r1 of
                    [] \<Rightarrow> None
                  | d # r2 \<Rightarrow>
                      if d = CHR '':'' then
                        (case val r2 of None \<Rightarrow> None | Some (j, r3) \<Rightarrow> Some ((k, j), r3))
                      else None))
          else None)"

definition val_body ::
  "(bytes \<Rightarrow> ((bytes \<times> json) list \<times> bytes) option) \<Rightarrow> (bytes \<Rightarrow> (json list \<times> bytes) option) \<Rightarrow> bytes
   \<Rightarrow> (json \<times> bytes) option" where
  "val_body obj arr bs =
     (case skip_ws bs of
        [] \<Rightarrow> None
      | c # r \<Rightarrow>
          if c = CHR ''{'' then map_option (\<lambda>(ms, r'). (JObj ms, r')) (obj r)
          else if c = CHR ''['' then map_option (\<lambda>(js, r'). (JArr js, r')) (arr r)
          else parse_atom (c # r))"

fun parse_val :: "nat \<Rightarrow> bytes \<Rightarrow> (json \<times> bytes) option"
  and parse_elems :: "nat \<Rightarrow> bytes \<Rightarrow> (json list \<times> bytes) option"
  and parse_pair :: "nat \<Rightarrow> bytes \<Rightarrow> ((bytes \<times> json) \<times> bytes) option"
  and parse_members :: "nat \<Rightarrow> bytes \<Rightarrow> ((bytes \<times> json) list \<times> bytes) option" where
  "parse_val 0 bs = None"
| "parse_val (Suc n) bs =
     val_body (seq_body (CHR ''}'') (parse_pair n) (parse_members n))
              (seq_body (CHR '']'') (parse_val n) (parse_elems n)) bs"
| "parse_elems 0 bs = None"
| "parse_elems (Suc n) bs = seq_more (CHR '']'') (parse_val n) (parse_elems n) bs"
| "parse_pair 0 bs = None"
| "parse_pair (Suc n) bs = pair_body (parse_val n) bs"
| "parse_members 0 bs = None"
| "parse_members (Suc n) bs = seq_more (CHR ''}'') (parse_pair n) (parse_members n) bs"

lemmas body_defs = val_body_def seq_body_def seq_more_def pair_body_def parse_atom_def

text \<open>
  A whole text: one value with nothing but space around it. Every call hands a strictly shorter
  text to the calls below it, so one unit of fuel more than the length is never used up
  (\<open>parse_fuel\<close> below).
\<close>

definition parse_json :: "bytes \<Rightarrow> json option" where
  "parse_json bs =
     (case parse_val (Suc (length bs)) bs of
        None \<Rightarrow> None
      | Some (j, r) \<Rightarrow> if skip_ws r = [] then Some j else None)"

subsection \<open>Strings survive the round trip\<close>

lemma char_eq_of_char: "c = d \<longleftrightarrow> (of_char c :: nat) = of_char d"
  by (metis of_char_eq_iff)

lemma hex_val_char: "d < 16 \<Longrightarrow> hex_val (hex_char d) = Some d"
  by (auto simp: hex_val_def hex_char_def)

lemma hex4_u_escape: "r < 65536 \<Longrightarrow> hex4 (drop 2 (u_escape r) @ t) = Some (r, t)"
proof -
  assume r: "r < 65536"
  have d: "r div 256 div 16 = r div 4096" "r div 16 div 16 = r div 256"
    by (simp_all flip: div_mult2_eq)
  have "r div 4096 mod 16 = r div 4096" using r by simp
  moreover have "r div 256 = 16 * (r div 4096) + r div 256 mod 16"
    using mult_div_mod_eq [of 16 "r div 256"] by (simp add: d)
  moreover have "r div 16 = 16 * (r div 256) + r div 16 mod 16"
    using mult_div_mod_eq [of 16 "r div 16"] by (simp add: d)
  moreover have "r = 16 * (r div 16) + r mod 16" by simp
  moreover have "((w * 16 + x) * 16 + y) * 16 + z = r"
    if "w = a" "b = 16 * a + x" "c = 16 * b + y" "r = 16 * c + z" for a b c w x y z
    using that by simp
  ultimately have "((r div 4096 mod 16 * 16 + r div 256 mod 16) * 16 + r div 16 mod 16) * 16 + r mod 16 = r"
    by blast
  then show ?thesis using r by (simp add: hex4_def u_escape_def hex_val_char)
qed

lemma u_escape_split: "u_escape r @ t = CHR 0x5C # CHR ''u'' # (drop 2 (u_escape r) @ t)"
  by (simp add: u_escape_def)

lemma str_unit_u:
  "r < 0xD800 \<Longrightarrow> str_unit (u_escape r @ t) = Some (utf8_encode r, t)"
  by (simp only: u_escape_split) (simp add: str_unit_def hex4_u_escape)

lemma str_unit_raw:
  "c \<noteq> CHR 0x5C \<Longrightarrow> \<not> (of_char c :: nat) < 0x20 \<Longrightarrow> 0 < rune_len (c # r) \<Longrightarrow>
     str_unit (c # r) = Some (take (rune_len (c # r)) (c # r), drop (rune_len (c # r)) (c # r))"
  by (simp add: str_unit_def)

lemma str_unit_esc_ascii:
  assumes "(of_char c :: nat) < 128"
  shows "str_unit (esc_ascii c @ t) = Some ([c], t)" and "hd (esc_ascii c @ t) \<noteq> CHR 0x22"
    and "esc_ascii c \<noteq> []"
proof -
  have c: "c = char_of (of_char c :: nat)" by simp
  have u: "str_unit (u_escape (of_char c) @ t) = Some ([c], t)" if "(of_char c :: nat) < 128"
    using that str_unit_u [of "of_char c" t] by (simp add: utf8_encode_def)
  have plain_unit: "str_unit (c # t) = Some ([c], t)"
    if "\<not> (of_char c :: nat) < 32" "c \<noteq> CHR 0x5C"
    using that assms by (simp add: str_unit_def rune_len_ascii)
  have eqs: "c = CHR 0x22 \<longleftrightarrow> (of_char c :: nat) = 0x22" "c = CHR 0x5C \<longleftrightarrow> (of_char c :: nat) = 0x5C"
    by (simp_all add: char_eq_of_char)
  consider (quote) "(of_char c :: nat) = 0x22 \<or> (of_char c :: nat) = 0x5C"
    | (ctrl) "(of_char c :: nat) \<in> {0x08, 0x09, 0x0A, 0x0C, 0x0D}"
    | (hex) "(of_char c :: nat) < 0x20 \<or> (of_char c :: nat) = 0x3C \<or> (of_char c :: nat) = 0x3E
        \<or> (of_char c :: nat) = 0x26" "(of_char c :: nat) \<notin> {0x08, 0x09, 0x0A, 0x0C, 0x0D}"
    | (plain) "\<not> (of_char c :: nat) < 0x20" "(of_char c :: nat) \<notin> {0x22, 0x5C, 0x3C, 0x3E, 0x26}"
    by auto
  then show "str_unit (esc_ascii c @ t) = Some ([c], t)"
  proof cases
    case quote
    then show ?thesis
      using eqs by (auto simp: esc_ascii_def str_unit_def simple_escape_def)
  next
    case ctrl
    then have "c \<in> {CHR 0x08, CHR 0x09, CHR 0x0A, CHR 0x0C, CHR 0x0D}"
      by (auto simp: char_eq_of_char)
    then show ?thesis by (auto simp: esc_ascii_def str_unit_def simple_escape_def)
  next
    case hex
    then have "esc_ascii c = u_escape (of_char c)" by (auto simp: esc_ascii_def Let_def)
    then show ?thesis using u assms by simp
  next
    case plain
    then have "esc_ascii c = [c]" by (simp add: esc_ascii_def Let_def)
    then show ?thesis using plain eqs plain_unit by simp
  qed
  show "hd (esc_ascii c @ t) \<noteq> CHR 0x22" and "esc_ascii c \<noteq> []"
    using eqs by (auto simp: esc_ascii_def Let_def u_escape_def)
qed

lemma str_unit_esc_wide:
  assumes "1 < rune_len bs"
  shows "str_unit (esc_wide (take (rune_len bs) bs) @ t) = Some (take (rune_len bs) bs, t)"
    and "hd (esc_wide (take (rune_len bs) bs) @ t) \<noteq> CHR 0x22"
    and "esc_wide (take (rune_len bs) bs) \<noteq> []"
proof -
  let ?ch = "take (rune_len bs) bs"
  obtain b r where bs: "bs = b # r" using rune_len_wide [OF assms] by (cases bs) auto
  have b: "128 \<le> (of_char b :: nat)" using rune_len_wide [OF assms] bs by simp
  then have ne: "b \<noteq> CHR 0x22" "b \<noteq> CHR 0x5C" by (auto simp: char_eq_of_char)
  have ch: "\<exists>r'. ?ch = b # r'" using assms bs by (cases "rune_len bs") auto
  have len: "length ?ch = rune_len bs" using rune_len_le [of bs] by simp
  have raw: "str_unit (?ch @ t) = Some (?ch, t)"
  proof -
    obtain r' where r': "?ch @ t = b # r'" using ch by auto
    have w: "rune_len (?ch @ t) = rune_len bs" using assms by (intro rune_len_take) simp
    have "str_unit (?ch @ t) = Some (take (rune_len bs) (?ch @ t), drop (rune_len bs) (?ch @ t))"
      using str_unit_raw [of b r'] ne b w assms by (simp add: r')
    then show ?thesis by (metis append_eq_conv_conj len)
  qed
  show "str_unit (esc_wide ?ch @ t) = Some (?ch, t)"
    using raw by (simp add: esc_wide_def str_unit_u utf8_encode_def char_eq_of_char)
  show "hd (esc_wide ?ch @ t) \<noteq> CHR 0x22"
    using ch ne by (auto simp: esc_wide_def u_escape_def)
  show "esc_wide ?ch \<noteq> []"
    using ch assms by (auto simp: esc_wide_def u_escape_def)
qed

lemma parse_str_step:
  assumes "str_unit (e @ t) = Some (u, t)" and "hd (e @ t) \<noteq> CHR 0x22"
  shows "parse_str (e @ t) = (case parse_str t of None \<Rightarrow> None | Some (s, r) \<Rightarrow> Some (u @ s, r))"
  using assms by (subst parse_str.simps) simp

lemma str_unit_replacement:
  "str_unit ([CHR 0x5C, CHR ''u'', CHR ''f'', CHR ''f'', CHR ''f'', CHR ''d''] @ t) = Some (rune_error, t)"
proof -
  have u: "u_escape 0xFFFD = [CHR 0x5C, CHR ''u'', CHR ''f'', CHR ''f'', CHR ''f'', CHR ''d'']"
    by (simp add: u_escape_def hex_char_def char_eq_of_char)
  have "hex4 (drop 2 (u_escape 0xFFFD) @ t) = Some (0xFFFD, t)" by (rule hex4_u_escape) simp
  then show ?thesis
    unfolding u [symmetric] u_escape_split
    by (simp add: str_unit_def utf8_encode_def rune_error_def char_eq_of_char)
qed

theorem parse_str_body: "parse_str (json_body s @ CHR 0x22 # t) = Some (clean_utf8 s, t)"
proof (induction s rule: json_body.induct)
  case (1 bs)
  consider (nil) "bs = []" | (bad) "bs \<noteq> []" "rune_len bs = 0"
    | (ascii) "bs \<noteq> []" "rune_len bs = 1" | (wide) "bs \<noteq> []" "1 < rune_len bs" by linarith
  then show ?case
  proof cases
    case nil
    then show ?thesis
      by (simp add: json_body.simps [of "[]"] clean_utf8.simps [of "[]"] parse_str.simps [of "CHR 0x22 # t"])
  next
    case bad
    with parse_str_step [OF str_unit_replacement, of "json_body (tl bs) @ CHR 0x22 # t"] "1.IH"(1) [OF bad]
    show ?thesis by (simp add: json_body.simps [of bs] clean_utf8.simps [of bs])
  next
    case ascii
    obtain b r where bs: "bs = b # r" using ascii by (cases bs) auto
    have a: "(of_char b :: nat) < 128" using ascii bs by (simp only: rune_len_one)
    note st = parse_str_step [OF str_unit_esc_ascii(1,2) [OF a], of "json_body r @ CHR 0x22 # t"]
    show ?thesis using st "1.IH"(2) ascii bs
      by (simp add: json_body.simps [of "b # r"] clean_utf8.simps [of "b # r"])
  next
    case wide
    note st = parse_str_step [OF str_unit_esc_wide(1,2) [OF wide(2)],
        of "json_body (drop (rune_len bs) bs) @ CHR 0x22 # t"]
    show ?thesis using st "1.IH"(3) wide by (simp add: json_body.simps [of bs] clean_utf8.simps [of bs])
  qed
qed

subsection \<open>Byte slices survive the round trip\<close>

lemma b64_val_char: "d < 64 \<Longrightarrow> b64_val (b64_char d) = Some d"
  by (auto simp: b64_val_def b64_char_def)

lemma b64_char_plain:
  "b64_char d \<noteq> CHR ''='' \<and> b64_char d \<noteq> CHR 0x0A \<and> b64_char d \<noteq> CHR 0x0D
     \<and> (of_char (b64_char d) :: nat) < 128"
  by (auto simp: b64_char_def char_eq_of_char)

lemma byte_less: "(of_char c :: nat) < 256"
  by simp

lemma b64_quads_encode: "b64_quads (b64_encode bs) = Some bs"
proof (induction bs rule: b64_encode.induct)
  case 1
  then show ?case by simp
next
  case (2 a)
  have "(of_char a :: nat) div 4 < 64" using byte_less [of a] by linarith
  then show ?case by (simp add: Let_def b64_val_char)
next
  case (3 a b)
  have "(of_char a :: nat) div 4 < 64" "(of_char b :: nat) div 16 < 16"
    using byte_less [of a] byte_less [of b] by linarith+
  moreover from this have "(of_char a :: nat) mod 4 * 16 + of_char b div 16 < 64"
    using mod_less_divisor [of 4 "of_char a :: nat"] by linarith
  moreover have "(of_char b :: nat) mod 16 * 4 < 64"
    using mod_less_divisor [of 16 "of_char b :: nat"] by linarith
  ultimately show ?case by (simp add: Let_def b64_val_char b64_char_plain)
next
  case (4 a b c r)
  have "(of_char a :: nat) div 4 < 64" "(of_char b :: nat) div 16 < 16" "(of_char c :: nat) div 64 < 4"
    using byte_less [of a] byte_less [of b] byte_less [of c] by linarith+
  moreover from this have "(of_char a :: nat) mod 4 * 16 + of_char b div 16 < 64"
    using mod_less_divisor [of 4 "of_char a :: nat"] by linarith
  moreover have "(of_char b :: nat) mod 16 * 4 + of_char c div 64 < 64"
    using mod_less_divisor [of 16 "of_char b :: nat"] calculation(3) by linarith
  moreover have "(of_char c :: nat) mod 64 < 64" by simp
  ultimately show ?case using 4 by (simp add: Let_def b64_val_char b64_char_plain)
qed

lemma b64_encode_plain:
  "c \<in> set (b64_encode bs) \<Longrightarrow> c \<noteq> CHR 0x0A \<and> c \<noteq> CHR 0x0D \<and> (of_char c :: nat) < 128"
  by (induction bs rule: b64_encode.induct)
    (auto simp: Let_def b64_char_plain)

lemma b64_round: "b64_decode (b64_encode bs) = Some bs"
proof -
  have "filter (\<lambda>c. c \<noteq> CHR 0x0A \<and> c \<noteq> CHR 0x0D) (b64_encode bs) = b64_encode bs"
    using b64_encode_plain by (simp add: filter_id_conv)
  then show ?thesis by (simp add: b64_decode_def b64_quads_encode)
qed

lemma utf8_valid_ascii: "\<forall>c \<in> set s. (of_char c :: nat) < 128 \<Longrightarrow> utf8_valid s"
proof (induction s)
  case Nil
  then show ?case by (simp add: utf8_valid.simps)
next
  case (Cons c s)
  then show ?case by (simp add: utf8_valid.simps [of "c # s"] rune_len_ascii)
qed

subsection \<open>Numbers survive the round trip\<close>

definition num_end :: "bytes \<Rightarrow> bool" where
  "num_end r \<longleftrightarrow> r \<noteq> [] \<and> (hd r = CHR '','' \<or> hd r = CHR ''}'' \<or> hd r = CHR '']'')"

lemma num_end_cases:
  assumes "num_end r"
  obtains c t where "r = c # t" and "c = CHR '','' \<or> c = CHR ''}'' \<or> c = CHR '']''"
  using assms by (cases r) (auto simp: num_end_def)

lemma show_nat_hd: "0 < n \<Longrightarrow> hd (show_nat n) \<noteq> CHR ''0''"
proof (induction n rule: show_nat.induct)
  case (1 n)
  show ?case
  proof (cases "n < 10")
    case True
    with "1.prems" show ?thesis
      by (simp add: show_nat.simps [of n] digit_char_def char_eq_of_char)
  next
    case False
    then have "0 < n div 10" by simp
    with 1 False show ?thesis by (simp add: show_nat.simps [of n])
  qed
qed

lemma show_nat_zero [simp]: "show_nat 0 = ''0''"
  by (simp add: show_nat.simps digit_char_def char_eq_of_char)

lemma num_tail: "num_end r \<Longrightarrow> num_frac r = Some ([], r) \<and> num_exp r = Some ([], r)"
  by (auto elim!: num_end_cases simp: num_frac_def num_exp_def)

lemma num_int_show_nat:
  assumes "num_end r"
  shows "num_int (show_nat n @ r) = Some (show_nat n, r)"
proof (cases "n = 0")
  case True
  then show ?thesis by (simp add: num_int_def)
next
  case False
  obtain c t where s: "show_nat n = c # t" by (cases "show_nat n") simp_all
  have "c \<noteq> CHR ''0''" using show_nat_hd [of n] False s by simp
  moreover have d: "\<forall>x \<in> set (show_nat n). is_digit x" by (rule show_nat_digits)
  moreover have "takeWhile is_digit (show_nat n @ r) = show_nat n \<and> dropWhile is_digit (show_nat n @ r) = r"
  proof -
    have "takeWhile is_digit r = []" "dropWhile is_digit r = r"
      using assms by (auto elim!: num_end_cases simp: is_digit_def)
    with d show ?thesis by simp
  qed
  ultimately show ?thesis using s by (simp add: num_int_def take_digits_def)
qed

lemma parse_num_show_int:
  assumes "num_end r"
  shows "parse_num (show_int i @ r) = Some (show_int i, r)"
proof -
  obtain c t where s: "show_nat (nat i) = c # t" by (cases "show_nat (nat i)") simp_all
  have "is_digit c" using show_nat_digits [of "nat i"] s by simp
  then have "c \<noteq> CHR ''-''" by (auto simp: is_digit_def)
  moreover have "num_int (show_nat (nat i) @ r) = Some (show_nat (nat i), r)"
    "num_int (show_nat (nat (- i)) @ r) = Some (show_nat (nat (- i)), r)"
    using assms by (rule num_int_show_nat)+
  ultimately show ?thesis
    using num_tail [OF assms] s by (cases "i < 0") (simp_all add: parse_num_def show_int_def)
qed

lemma show_int_start:
  "\<exists>c t. show_int i = c # t \<and> \<not> is_ws c
     \<and> c \<notin> {CHR ''{'', CHR ''['', CHR 0x22, CHR ''t'', CHR ''f'', CHR ''n'', CHR ''}'', CHR '']''}"
proof (cases "i < 0")
  case True
  then show ?thesis by (simp add: show_int_def is_ws_def)
next
  case False
  obtain c t where s: "show_nat (nat i) = c # t" by (cases "show_nat (nat i)") simp_all
  have "is_digit c" using show_nat_digits [of "nat i"] s by simp
  with s False show ?thesis by (auto simp: show_int_def is_digit_def is_ws_def)
qed

subsection \<open>Values survive the round trip\<close>

text \<open>Numbers are decimal, as the program prints them, and strings and keys are valid text.\<close>

fun nums_ok :: "json \<Rightarrow> bool" where
  "nums_ok (JNum s) = (\<exists>i. s = show_int i)"
| "nums_ok (JArr js) = (\<forall>j \<in> set js. nums_ok j)"
| "nums_ok (JObj ms) = (\<forall>(k, j) \<in> set ms. nums_ok j)"
| "nums_ok _ = True"

fun wf_json :: "json \<Rightarrow> bool" where
  "wf_json JNull = True"
| "wf_json (JBool b) = True"
| "wf_json (JNum s) = (\<exists>i. s = show_int i)"
| "wf_json (JStr s) = utf8_valid s"
| "wf_json (JArr js) = (\<forall>j \<in> set js. wf_json j)"
| "wf_json (JObj ms) = (\<forall>(k, j) \<in> set ms. utf8_valid k \<and> wf_json j)"

text \<open>A value with its strings and keys as a reader gets them back.\<close>

fun clean_json :: "json \<Rightarrow> json" where
  "clean_json (JStr s) = JStr (clean_utf8 s)"
| "clean_json (JArr js) = JArr (map clean_json js)"
| "clean_json (JObj ms) = JObj (map (\<lambda>(k, j). (clean_utf8 k, clean_json j)) ms)"
| "clean_json j = j"

abbreviation clean_member :: "bytes \<times> json \<Rightarrow> bytes \<times> json" where
  "clean_member \<equiv> \<lambda>(k, j). (clean_utf8 k, clean_json j)"

lemma wf_clean: "wf_json j \<Longrightarrow> nums_ok j \<and> clean_json j = j"
proof (induction j rule: clean_json.induct)
  case (2 js)
  then show ?case by (auto intro: map_idI)
next
  case (3 ms)
  then show ?case by (auto simp: clean_utf8_id intro!: map_idI)
qed (auto simp: clean_utf8_id)

definition is_num :: "json \<Rightarrow> bool" where
  "is_num j \<longleftrightarrow> (\<exists>s. j = JNum s)"

lemma num_end_print [simp]: "num_end (print_elems js @ r)" "num_end (print_members ms @ r)"
  by (cases js; simp add: num_end_def) (cases ms rule: list.exhaust; auto simp: num_end_def)

lemma print_json_start:
  assumes "nums_ok j"
  shows "\<exists>c t. print_json j = c # t \<and> \<not> is_ws c \<and> c \<noteq> CHR '']'' \<and> c \<noteq> CHR ''}''"
proof (cases j)
  case (JNum s)
  with assms show ?thesis using show_int_start by fastforce
qed (auto simp: is_ws_def json_string_def)

lemma json_string_split: "json_string k @ t = CHR 0x22 # (json_body k @ CHR 0x22 # t)"
  by (simp add: json_string_def)

text \<open>One value of each shape, given that its parts are read back.\<close>

lemma parse_pair_print:
  assumes "parse_val n (print_json j @ r) = Some (j', r)"
  shows "parse_pair (Suc n) (json_string k @ '':'' @ print_json j @ r) = Some ((clean_utf8 k, j'), r)"
  using assms parse_str_body [of k "'':'' @ print_json j @ r"]
  by (simp add: is_ws_def body_defs json_string_split)

lemma parse_num_print:
  assumes "num_end r"
  shows "parse_val (Suc m) (show_int i @ r) = Some (JNum (show_int i), r)"
proof -
  obtain c t where c: "show_int i = c # t" "\<not> is_ws c"
      "c \<notin> {CHR ''{'', CHR ''['', CHR 0x22, CHR ''t'', CHR ''f'', CHR ''n''}"
    using show_int_start [of i] by auto
  then have "parse_num (c # t @ r) = Some (c # t, r)" using parse_num_show_int [OF assms, of i] by simp
  with c show ?thesis by (simp add: body_defs)
qed

lemma parse_arr_print:
  assumes "nums_ok j" and "parse_val m (print_json j @ print_elems js @ r) = Some (j', print_elems js @ r)"
    and "parse_elems m (print_elems js @ r) = Some (js', r)"
  shows "parse_val (Suc m) (print_json (JArr (j # js)) @ r) = Some (JArr (j' # js'), r)"
proof -
  obtain c t where "print_json j = c # t" "\<not> is_ws c" "c \<noteq> CHR '']''" using print_json_start [OF assms(1)] by auto
  then show ?thesis using assms by (simp add: is_ws_def body_defs)
qed

lemma parse_obj_print:
  assumes "parse_val m (print_json j @ print_members ms @ r) = Some (j', print_members ms @ r)"
    and "parse_members (Suc m) (print_members ms @ r) = Some (ms', r)"
  shows "parse_val (Suc (Suc m)) (print_json (JObj ((k, j) # ms)) @ r) = Some (JObj ((clean_utf8 k, j') # ms'), r)"
    and "parse_members (Suc (Suc m)) (print_members ((k, j) # ms) @ r) = Some ((clean_utf8 k, j') # ms', r)"
  using parse_pair_print [OF assms(1), of k] assms(2)
  by (simp_all add: is_ws_def body_defs json_string_def)

text \<open>Printed values are read back with their strings cleaned.\<close>

lemma parse_print_clean:
  "nums_ok j \<Longrightarrow> length (print_json j) \<le> n \<Longrightarrow> num_end r \<or> \<not> is_num j \<Longrightarrow>
     parse_val n (print_json j @ r) = Some (clean_json j, r)"
  "(\<forall>j \<in> set js. nums_ok j) \<Longrightarrow> length (print_elems js) \<le> n \<Longrightarrow>
     parse_elems n (print_elems js @ r) = Some (map clean_json js, r)"
  "(\<forall>(k, j) \<in> set ms. nums_ok j) \<Longrightarrow> length (print_members ms) \<le> n \<Longrightarrow>
     parse_members n (print_members ms @ r) = Some (map clean_member ms, r)"
proof (induction j and js and ms arbitrary: n r and n r and n r
    rule: print_json_print_elems_print_members.induct)
  case 1
  then show ?case by (cases n) (simp_all add: is_ws_def strip_lit_def body_defs)
next
  case (2 b)
  then show ?case by (cases n; cases b) (simp_all add: is_ws_def strip_lit_def body_defs)
next
  case 7
  then show ?case by (cases n) (simp_all add: is_ws_def body_defs)
next
  case 9
  then show ?case by (cases n) (simp_all add: is_ws_def body_defs)
next
  case (3 s)
  then obtain i where i: "s = show_int i" by auto
  moreover have "num_end r" using 3 by (auto simp: is_num_def)
  moreover obtain m where "n = Suc m" using 3 i show_int_start [of i] by (cases n) auto
  ultimately show ?case using parse_num_print by simp
next
  case (4 s)
  then obtain m where "n = Suc m" by (cases n) (auto simp: json_string_def)
  then show ?case using parse_str_body [of s r] by (simp add: is_ws_def body_defs json_string_split)
next
  case (5 js)
  then obtain m where n: "n = Suc m" by (cases n) auto
  show ?case
  proof (cases js)
    case (Cons j js')
    then show ?thesis using parse_arr_print [of j m js' r] 5 n by simp
  qed (use n in \<open>simp add: is_ws_def body_defs\<close>)
next
  case (6 ms)
  then obtain m where n: "n = Suc m" by (cases n) auto
  show ?case
  proof (cases ms)
    case (Cons x ms')
    obtain k j where x: "x = (k, j)" by force
    note pre = "6.prems"(1,2) [unfolded Cons x n]
    obtain m' where m: "m = Suc m'" using pre(2) by (cases m) (auto simp: json_string_def)
    have v: "parse_val m' (print_json j @ print_members ms' @ r) = Some (clean_json j, print_members ms' @ r)"
      using "6.IH"(1) [OF Cons, of k j] x pre m by (simp add: json_string_def)
    have q: "parse_members (Suc m') (print_members ms' @ r) = Some (map clean_member ms', r)"
      using "6.IH"(2) [OF Cons, of k j "Suc m'" r] x pre m by (simp add: json_string_def del: parse_members.simps)
    show ?thesis using parse_obj_print(1) [OF v q, of k] x Cons n m by simp
  qed (use n in \<open>simp add: is_ws_def body_defs\<close>)
next
  case (8 j js)
  then obtain m where n: "n = Suc m" by (cases n) auto
  have "parse_val m (print_json j @ print_elems js @ r) = Some (clean_json j, print_elems js @ r)"
      "parse_elems m (print_elems js @ r) = Some (map clean_json js, r)"
    using 8 n by simp_all
  then show ?case using n by (simp add: is_ws_def body_defs)
next
  case (10 k j ms)
  note pre = "10.prems"(1,2)
  obtain m where n: "n = Suc (Suc m)" using pre(2) by (cases n; cases "n - 1") (auto simp: json_string_def)
  have v: "parse_val m (print_json j @ print_members ms @ r) = Some (clean_json j, print_members ms @ r)"
    using "10.IH"(1) pre n by (simp add: json_string_def)
  have q: "parse_members (Suc m) (print_members ms @ r) = Some (map clean_member ms, r)"
    using "10.IH"(2) [of "Suc m" r] pre n by (simp add: json_string_def del: parse_members.simps)
  show ?case using parse_obj_print(2) [OF v q, of k] n by simp
qed

lemma parse_print:
  "wf_json j \<Longrightarrow> length (print_json j) \<le> n \<Longrightarrow> num_end r \<or> \<not> is_num j \<Longrightarrow>
     parse_val n (print_json j @ r) = Some (j, r)"
  using parse_print_clean(1) [of j n r] wf_clean [of j] by simp

text \<open>The round trip of a whole text: objects come back cleaned, and unchanged if they are valid text.\<close>

theorem parse_json_print_clean:
  assumes "nums_ok (JObj ms)"
  shows "parse_json (print_json (JObj ms)) = Some (clean_json (JObj ms))"
  using parse_print_clean(1) [OF assms, of "Suc (length (print_json (JObj ms)))" "[]"]
  by (simp add: parse_json_def is_num_def del: print_json.simps parse_val.simps)

theorem parse_json_print_obj:
  assumes "wf_json (JObj ms)"
  shows "parse_json (print_json (JObj ms)) = Some (JObj ms)"
  using parse_json_print_clean [of ms] wf_clean [OF assms] by simp

subsection \<open>More text and more fuel\<close>

declare parse_val.simps [simp del] parse_elems.simps [simp del] parse_pair.simps [simp del]
  parse_members.simps [simp del]

text \<open>When each body succeeds, as an equivalence the lemmas below take apart and put together.\<close>

lemma seq_body_Some:
  "seq_body c item more r = Some (xs, q) \<longleftrightarrow>
     xs = [] \<and> skip_ws r = c # q \<or>
     (\<exists>d r' x r1 ys. skip_ws r = d # r' \<and> d \<noteq> c \<and> item (d # r') = Some (x, r1) \<and>
        more r1 = Some (ys, q) \<and> xs = x # ys)"
  by (cases "skip_ws r") (auto simp: seq_body_def simp del: dropWhile_eq_Nil_conv split: option.splits)

lemma seq_more_Some:
  "seq_more c item more r = Some (xs, q) \<longleftrightarrow>
     xs = [] \<and> skip_ws r = c # q \<or>
     (\<exists>r' x r1 ys. skip_ws r = CHR '','' # r' \<and> c \<noteq> CHR '','' \<and> item r' = Some (x, r1) \<and>
        more r1 = Some (ys, q) \<and> xs = x # ys)"
  by (cases "skip_ws r") (auto simp: seq_more_def simp del: dropWhile_eq_Nil_conv split: option.splits if_splits)

lemma pair_body_Some:
  "pair_body val r = Some ((k, j), q) \<longleftrightarrow>
     (\<exists>r' r1 r2. skip_ws r = CHR 0x22 # r' \<and> parse_str r' = Some (k, r1) \<and>
        skip_ws r1 = CHR '':'' # r2 \<and> val r2 = Some (j, q))"
proof (cases "skip_ws r")
  case (Cons c r')
  show ?thesis
  proof (cases "c = CHR 0x22")
    case True
    with Cons show ?thesis
      by (cases "parse_str r'"; cases "skip_ws (snd (the (parse_str r')))")
        (auto simp: pair_body_def simp del: dropWhile_eq_Nil_conv split: option.splits if_splits)
  qed (use Cons in \<open>simp add: pair_body_def\<close>)
qed (simp add: pair_body_def del: dropWhile_eq_Nil_conv)

lemma val_body_Some:
  "val_body obj arr r = Some (j, q) \<longleftrightarrow>
     (\<exists>r' ms. skip_ws r = CHR ''{'' # r' \<and> obj r' = Some (ms, q) \<and> j = JObj ms) \<or>
     (\<exists>r' js. skip_ws r = CHR ''['' # r' \<and> arr r' = Some (js, q) \<and> j = JArr js) \<or>
     (\<exists>c r'. skip_ws r = c # r' \<and> c \<noteq> CHR ''{'' \<and> c \<noteq> CHR ''['' \<and> parse_atom (c # r') = Some (j, q))"
  by (cases "skip_ws r") (auto simp: val_body_def simp del: dropWhile_eq_Nil_conv)

lemmas body_Some = seq_body_Some seq_more_Some pair_body_Some val_body_Some

lemma skip_ws_append: "skip_ws bs = c # r \<Longrightarrow> skip_ws (bs @ x) = c # r @ x"
  by (induction bs) (auto split: if_splits)

lemma seq_body_mono:
  "(\<And>b v q. item b = Some (v, q) \<Longrightarrow> item' b = Some (v, q)) \<Longrightarrow>
   (\<And>b v q. more b = Some (v, q) \<Longrightarrow> more' b = Some (v, q)) \<Longrightarrow>
   seq_body c item more r = Some (xs, q) \<Longrightarrow> seq_body c item' more' r = Some (xs, q)"
  unfolding seq_body_Some by blast

lemma seq_more_mono:
  "(\<And>b v q. item b = Some (v, q) \<Longrightarrow> item' b = Some (v, q)) \<Longrightarrow>
   (\<And>b v q. more b = Some (v, q) \<Longrightarrow> more' b = Some (v, q)) \<Longrightarrow>
   seq_more c item more r = Some (xs, q) \<Longrightarrow> seq_more c item' more' r = Some (xs, q)"
  unfolding seq_more_Some by blast

lemma val_body_mono:
  "(\<And>b v q. obj b = Some (v, q) \<Longrightarrow> obj' b = Some (v, q)) \<Longrightarrow>
   (\<And>b v q. arr b = Some (v, q) \<Longrightarrow> arr' b = Some (v, q)) \<Longrightarrow>
   val_body obj arr r = Some (j, q) \<Longrightarrow> val_body obj' arr' r = Some (j, q)"
  unfolding val_body_Some by blast

lemma parse_mono:
  "parse_val n bs = Some (j, q) \<Longrightarrow> parse_val (Suc n) bs = Some (j, q)"
  "parse_elems n bs = Some (js, q) \<Longrightarrow> parse_elems (Suc n) bs = Some (js, q)"
  "parse_pair n bs = Some ((k, j), q) \<Longrightarrow> parse_pair (Suc n) bs = Some ((k, j), q)"
  "parse_members n bs = Some (ms, q) \<Longrightarrow> parse_members (Suc n) bs = Some (ms, q)"
proof (induction n arbitrary: bs j js k ms q)
  case (Suc n)
  {
    case 1
    have m: "parse_pair (Suc n) b = Some (v, q)" if "parse_pair n b = Some (v, q)" for b v q
      using Suc.IH(3) [of b "fst v" "snd v" q] that by simp
    have o: "seq_body c (parse_pair (Suc n)) (parse_members (Suc n)) b = Some (xs, q)"
      if "seq_body c (parse_pair n) (parse_members n) b = Some (xs, q)" for c b xs q
      using seq_body_mono [OF m Suc.IH(4) that] .
    have a: "seq_body c (parse_val (Suc n)) (parse_elems (Suc n)) b = Some (xs, q)"
      if "seq_body c (parse_val n) (parse_elems n) b = Some (xs, q)" for c b xs q
      using seq_body_mono [OF Suc.IH(1,2) that] .
    show ?case using val_body_mono [OF o a "1.prems" [unfolded parse_val.simps(2)]]
      by (subst parse_val.simps(2))
  next
    case 2
    show ?case using seq_more_mono [OF Suc.IH(1,2) "2.prems" [unfolded parse_elems.simps(2)]]
      by (subst parse_elems.simps(2))
  next
    case 3
    then show ?case unfolding parse_pair.simps(2) pair_body_Some using Suc.IH(1) by meson
  next
    case 4
    have m: "parse_pair (Suc n) b = Some (v, q)" if "parse_pair n b = Some (v, q)" for b v q
      using Suc.IH(3) [of b "fst v" "snd v" q] that by simp
    show ?case using seq_more_mono [OF m Suc.IH(4) "4.prems" [unfolded parse_members.simps(2)]]
      by (subst parse_members.simps(2))
  }
qed (simp_all add: parse_val.simps parse_elems.simps parse_pair.simps parse_members.simps)

lemma parse_val_mono: "n \<le> m \<Longrightarrow> parse_val n bs = Some (j, q) \<Longrightarrow> parse_val m bs = Some (j, q)"
  by (induction m rule: dec_induct) (auto intro: parse_mono(1))

lemma rune_len_append: "0 < rune_len bs \<Longrightarrow> rune_len (bs @ x) = rune_len bs"
  using rune_len_take [of bs "drop (rune_len bs) bs @ x"]
  by (metis append_assoc append_take_drop_id)

lemma tail_ok_high: "tail_ok n bs \<Longrightarrow> \<forall>b \<in> set bs. 128 \<le> (of_char b :: nat)"
  by (cases bs) (auto simp: tail_ok_def list_all_iff split: if_splits)

lemma rune_len_append_0:
  assumes "rune_len (c # r) = 0" and "\<exists>b \<in> set r. (of_char b :: nat) < 128"
  shows "rune_len (c # r @ x) = 0"
proof (rule ccontr)
  let ?w = "lead_width (of_char c)"
  assume "rune_len (c # r @ x) \<noteq> 0"
  then have w: "0 < ?w" "tail_ok (of_char c) (take (?w - 1) (r @ x))"
    by (auto simp: rune_len_def Let_def split: if_splits)
  have "length r < ?w - 1"
  proof (rule ccontr)
    assume "\<not> length r < ?w - 1"
    then show False using assms(1) w by (auto simp: rune_len_def)
  qed
  then have "set r \<subseteq> set (take (?w - 1) (r @ x))" by auto
  moreover have "\<forall>b \<in> set (take (?w - 1) (r @ x)). 128 \<le> (of_char b :: nat)"
    using w(2) by (rule tail_ok_high)
  ultimately show False using assms(2) by fastforce
qed

lemma hex4_drop: "hex4 t = Some (v, r) \<Longrightarrow> \<exists>k. r = drop k t"
  by (intro exI [of _ 4]) (auto simp: hex4_def split: list.splits option.splits)

lemma low_surrogate_drop:
  assumes "low_surrogate t = Some (v, r)"
  shows "\<exists>k. r = drop k t"
proof -
  from assms obtain a b q where t: "t = a # b # q" "hex4 q = Some (v, r)"
    by (auto simp: low_surrogate_def split: list.splits option.splits if_splits)
  from hex4_drop [OF t(2)] obtain k where "r = drop k q" by blast
  then show ?thesis using t(1) by (intro exI [of _ "k + 2"]) simp
qed

lemma str_unit_drop:
  assumes "str_unit bs = Some (u, r)"
  shows "\<exists>k. r = drop k bs"
proof (cases bs)
  case Nil
  then show ?thesis using assms by (simp add: str_unit_def)
next
  case (Cons c t)
  consider (plain) "c \<noteq> CHR 0x5C" | (esc) e t' where "c = CHR 0x5C" "t = e # t'" "e \<noteq> CHR ''u''"
    | (hex) t' where "c = CHR 0x5C" "t = CHR ''u'' # t'"
    using assms Cons by (cases "c = CHR 0x5C"; cases t; cases "hd t = CHR ''u''") (auto simp: str_unit_def)
  then show ?thesis
  proof cases
    case plain
    with assms Cons show ?thesis by (auto simp: str_unit_def split: if_splits intro: exI [of _ 1])
  next
    case esc
    with assms Cons show ?thesis by (auto simp: str_unit_def split: option.splits intro: exI [of _ 2])
  next
    case hex
    with assms Cons obtain v q where q: "hex4 t' = Some (v, q)" by (auto simp: str_unit_def split: option.splits)
    from assms Cons hex q have "r = q \<or> (\<exists>w. low_surrogate q = Some (w, r))"
      by (auto simp: str_unit_def split: option.splits if_splits)
    then obtain m where "r = drop m q" using low_surrogate_drop by (metis drop0)
    moreover obtain k where "q = drop k t'" using hex4_drop [OF q] by blast
    ultimately show ?thesis using Cons hex by (intro exI [of _ "m + k + 2"]) simp
  qed
qed

lemma parse_str_quote: "parse_str bs = Some (s, r) \<Longrightarrow> CHR 0x22 \<in> set bs"
proof (induction bs arbitrary: s r rule: parse_str.induct)
  case (1 bs)
  show ?case
  proof (cases "bs \<noteq> [] \<and> hd bs = CHR 0x22")
    case True
    then show ?thesis by (metis hd_in_set)
  next
    case False
    with "1.prems" obtain u r1 s1 where u: "str_unit bs = Some (u, r1)" "parse_str r1 = Some (s1, r)"
      by (auto simp: parse_str.simps [of bs] split: option.splits)
    have "CHR 0x22 \<in> set r1" using "1.IH" [OF False u(1) refl u(2)] .
    then show ?thesis using str_unit_drop [OF u(1)] by (metis in_set_dropD)
  qed
qed

lemma hex4_append: "hex4 bs = Some (v, r) \<Longrightarrow> hex4 (bs @ x) = Some (v, r @ x)"
  by (auto simp: hex4_def split: list.splits option.splits)

lemma hex4_no_quote: "hex4 bs = Some (v, r) \<Longrightarrow> CHR 0x22 \<notin> set (take 4 bs)"
proof -
  have "hex_val (CHR 0x22) = None" by (simp add: hex_val_def)
  then show "hex4 bs = Some (v, r) \<Longrightarrow> ?thesis"
    by (auto simp: hex4_def split: list.splits option.splits)
qed

lemma hex4_None_append:
  assumes "hex4 bs = None" and "CHR 0x22 \<in> set bs"
  shows "hex4 (bs @ x) = None"
proof (rule ccontr)
  assume "hex4 (bs @ x) \<noteq> None"
  then obtain v r where h: "hex4 (bs @ x) = Some (v, r)" by auto
  show False
  proof (cases "4 \<le> length bs")
    case True
    then obtain a b c d q where "bs = a # b # c # d # q"
      by (auto simp: numeral_eq_Suc Suc_le_length_iff)
    then show ?thesis using h assms(1) by (auto simp: hex4_def split: option.splits)
  next
    case False
    then show ?thesis using hex4_no_quote [OF h] assms(2) by simp
  qed
qed

lemma low_surrogate_append:
  "low_surrogate bs = Some (v, r) \<Longrightarrow> low_surrogate (bs @ x) = Some (v, r @ x)"
  by (auto simp: low_surrogate_def hex4_append split: list.splits option.splits if_splits)

lemma low_surrogate_None_append:
  assumes "low_surrogate bs = None" and "CHR 0x22 \<in> set bs"
  shows "low_surrogate (bs @ x) = None"
proof -
  consider (short) "length bs \<le> 1" | (long) b u r where "bs = b # u # r"
    by (cases bs; cases "tl bs") auto
  then show ?thesis
  proof cases
    case short
    then have "bs = [CHR 0x22]" using assms(2) by (cases bs) auto
    then show ?thesis by (simp add: low_surrogate_def split: list.splits)
  next
    case long
    show ?thesis
    proof (cases "hex4 r")
      case None
      then have "CHR 0x22 \<in> set r \<Longrightarrow> hex4 (r @ x) = None" by (rule hex4_None_append)
      then show ?thesis using long assms by (auto simp: low_surrogate_def)
    next
      case (Some p)
      then show ?thesis using long assms hex4_append [of r _ _ x]
        by (cases p) (auto simp: low_surrogate_def split: if_splits)
    qed
  qed
qed

lemma str_unit_append:
  assumes "str_unit bs = Some (u, r)" and "CHR 0x22 \<in> set r"
  shows "str_unit (bs @ x) = Some (u, r @ x)"
proof (cases bs)
  case (Cons c t)
  show ?thesis
  proof (cases "c = CHR 0x5C")
    case True
    with assms Cons obtain e t' where t: "t = e # t'" by (auto simp: str_unit_def split: list.splits)
    show ?thesis
    proof (cases "e = CHR ''u''")
      case False
      with assms(1) Cons True t show ?thesis by (auto simp: str_unit_def split: option.splits)
    next
      case eu: True
      with assms Cons True t obtain v q where q: "hex4 t' = Some (v, q)"
        by (auto simp: str_unit_def split: option.splits)
      with assms Cons True t eu show ?thesis
        using hex4_append [OF q, of x] low_surrogate_append [of q _ _ x] low_surrogate_None_append [of q x]
        by (auto simp: str_unit_def split: option.splits if_splits)
    qed
  next
    case False
    show ?thesis
    proof (cases "rune_len bs = 0")
      case True
      with assms False Cons have "r = t" by (auto simp: str_unit_def split: if_splits)
      moreover have "rune_len (c # t @ x) = 0"
        using rune_len_append_0 [of c t x] True Cons assms(2) \<open>r = t\<close> by force
      ultimately show ?thesis using assms(1) False Cons True by (auto simp: str_unit_def split: if_splits)
    next
      case pos: False
      then have "rune_len (bs @ x) = rune_len bs" by (simp add: rune_len_append)
      moreover have "take (rune_len bs) (bs @ x) = take (rune_len bs) bs"
          "drop (rune_len bs) (bs @ x) = drop (rune_len bs) bs @ x"
        using rune_len_le [of bs] by simp_all
      ultimately show ?thesis using assms(1) False Cons pos by (auto simp: str_unit_def split: if_splits)
    qed
  qed
qed (use assms in \<open>simp add: str_unit_def\<close>)

lemma parse_str_append: "parse_str bs = Some (s, r) \<Longrightarrow> parse_str (bs @ x) = Some (s, r @ x)"
proof (induction bs arbitrary: s r rule: parse_str.induct)
  case (1 bs)
  show ?case
  proof (cases "bs \<noteq> [] \<and> hd bs = CHR 0x22")
    case True
    then show ?thesis using "1.prems" by (simp add: parse_str.simps [of bs] parse_str.simps [of "bs @ x"])
  next
    case False
    with "1.prems" obtain u r1 s1 where u: "str_unit bs = Some (u, r1)" "parse_str r1 = Some (s1, r)" "s = u @ s1"
      by (auto simp: parse_str.simps [of bs] split: option.splits)
    have "str_unit (bs @ x) = Some (u, r1 @ x)"
      using str_unit_append [OF u(1) parse_str_quote [OF u(2)]] .
    moreover have "parse_str (r1 @ x) = Some (s1, r @ x)" using "1.IH" [OF False u(1) refl u(2)] .
    moreover have "bs \<noteq> []" using u(1) by (auto simp: str_unit_def)
    ultimately show ?thesis using False u(3) by (simp add: parse_str.simps [of "bs @ x"])
  qed
qed

lemma take_digits_append:
  "take_digits bs = (ds, r) \<Longrightarrow> r \<noteq> [] \<Longrightarrow> take_digits (bs @ x) = (ds, r @ x)"
proof -
  assume "take_digits bs = (ds, r)" "r \<noteq> []"
  then have "\<exists>c \<in> set bs. \<not> is_digit c" by (auto simp: take_digits_def)
  with \<open>take_digits bs = (ds, r)\<close> show ?thesis
    by (auto simp: take_digits_def)
qed

lemma num_int_append: "num_int bs = Some (i, r) \<Longrightarrow> r \<noteq> [] \<Longrightarrow> num_int (bs @ x) = Some (i, r @ x)"
  using take_digits_append [of bs i r x]
  by (cases bs) (auto simp: num_int_def split: if_splits)

lemma num_frac_append: "num_frac bs = Some (f, r) \<Longrightarrow> r \<noteq> [] \<Longrightarrow> num_frac (bs @ x) = Some (f, r @ x)"
  using take_digits_append [of "tl bs" "tl f" r x]
  by (cases bs) (auto simp: num_frac_def split: if_splits prod.splits)

lemma num_exp_append: "num_exp bs = Some (e, r) \<Longrightarrow> r \<noteq> [] \<Longrightarrow> num_exp (bs @ x) = Some (e, r @ x)"
proof (cases bs)
  case (Cons c t)
  assume h: "num_exp bs = Some (e, r)" "r \<noteq> []"
  show ?thesis
  proof (cases "c = CHR ''e'' \<or> c = CHR ''E''")
    case True
    with h Cons have "t \<noteq> []" by (auto simp: num_exp_def take_digits_def)
    then obtain s t' where t: "t = s # t'" by (cases t) auto
    with h Cons True show ?thesis
      using take_digits_append [of t' _ r x] take_digits_append [of t _ r x]
      by (auto simp: num_exp_def Let_def split: if_splits prod.splits)
  qed (use h Cons in \<open>auto simp: num_exp_def\<close>)
qed (simp add: num_exp_def)

lemma num_parts_nonempty:
  "num_frac bs = Some (f, r) \<Longrightarrow> r \<noteq> [] \<Longrightarrow> bs \<noteq> []"
  "num_exp bs = Some (f, r) \<Longrightarrow> r \<noteq> [] \<Longrightarrow> bs \<noteq> []"
  by (auto simp: num_frac_def num_exp_def)

lemma parse_num_append:
  assumes "parse_num bs = Some (s, r)" and "r \<noteq> []"
  shows "parse_num (bs @ x) = Some (s, r @ x)"
proof -
  obtain sg r0 where s0: "(case bs of [] \<Rightarrow> ([], []) | c # r \<Rightarrow> if c = CHR ''-'' then ([c], r) else ([], bs))
      = (sg, r0)"
    by (rule prod.exhaust)
  with assms(1) obtain i r1 f r2 e where p: "num_int r0 = Some (i, r1)" "num_frac r1 = Some (f, r2)"
      "num_exp r2 = Some (e, r)" "s = sg @ i @ f @ e"
    unfolding parse_num_def by (auto split: option.splits)
  have ne2: "r2 \<noteq> []" by (rule num_parts_nonempty(2) [OF p(3) assms(2)])
  have ne1: "r1 \<noteq> []" by (rule num_parts_nonempty(1) [OF p(2) ne2])
  note q = num_int_append [OF p(1) ne1, of x] num_frac_append [OF p(2) ne2, of x]
    num_exp_append [OF p(3) assms(2), of x]
  have "bs \<noteq> []" using p(1) s0 by (auto simp: num_int_def)
  with s0 have "(case bs @ x of [] \<Rightarrow> ([], []) | c # r \<Rightarrow> if c = CHR ''-'' then ([c], r) else ([], bs @ x))
      = (sg, r0 @ x)"
    by (cases bs) (auto split: if_splits)
  with q p(4) show ?thesis unfolding parse_num_def by simp
qed

lemma strip_lit_append: "strip_lit l bs = Some r \<Longrightarrow> strip_lit l (bs @ x) = Some (r @ x)"
proof -
  assume h: "strip_lit l bs = Some r"
  then have t: "take (length l) bs = l" "r = drop (length l) bs" by (auto simp: strip_lit_def split: if_splits)
  have "length l \<le> length bs" using arg_cong [OF t(1), of length] by simp
  then show ?thesis using t by (simp add: strip_lit_def)
qed

lemma parse_atom_append:
  assumes "parse_atom bs = Some (j, r)" and "r \<noteq> []"
  shows "parse_atom (bs @ x) = Some (j, r @ x)"
  using assms(1) parse_str_append [of "tl bs" _ r x] strip_lit_append [of _ bs r x]
    parse_num_append [of bs _ r x, OF _ assms(2)]
  by (cases bs) (auto simp: parse_atom_def split: if_splits option.splits)

lemma seq_body_append:
  assumes item: "\<And>b v q. item b = Some (v, q) \<Longrightarrow> q \<noteq> [] \<Longrightarrow> item (b @ x) = Some (v, q @ x)"
    and more: "\<And>b v q. more b = Some (v, q) \<Longrightarrow> b \<noteq> [] \<and> more (b @ x) = Some (v, q @ x)"
    and "seq_body c item more r = Some (xs, q)"
  shows "seq_body c item more (r @ x) = Some (xs, q @ x)"
  using assms(3) unfolding seq_body_Some
proof (elim disjE exE conjE)
  fix d r' y r1 ys
  assume a: "skip_ws r = d # r'" "d \<noteq> c" "item (d # r') = Some (y, r1)" "more r1 = Some (ys, q)" "xs = y # ys"
  note m = more [OF a(4)]
  show "xs = [] \<and> skip_ws (r @ x) = c # q @ x \<or>
      (\<exists>d r' y r1 ys. skip_ws (r @ x) = d # r' \<and> d \<noteq> c \<and> item (d # r') = Some (y, r1) \<and>
        more r1 = Some (ys, q @ x) \<and> xs = y # ys)"
    using skip_ws_append [OF a(1), of x] a(2,5) item [OF a(3)] m by auto
qed (simp add: skip_ws_append)

lemma seq_more_append:
  assumes item: "\<And>b v q. item b = Some (v, q) \<Longrightarrow> q \<noteq> [] \<Longrightarrow> item (b @ x) = Some (v, q @ x)"
    and more: "\<And>b v q. more b = Some (v, q) \<Longrightarrow> b \<noteq> [] \<and> more (b @ x) = Some (v, q @ x)"
    and "seq_more c item more r = Some (xs, q)"
  shows "r \<noteq> [] \<and> seq_more c item more (r @ x) = Some (xs, q @ x)"
proof -
  from assms(3) have "r \<noteq> []" by (auto simp: seq_more_def)
  from assms(3) consider (close) "xs = []" "skip_ws r = c # q"
    | (item) r' y r1 ys where "skip_ws r = CHR '','' # r'" "c \<noteq> CHR '',''" "item r' = Some (y, r1)"
        "more r1 = Some (ys, q)" "xs = y # ys"
    unfolding seq_more_Some by blast
  then have "seq_more c item more (r @ x) = Some (xs, q @ x)"
  proof cases
    case close
    then show ?thesis unfolding seq_more_Some by (simp add: skip_ws_append)
  next
    case a: item
    show ?thesis unfolding seq_more_Some
      using skip_ws_append [OF a(1), of x] a(2,5) item [OF a(3)] more [OF a(4)] by auto
  qed
  with \<open>r \<noteq> []\<close> show ?thesis by simp
qed

lemma pair_body_append:
  assumes val: "\<And>b v q. val b = Some (v, q) \<Longrightarrow> q \<noteq> [] \<Longrightarrow> val (b @ x) = Some (v, q @ x)"
    and "pair_body val r = Some (p, q)" and "q \<noteq> []"
  shows "pair_body val (r @ x) = Some (p, q @ x)"
proof -
  obtain k j where p: "p = (k, j)" by force
  from assms(2) obtain r' r1 r2 where a: "skip_ws r = CHR 0x22 # r'" "parse_str r' = Some (k, r1)"
      "skip_ws r1 = CHR '':'' # r2" "val r2 = Some (j, q)"
    unfolding p pair_body_Some by blast
  show ?thesis unfolding p pair_body_Some
    using skip_ws_append [OF a(1), of x] parse_str_append [OF a(2), of x] skip_ws_append [OF a(3), of x]
      val [OF a(4) assms(3)] by auto
qed

lemma parse_atom_no_obj: "parse_atom bs = Some (j, q) \<Longrightarrow> j \<noteq> JObj ms"
  by (cases bs) (auto simp: parse_atom_def split: if_splits option.splits)

lemma val_body_append:
  assumes obj: "\<And>b v q. obj b = Some (v, q) \<Longrightarrow> obj (b @ x) = Some (v, q @ x)"
    and arr: "\<And>b v q. arr b = Some (v, q) \<Longrightarrow> arr (b @ x) = Some (v, q @ x)"
    and "val_body obj arr r = Some (j, q)" and ends: "q \<noteq> [] \<or> (\<exists>ms. j = JObj ms)"
  shows "val_body obj arr (r @ x) = Some (j, q @ x)"
proof -
  from assms(3) consider
      (obj) r' ms where "skip_ws r = CHR ''{'' # r'" "obj r' = Some (ms, q)" "j = JObj ms"
    | (arr) r' js where "skip_ws r = CHR ''['' # r'" "arr r' = Some (js, q)" "j = JArr js"
    | (atom) c r' where "skip_ws r = c # r'" "c \<noteq> CHR ''{''" "c \<noteq> CHR ''[''"
        "parse_atom (c # r') = Some (j, q)"
    unfolding val_body_Some by blast
  then show ?thesis
  proof cases
    case a: obj
    show ?thesis unfolding val_body_Some using skip_ws_append [OF a(1), of x] obj [OF a(2)] a(3) by auto
  next
    case a: arr
    show ?thesis unfolding val_body_Some using skip_ws_append [OF a(1), of x] arr [OF a(2)] a(3) by auto
  next
    case a: atom
    have "q \<noteq> []" using ends parse_atom_no_obj [OF a(4)] by auto
    then show ?thesis unfolding val_body_Some
      using skip_ws_append [OF a(1), of x] parse_atom_append [OF a(4), of x] a(2,3) by auto
  qed
qed

lemma parse_append:
  "parse_val n bs = Some (j, q) \<Longrightarrow> q \<noteq> [] \<or> (\<exists>ms. j = JObj ms) \<Longrightarrow> parse_val n (bs @ x) = Some (j, q @ x)"
  "parse_elems n bs = Some (js, q) \<Longrightarrow> bs \<noteq> [] \<and> parse_elems n (bs @ x) = Some (js, q @ x)"
  "parse_pair n bs = Some (p, q) \<Longrightarrow> q \<noteq> [] \<Longrightarrow> parse_pair n (bs @ x) = Some (p, q @ x)"
  "parse_members n bs = Some (ms, q) \<Longrightarrow> bs \<noteq> [] \<and> parse_members n (bs @ x) = Some (ms, q @ x)"
proof (induction n arbitrary: bs j js p ms q)
  case (Suc n)
  have v: "parse_val n (b @ x) = Some (v, r @ x)" if "parse_val n b = Some (v, r)" "r \<noteq> []" for b v r
    using Suc.IH(1) [OF that(1)] that(2) by blast
  {
    case 1
    note o = seq_body_append [of "parse_pair n" x "parse_members n", OF Suc.IH(3,4)]
      and a = seq_body_append [of "parse_val n" x "parse_elems n", OF v Suc.IH(2)]
    show ?case unfolding parse_val.simps(2)
      by (rule val_body_append [OF o a "1.prems" [unfolded parse_val.simps(2)]])
  next
    case 2
    show ?case unfolding parse_elems.simps(2)
      by (rule seq_more_append [OF v Suc.IH(2) "2.prems" [unfolded parse_elems.simps(2)]])
  next
    case 3
    show ?case unfolding parse_pair.simps(2)
      by (rule pair_body_append [OF v "3.prems" [unfolded parse_pair.simps(2)]])
  next
    case 4
    show ?case unfolding parse_members.simps(2)
      by (rule seq_more_append [OF Suc.IH(3,4) "4.prems" [unfolded parse_members.simps(2)]])
  }
qed (simp_all add: parse_val.simps parse_elems.simps parse_pair.simps parse_members.simps)

text \<open>No cut-off copy of a printed object is a JSON text.\<close>

theorem parse_json_truncated:
  assumes "wf_json (JObj ms)" and "print_json (JObj ms) = p @ x" and "x \<noteq> []"
  shows "parse_json p = None"
proof (cases "parse_json p")
  case (Some j)
  then obtain q where q: "parse_val (Suc (length p)) p = Some (j, q)"
    by (auto simp: parse_json_def split: option.splits if_splits)
  let ?n = "Suc (length (p @ x))"
  have n: "parse_val ?n p = Some (j, q)" by (rule parse_val_mono [OF _ q]) simp
  have full: "parse_val ?n (p @ x) = Some (JObj ms, [])"
    using parse_print(1) [OF assms(1), of ?n "[]"] assms(2)
    by (simp add: is_num_def del: print_json.simps)
  obtain t where t: "p = CHR ''{'' # t"
  proof (cases p)
    case Nil
    then show ?thesis using q by (simp add: parse_val.simps val_body_def)
  next
    case (Cons c t)
    then show ?thesis using that assms(2) by simp
  qed
  have "\<exists>ms'. j = JObj ms'"
    using q [unfolded parse_val.simps(2) val_body_Some] t by (auto simp: is_ws_def)
  from parse_append(1) [OF n, of x] this full assms(3) show ?thesis by simp
qed simp

subsection \<open>The fuel of \<open>parse_json\<close> is enough\<close>

lemma parse_str_length: "parse_str bs = Some (s, r) \<Longrightarrow> length r < length bs"
proof (induction bs arbitrary: s r rule: parse_str.induct)
  case (1 bs)
  show ?case
  proof (cases "bs \<noteq> [] \<and> hd bs = CHR 0x22")
    case True
    then show ?thesis using "1.prems" by (cases bs) (auto simp: parse_str.simps)
  next
    case False
    with "1.prems" obtain u r1 s1 where u: "str_unit bs = Some (u, r1)" "parse_str r1 = Some (s1, r)"
      by (auto simp: parse_str.simps [of bs] split: option.splits)
    then show ?thesis using "1.IH" [OF False u(1) refl u(2)] str_unit_length [OF u(1)] by simp
  qed
qed

lemma num_parts_length:
  "num_int bs = Some (i, r) \<Longrightarrow> length r \<le> length bs"
  "num_frac bs = Some (i, r) \<Longrightarrow> length r \<le> length bs"
  "num_exp bs = Some (i, r) \<Longrightarrow> length r \<le> length bs"
proof -
  have d: "length (dropWhile is_digit b) \<le> length b" for b by (rule length_dropWhile_le)
  show "num_int bs = Some (i, r) \<Longrightarrow> length r \<le> length bs"
    using d [of bs] by (cases bs) (auto simp: num_int_def take_digits_def split: if_splits)
  show "num_frac bs = Some (i, r) \<Longrightarrow> length r \<le> length bs"
    using d [of "tl bs"] by (cases bs) (auto simp: num_frac_def take_digits_def Let_def split: if_splits)
  show "num_exp bs = Some (i, r) \<Longrightarrow> length r \<le> length bs"
    using d [of "tl bs"] d [of "tl (tl bs)"]
    by (cases bs; cases "tl bs") (auto simp: num_exp_def take_digits_def Let_def split: if_splits)
qed

lemma parse_num_length: "parse_num bs = Some (s, r) \<Longrightarrow> length r \<le> length bs"
  by (cases bs) (auto simp: parse_num_def split: option.splits if_splits dest!: num_parts_length)

lemma parse_atom_length: "parse_atom bs = Some (j, r) \<Longrightarrow> length r \<le> length bs"
  by (cases bs) (auto simp: parse_atom_def strip_lit_def split: if_splits option.splits
      dest: parse_str_length parse_num_length)

lemma skip_ws_length: "skip_ws bs = c # r \<Longrightarrow> length r < length bs"
  using length_dropWhile_le [of is_ws bs] by simp

text \<open>
  What it takes for a parser to be settled at a text: it gives back no more than it got, and any
  fuel above the text's length gives the same result.
\<close>

definition settled :: "(nat \<Rightarrow> bytes \<Rightarrow> ('a \<times> bytes) option) \<Rightarrow> nat \<Rightarrow> bool" where
  "settled P n \<longleftrightarrow>
     (\<forall>bs v q. P n bs = Some (v, q) \<longrightarrow> length q \<le> length bs \<and> (\<forall>m > length bs. P m bs = Some (v, q)))"

lemma settledD:
  "settled P n \<Longrightarrow> P n bs = Some (v, q) \<Longrightarrow> length q \<le> length bs"
  "settled P n \<Longrightarrow> P n bs = Some (v, q) \<Longrightarrow> length bs < m \<Longrightarrow> P m bs = Some (v, q)"
  unfolding settled_def by blast+

lemma seq_body_settled:
  assumes s: "settled I n" "settled M n" and r: "seq_body c (I n) (M n) r = Some (xs, q)"
  shows "length q \<le> length r" and "length r < m \<Longrightarrow> seq_body c (I m) (M m) r = Some (xs, q)"
proof -
  from r consider "xs = []" "skip_ws r = c # q"
    | d r' y r1 ys where "skip_ws r = d # r'" "d \<noteq> c" "I n (d # r') = Some (y, r1)" "M n r1 = Some (ys, q)"
        "xs = y # ys"
    unfolding seq_body_Some by blast
  then have "length q \<le> length r \<and> (length r < m \<longrightarrow> seq_body c (I m) (M m) r = Some (xs, q))"
  proof cases
    case 1
    then show ?thesis using skip_ws_length [of r] by (auto simp: seq_body_Some)
  next
    case 2
    have "length r1 \<le> length (d # r')" "length q \<le> length r1" "length (d # r') \<le> length r"
      using settledD(1) [OF s(1) 2(3)] settledD(1) [OF s(2) 2(4)] skip_ws_length [OF 2(1)] by auto
    then show ?thesis unfolding seq_body_Some
      using 2 settledD(2) [OF s(1) 2(3), of m] settledD(2) [OF s(2) 2(4), of m] by auto
  qed
  then show "length q \<le> length r" "length r < m \<Longrightarrow> seq_body c (I m) (M m) r = Some (xs, q)" by auto
qed

lemma seq_more_settled:
  assumes s: "settled I n" "settled M n" and r: "seq_more c (I n) (M n) r = Some (xs, q)"
  shows "length q \<le> length r" and "length r \<le> m \<Longrightarrow> seq_more c (I m) (M m) r = Some (xs, q)"
proof -
  from r consider "xs = []" "skip_ws r = c # q"
    | r' y r1 ys where "skip_ws r = CHR '','' # r'" "c \<noteq> CHR '',''" "I n r' = Some (y, r1)"
        "M n r1 = Some (ys, q)" "xs = y # ys"
    unfolding seq_more_Some by blast
  then have "length q \<le> length r \<and> (length r \<le> m \<longrightarrow> seq_more c (I m) (M m) r = Some (xs, q))"
  proof cases
    case 1
    then show ?thesis using skip_ws_length [of r] by (auto simp: seq_more_Some)
  next
    case 2
    have "length r1 \<le> length r'" "length q \<le> length r1" "length r' < length r"
      using settledD(1) [OF s(1) 2(3)] settledD(1) [OF s(2) 2(4)] skip_ws_length [OF 2(1)] by auto
    then show ?thesis unfolding seq_more_Some
      using 2 settledD(2) [OF s(1) 2(3), of m] settledD(2) [OF s(2) 2(4), of m] by auto
  qed
  then show "length q \<le> length r" "length r \<le> m \<Longrightarrow> seq_more c (I m) (M m) r = Some (xs, q)" by auto
qed

lemma seq_more_step:
  assumes "settled I n" "settled M n" and step: "\<And>k bs. M (Suc k) bs = seq_more c (I k) (M k) bs"
  shows "settled M (Suc n)"
  unfolding settled_def
proof (intro allI impI conjI)
  fix bs v q assume p: "M (Suc n) bs = Some (v, q)"
  note s = seq_more_settled [OF assms(1,2) p [unfolded step]]
  show "length q \<le> length bs" by (rule s(1))
  fix m assume "length bs < m"
  then obtain k where "m = Suc k" "length bs \<le> k" by (cases m) auto
  then show "M m bs = Some (v, q)" using s(2) step by simp
qed

lemma pair_step:
  assumes s: "settled parse_val n"
  shows "settled parse_pair (Suc n)"
  unfolding settled_def
proof (intro allI impI)
  fix bs p q
  assume r: "parse_pair (Suc n) bs = Some (p, q)"
  obtain k j where p: "p = (k, j)" by force
  from r obtain r' r1 r2 where a: "skip_ws bs = CHR 0x22 # r'" "parse_str r' = Some (k, r1)"
      "skip_ws r1 = CHR '':'' # r2" "parse_val n r2 = Some (j, q)"
    unfolding p parse_pair.simps(2) pair_body_Some by blast
  have l: "length r2 < length bs"
    using skip_ws_length [OF a(1)] parse_str_length [OF a(2)] skip_ws_length [OF a(3)] by simp
  have v: "length q \<le> length r2" "\<And>m. length r2 < m \<Longrightarrow> parse_val m r2 = Some (j, q)"
    using settledD [OF s a(4)] by blast+
  have "parse_pair m bs = Some (p, q)" if m: "length bs < m" for m
  proof -
    obtain k' where "m = Suc k'" using m by (cases m) auto
    then show ?thesis unfolding p using a v(2) [of k'] m l by (auto simp: parse_pair.simps pair_body_Some)
  qed
  with v(1) l show "length q \<le> length bs \<and> (\<forall>m > length bs. parse_pair m bs = Some (p, q))" by simp
qed

lemma val_step:
  assumes s: "settled parse_val n" "settled parse_elems n" "settled parse_pair n" "settled parse_members n"
  shows "settled parse_val (Suc n)"
  unfolding settled_def
proof (intro allI impI)
  fix bs j q assume r: "parse_val (Suc n) bs = Some (j, q)"
  from r consider
      (obj) r' ms where "skip_ws bs = CHR ''{'' # r'"
        "seq_body (CHR ''}'') (parse_pair n) (parse_members n) r' = Some (ms, q)" "j = JObj ms"
    | (arr) r' js where "skip_ws bs = CHR ''['' # r'"
        "seq_body (CHR '']'') (parse_val n) (parse_elems n) r' = Some (js, q)" "j = JArr js"
    | (atom) c r' where "skip_ws bs = c # r'" "c \<noteq> CHR ''{''" "c \<noteq> CHR ''[''" "parse_atom (c # r') = Some (j, q)"
    unfolding parse_val.simps(2) val_body_Some by blast
  then show "length q \<le> length bs \<and> (\<forall>m > length bs. parse_val m bs = Some (j, q))"
  proof cases
    case obj
    note b = seq_body_settled [of parse_pair n parse_members, OF s(3,4) obj(2)] and l = skip_ws_length [OF obj(1)]
    have "parse_val m bs = Some (j, q)" if "length bs < m" for m
      using that b(2) [of "m - 1"] obj l by (cases m) (auto simp: parse_val.simps val_body_Some)
    with b(1) l show ?thesis by auto
  next
    case arr
    note b = seq_body_settled [of parse_val n parse_elems, OF s(1,2) arr(2)] and l = skip_ws_length [OF arr(1)]
    have "parse_val m bs = Some (j, q)" if "length bs < m" for m
      using that b(2) [of "m - 1"] arr l by (cases m) (auto simp: parse_val.simps val_body_Some)
    with b(1) l show ?thesis by auto
  next
    case atom
    have "parse_val m bs = Some (j, q)" if "length bs < m" for m
      using that atom by (cases m) (auto simp: parse_val.simps val_body_Some)
    with parse_atom_length [OF atom(4)] skip_ws_length [OF atom(1)] show ?thesis by auto
  qed
qed

lemma parse_settled:
  "settled parse_val n" "settled parse_elems n" "settled parse_pair n" "settled parse_members n"
proof (induction n)
  case (Suc n)
  {
    case 1 show ?case by (rule val_step [OF Suc.IH])
  next
    case 2 show ?case by (rule seq_more_step [where c = "CHR '']''", OF Suc.IH(1,2)]) (rule parse_elems.simps(2))
  next
    case 3 show ?case by (rule pair_step [OF Suc.IH(1)])
  next
    case 4 show ?case by (rule seq_more_step [where c = "CHR ''}''", OF Suc.IH(3,4)]) (rule parse_members.simps(2))
  }
qed (simp_all add: settled_def parse_val.simps parse_elems.simps parse_pair.simps parse_members.simps)

theorem parse_fuel:
  assumes "length bs < n"
  shows "parse_val n bs = parse_val (Suc (length bs)) bs"
proof (cases "parse_val n bs")
  case None
  show ?thesis
  proof (cases "parse_val (Suc (length bs)) bs")
    case (Some p)
    then show ?thesis using settledD(2) [OF parse_settled(1) _ assms, of "Suc (length bs)" "fst p" "snd p"] None
      by simp
  qed (simp add: None)
next
  case (Some p)
  then show ?thesis using settledD(2) [OF parse_settled(1), of n bs "fst p" "snd p" "Suc (length bs)"] by simp
qed

subsection \<open>Printed text is one line\<close>

lemma hex_char_no_nl: "d < 16 \<Longrightarrow> hex_char d \<noteq> CHR 0x0A"
  by (auto simp: hex_char_def char_eq_of_char)

lemma u_escape_no_nl: "CHR 0x0A \<notin> set (u_escape n)"
  using hex_char_no_nl [of "n div 4096 mod 16"] hex_char_no_nl [of "n div 256 mod 16"]
    hex_char_no_nl [of "n div 16 mod 16"] hex_char_no_nl [of "n mod 16"]
  by (auto simp: u_escape_def dest!: sym [of "CHR 0x0A"])

lemma esc_ascii_no_nl: "CHR 0x0A \<notin> set (esc_ascii c)"
  using u_escape_no_nl [of "of_char c"]
  by (auto simp: esc_ascii_def Let_def char_eq_of_char dest!: sym [of "CHR 0x0A"])

lemma rune_bytes_high:
  assumes "1 < rune_len bs" and "b \<in> set (take (rune_len bs) bs)"
  shows "128 \<le> (of_char b :: nat)"
proof -
  obtain c r where bs: "bs = c # r" using assms(1) by (cases bs) auto
  have w: "tail_ok (of_char c) (take (rune_len bs - 1) r)"
    using assms(1) bs by (auto simp: rune_len_def Let_def split: if_splits)
  have "take (rune_len bs) bs = c # take (rune_len bs - 1) r"
    using assms(1) bs by (simp add: take_Cons')
  then consider "b = c" | "b \<in> set (take (rune_len bs - 1) r)" using assms(2) by auto
  then show ?thesis using tail_ok_high [OF w] rune_len_wide(1) [OF assms(1)] bs by cases auto
qed

lemma json_body_no_nl: "CHR 0x0A \<notin> set (json_body bs)"
proof (induction bs rule: json_body.induct)
  case (1 bs)
  have "CHR 0x0A \<notin> set (esc_wide (take (rune_len bs) bs))" if "1 < rune_len bs"
    using rune_bytes_high [OF that, of "CHR 0x0A"] u_escape_no_nl by (auto simp: esc_wide_def)
  moreover have "rune_len bs = 0 \<or> rune_len bs = 1 \<or> 1 < rune_len bs" by linarith
  ultimately show ?case
    using 1 esc_ascii_no_nl by (subst json_body.simps) auto
qed

lemma show_int_no_nl: "CHR 0x0A \<notin> set (show_int i)"
proof -
  have "CHR 0x0A \<notin> set (show_nat n)" for n
    using show_nat_digits [of n] by (auto simp: is_digit_def)
  then show ?thesis by (simp add: show_int_def)
qed

lemma print_no_nl:
  "nums_ok j \<Longrightarrow> CHR 0x0A \<notin> set (print_json j)"
  "(\<forall>j \<in> set js. nums_ok j) \<Longrightarrow> CHR 0x0A \<notin> set (print_elems js)"
  "(\<forall>(k, j) \<in> set ms. nums_ok j) \<Longrightarrow> CHR 0x0A \<notin> set (print_members ms)"
proof (induction j and js and ms rule: print_json_print_elems_print_members.induct)
  case (3 s)
  then show ?case using show_int_no_nl by auto
next
  case (5 js)
  then show ?case by (cases js) auto
next
  case (6 ms)
  show ?case
  proof (cases ms)
    case (Cons m r)
    obtain k j where m: "m = (k, j)" by force
    show ?thesis using 6(1) [OF Cons m [symmetric]] 6(2) [OF Cons m [symmetric]] 6(3) Cons m
      by (simp add: json_string_def json_body_no_nl)
  qed simp
qed (auto simp: json_string_def json_body_no_nl)

lemma print_members_last: "last (print_members ms) = CHR ''}''" "print_members ms \<noteq> []"
proof -
  show ne: "print_members ms \<noteq> []" for ms by (induction ms) auto
  show "last (print_members ms) = CHR ''}''"
  proof (induction ms)
    case (Cons m ms)
    then show ?case using ne by (cases m) simp
  qed simp
qed

lemma print_obj_ends:
  "\<exists>t. print_json (JObj ms) = CHR ''{'' # t @ ''}''"
proof (cases ms)
  case (Cons m r)
  obtain k j where m: "m = (k, j)" by force
  obtain u where "print_members r = u @ ''}''"
    by (metis print_members_last append_butlast_last_id)
  then show ?thesis using Cons m by simp
qed auto

lemma parse_json_print_line:
  assumes "wf_json (JObj ms)"
  shows "parse_json (print_json (JObj ms) @ [CHR 0x0A]) = Some (JObj ms)"
  using parse_print(1) [OF assms, of "Suc (length (print_json (JObj ms) @ [CHR 0x0A]))" "[CHR 0x0A]"]
  by (simp add: parse_json_def is_num_def is_ws_def del: print_json.simps)

end
