(* ===== verification/V2_Wal.thy ===== *)
theory V2_Wal
  imports V2_Types Go_Json Go_Strings "HOL-Library.Product_Lexorder"
begin

text \<open>
  The write-ahead log of \<^verbatim>\<open>pkg/v2/core.go\<close> and the identity scan \<^verbatim>\<open>ReplayIDs\<close> of
  \<^verbatim>\<open>recovery.go\<close>, at the level of the bytes of the file: records are marshalled to JSON,
  carry a CRC-32 of their contents and end in a newline; replaying splits the file into lines,
  trims and unmarshals each, verifies the checksum and folds prepare, commit and abort records
  into the set of pending transactions.

  The law the replay rests on, that lines come back as the records that were written and that a
  cut-off record is no record, is the locale \<open>line_codec\<close>, interpreted on the JSON codec of
  \<^verbatim>\<open>WALRecord\<close>. The theorems: replaying a log written by any sequence of appends, commits and
  aborts returns exactly the transactions whose last prepare has no later marker, ordered by
  partition and sequence; a torn last record changes nothing for \<^verbatim>\<open>Replay\<close>, while
  \<^verbatim>\<open>ReplayIDs\<close> reports corruption.
\<close>

subsection \<open>Records and their JSON form\<close>

record WALRecord =
  wr_Kind :: string
  wr_Tx :: Tx
  wr_ID :: string
  wr_Checksum :: u32

definition zero_WALRecord :: WALRecord where
  "zero_WALRecord = \<lparr>wr_Kind = '''', wr_Tx = zero_Tx, wr_ID = '''', wr_Checksum = 0\<rparr>"

definition marshal_Tx :: "Tx \<Rightarrow> json" where
  "marshal_Tx tx = JObj
     [(''id'', JStr (tx_ID tx)),
      (''key'', JStr (tx_Key tx)),
      (''payload'', case tx_Payload tx of None \<Rightarrow> JNull | Some b \<Rightarrow> JStr (b64_encode b)),
      (''partition'', JNum (show_int (tx_Partition tx))),
      (''sequence'', JNum (show_int (uint (tx_Sequence tx))))]"

text \<open>
  \<^verbatim>\<open>omitempty\<close> drops an empty \<^verbatim>\<open>ID\<close>; on the struct \<^verbatim>\<open>Tx\<close> it has no effect.
\<close>

definition record_members :: "WALRecord \<Rightarrow> (bytes \<times> json) list" where
  "record_members r =
     [(''kind'', JStr (wr_Kind r)), (''tx'', marshal_Tx (wr_Tx r))]
     @ (if wr_ID r = '''' then [] else [(''id'', JStr (wr_ID r))])
     @ [(''checksum'', JNum (show_int (uint (wr_Checksum r))))]"

definition marshal_WALRecord :: "WALRecord \<Rightarrow> bytes" where
  "marshal_WALRecord r = print_json (JObj (record_members r))"

definition recordChecksum :: "string \<Rightarrow> Tx \<Rightarrow> string \<Rightarrow> u32" where
  "recordChecksum k tx txID =
     crc32_ieee (print_json (JObj [(''K'', JStr k), (''T'', marshal_Tx tx), (''I'', JStr txID)]))"

subsection \<open>Unmarshalling\<close>

text \<open>
  A JSON object is decoded member by member into the fields of a struct: a key selects the field
  of that name or else the first whose name agrees under case folding (which also folds the Kelvin
  sign to K and the long s to S), other keys are skipped, later members overwrite earlier ones and
  \<^verbatim>\<open>null\<close> leaves a field as it is, a slice excepted. A type mismatch makes the whole call
  fail, so the first one decides.
\<close>

fun fold_name :: "bytes \<Rightarrow> bytes" where
  "fold_name (a # b # c # r) =
     (if [a, b, c] = [CHR 0xE2, CHR 0x84, CHR 0xAA] then CHR ''K'' # fold_name r
      else if [a, b] = [CHR 0xC5, CHR 0xBF] then CHR ''S'' # fold_name (c # r)
      else (if byte_in 97 122 a then char_of (of_char a - 32 :: nat) else a) # fold_name (b # c # r))"
| "fold_name [a, b] =
     (if [a, b] = [CHR 0xC5, CHR 0xBF] then ''S''
      else (if byte_in 97 122 a then char_of (of_char a - 32 :: nat) else a) # fold_name [b])"
| "fold_name [a] = [if byte_in 97 122 a then char_of (of_char a - 32 :: nat) else a]"
| "fold_name [] = []"

definition field_of :: "string list \<Rightarrow> bytes \<Rightarrow> string option" where
  "field_of fs k = (if k \<in> set fs then Some k else List.find (\<lambda>f. fold_name f = fold_name k) fs)"

definition dec_string :: "json \<Rightarrow> string \<Rightarrow> string option" where
  "dec_string j old = (case j of JStr s \<Rightarrow> Some s | JNull \<Rightarrow> Some old | _ \<Rightarrow> None)"

text \<open>\<^verbatim>\<open>strconv.ParseInt\<close> and \<^verbatim>\<open>ParseUint\<close> on a number literal, with the range of the field.\<close>

definition num_val :: "string \<Rightarrow> int option" where
  "num_val s =
     (case s of
        [] \<Rightarrow> None
      | c # r \<Rightarrow> if c = CHR ''-''
                 then (if r \<noteq> [] \<and> list_all is_digit r then Some (- int (digits_val r)) else None)
                 else if list_all is_digit s then Some (int (digits_val s)) else None)"

definition dec_int :: "json \<Rightarrow> int \<Rightarrow> int option" where
  "dec_int j old =
     (case j of
        JNum s \<Rightarrow> (case num_val s of
                     Some v \<Rightarrow> if - (2 ^ 63) \<le> v \<and> v < 2 ^ 63 then Some v else None
                   | None \<Rightarrow> None)
      | JNull \<Rightarrow> Some old
      | _ \<Rightarrow> None)"

definition dec_uint :: "int \<Rightarrow> json \<Rightarrow> int \<Rightarrow> int option" where
  "dec_uint bound j old =
     (case j of
        JNum s \<Rightarrow> (case num_val s of
                     Some v \<Rightarrow> if hd s \<noteq> CHR ''-'' \<and> v < bound then Some v else None
                   | None \<Rightarrow> None)
      | JNull \<Rightarrow> Some old
      | _ \<Rightarrow> None)"

text \<open>
  A byte slice is written as base64 text; the decoder also takes an array of numbers below 256.
\<close>

fun dec_byte_elems :: "json list \<Rightarrow> bytes option" where
  "dec_byte_elems [] = Some []"
| "dec_byte_elems (j # js) =
     (case (dec_uint 256 j 0, dec_byte_elems js) of
        (Some v, Some bs) \<Rightarrow> Some (char_of (nat v) # bs)
      | _ \<Rightarrow> None)"

definition dec_bytes :: "json \<Rightarrow> bytes option option" where
  "dec_bytes j =
     (case j of
        JNull \<Rightarrow> Some None
      | JStr s \<Rightarrow> map_option Some (b64_decode s)
      | JArr js \<Rightarrow> map_option Some (dec_byte_elems js)
      | _ \<Rightarrow> None)"

definition dec_Tx_member :: "bytes \<times> json \<Rightarrow> Tx \<Rightarrow> Tx option" where
  "dec_Tx_member m tx =
     (case m of (k, j) \<Rightarrow>
        (case field_of [''id'', ''key'', ''payload'', ''partition'', ''sequence''] k of
           None \<Rightarrow> Some tx
         | Some f \<Rightarrow>
             if f = ''id'' then map_option (\<lambda>s. tx\<lparr>tx_ID := s\<rparr>) (dec_string j (tx_ID tx))
             else if f = ''key'' then map_option (\<lambda>s. tx\<lparr>tx_Key := s\<rparr>) (dec_string j (tx_Key tx))
             else if f = ''payload'' then map_option (\<lambda>b. tx\<lparr>tx_Payload := b\<rparr>) (dec_bytes j)
             else if f = ''partition''
               then map_option (\<lambda>v. tx\<lparr>tx_Partition := v\<rparr>) (dec_int j (tx_Partition tx))
             else map_option (\<lambda>v. tx\<lparr>tx_Sequence := word_of_int v\<rparr>)
                    (dec_uint (2 ^ 64) j (uint (tx_Sequence tx)))))"

fun dec_members :: "(bytes \<times> json \<Rightarrow> 'r \<Rightarrow> 'r option) \<Rightarrow> (bytes \<times> json) list \<Rightarrow> 'r \<Rightarrow> 'r option" where
  "dec_members f [] r = Some r"
| "dec_members f (m # ms) r = (case f m r of None \<Rightarrow> None | Some r' \<Rightarrow> dec_members f ms r')"

definition dec_struct :: "(bytes \<times> json \<Rightarrow> 'r \<Rightarrow> 'r option) \<Rightarrow> json \<Rightarrow> 'r \<Rightarrow> 'r option" where
  "dec_struct f j r = (case j of JObj ms \<Rightarrow> dec_members f ms r | JNull \<Rightarrow> Some r | _ \<Rightarrow> None)"

definition dec_record_member :: "bytes \<times> json \<Rightarrow> WALRecord \<Rightarrow> WALRecord option" where
  "dec_record_member m r =
     (case m of (k, j) \<Rightarrow>
        (case field_of [''kind'', ''tx'', ''id'', ''checksum''] k of
           None \<Rightarrow> Some r
         | Some f \<Rightarrow>
             if f = ''kind'' then map_option (\<lambda>s. r\<lparr>wr_Kind := s\<rparr>) (dec_string j (wr_Kind r))
             else if f = ''tx'' then map_option (\<lambda>t. r\<lparr>wr_Tx := t\<rparr>) (dec_struct dec_Tx_member j (wr_Tx r))
             else if f = ''id'' then map_option (\<lambda>s. r\<lparr>wr_ID := s\<rparr>) (dec_string j (wr_ID r))
             else map_option (\<lambda>v. r\<lparr>wr_Checksum := word_of_int v\<rparr>)
                    (dec_uint (2 ^ 32) j (uint (wr_Checksum r)))))"

definition unmarshal_WALRecord :: "bytes \<Rightarrow> WALRecord option" where
  "unmarshal_WALRecord line =
     (case parse_json line of
        None \<Rightarrow> None
      | Some j \<Rightarrow> dec_struct dec_record_member j zero_WALRecord)"

subsection \<open>Lines and white space\<close>

text \<open>\<^verbatim>\<open>ReadBytes\<close> with a newline: the complete lines, each with its newline, and the rest.\<close>

fun read_lines :: "bytes \<Rightarrow> bytes list \<times> bytes" where
  "read_lines [] = ([], [])"
| "read_lines (c # r) =
     (case read_lines r of (ls, t) \<Rightarrow>
        if c = CHR 0x0A then ([c] # ls, t)
        else (case ls of [] \<Rightarrow> ([], c # t) | l # ls' \<Rightarrow> ((c # l) # ls', t)))"

subsection \<open>The log file\<close>

text \<open>
  The contents of the file, opened for appending. The operating system's part of an operation is
  an argument: whether the write, the sync, the seek or the read fails, and how much it did.
\<close>

record WAL =
  wal_data :: bytes
  wal_syncOnWrite :: bool
  wal_closed :: bool

datatype write_result = WriteOk | WriteFail nat string

record wal_io =
  io_write :: write_result
  io_sync :: "string option"

definition io_ok :: wal_io where
  "io_ok = \<lparr>io_write = WriteOk, io_sync = None\<rparr>"

text \<open>An empty path gives no log at all; the file starts with what it already holds.\<close>

definition OpenWAL :: "string \<Rightarrow> bool \<Rightarrow> string + bytes \<Rightarrow> err + WAL option" where
  "OpenWAL path sync os_open =
     (if path = '''' then Inr None
      else (case os_open of
              Inl e \<Rightarrow> Inl (ErrOther e)
            | Inr d \<Rightarrow> Inr (Some \<lparr>wal_data = d, wal_syncOnWrite = sync, wal_closed = False\<rparr>)))"

definition appendRecord :: "wal_io \<Rightarrow> WALRecord \<Rightarrow> WAL \<Rightarrow> err option \<times> WAL" where
  "appendRecord io r w =
     (if wal_closed w then (Some (ErrOther ''file already closed''), w)
      else (let b = marshal_WALRecord r @ [CHR 0x0A]
            in case io_write io of
                 WriteFail n e \<Rightarrow> (Some (ErrOther e), w\<lparr>wal_data := wal_data w @ take n b\<rparr>)
               | WriteOk \<Rightarrow>
                   (let w' = w\<lparr>wal_data := wal_data w @ b\<rparr>
                    in if wal_syncOnWrite w then (map_option ErrOther (io_sync io), w') else (None, w'))))"

definition prepare_record :: "Tx \<Rightarrow> WALRecord" where
  "prepare_record tx = \<lparr>wr_Kind = ''prepare'', wr_Tx = tx, wr_ID = '''',
     wr_Checksum = recordChecksum ''prepare'' tx ''''\<rparr>"

definition mark_record :: "string \<Rightarrow> string \<Rightarrow> WALRecord" where
  "mark_record k txID = \<lparr>wr_Kind = k, wr_Tx = zero_Tx, wr_ID = txID, wr_Checksum = recordChecksum k zero_Tx txID\<rparr>"

definition wal_Append :: "wal_io \<Rightarrow> Tx \<Rightarrow> WAL option \<Rightarrow> err option \<times> WAL option" where
  "wal_Append io tx wo =
     (case wo of None \<Rightarrow> (None, None)
      | Some w \<Rightarrow> (case appendRecord io (prepare_record tx) w of (e, w') \<Rightarrow> (e, Some w')))"

definition wal_Commit :: "wal_io \<Rightarrow> string \<Rightarrow> WAL option \<Rightarrow> err option \<times> WAL option" where
  "wal_Commit io txID wo =
     (case wo of None \<Rightarrow> (None, None)
      | Some w \<Rightarrow> (case appendRecord io (mark_record ''commit'' txID) w of (e, w') \<Rightarrow> (e, Some w')))"

definition wal_Abort :: "wal_io \<Rightarrow> string \<Rightarrow> WAL option \<Rightarrow> err option \<times> WAL option" where
  "wal_Abort io txID wo =
     (case wo of None \<Rightarrow> (None, None)
      | Some w \<Rightarrow> (case appendRecord io (mark_record ''abort'' txID) w of (e, w') \<Rightarrow> (e, Some w')))"

definition wal_Close :: "WAL option \<Rightarrow> err option \<times> WAL option" where
  "wal_Close wo =
     (case wo of None \<Rightarrow> (None, None)
      | Some w \<Rightarrow> if wal_closed w then (Some (ErrOther ''file already closed''), wo)
                  else (None, Some (w\<lparr>wal_closed := True\<rparr>)))"

subsection \<open>Replay\<close>

definition apply_record :: "WALRecord \<Rightarrow> (string, Tx) gomap \<Rightarrow> err + (string, Tx) gomap" where
  "apply_record rec pending =
     (if wr_Checksum rec \<noteq> recordChecksum (wr_Kind rec) (wr_Tx rec) (wr_ID rec) then Inl ErrWALCorrupt
      else if wr_Kind rec = ''prepare'' then Inr (AList.update (tx_ID (wr_Tx rec)) (wr_Tx rec) pending)
      else if wr_Kind rec = ''commit'' \<or> wr_Kind rec = ''abort'' then Inr (AList.delete (wr_ID rec) pending)
      else Inl ErrWALCorrupt)"

text \<open>The rounds of the loop that read a whole line, then the last one, which meets \<open>e\<close>.\<close>

fun replay_lines :: "bytes list \<Rightarrow> (string, Tx) gomap \<Rightarrow> err + (string, Tx) gomap" where
  "replay_lines [] pending = Inr pending"
| "replay_lines (l # ls) pending =
     (let line = TrimSpace l
      in if line = [] then replay_lines ls pending
         else (case unmarshal_WALRecord line of
                 None \<Rightarrow> Inl ErrWALCorrupt
               | Some rec \<Rightarrow>
                   (case apply_record rec pending of
                      Inl e \<Rightarrow> Inl e
                    | Inr pending' \<Rightarrow> replay_lines ls pending')))"

definition replay_tail :: "bytes \<Rightarrow> string option \<Rightarrow> (string, Tx) gomap \<Rightarrow> err + (string, Tx) gomap" where
  "replay_tail t e pending =
     (if t = [] then (case e of None \<Rightarrow> Inr pending | Some m \<Rightarrow> Inl (ErrOther m))
      else (let line = TrimSpace t
            in if line = [] then Inr pending
               else (case unmarshal_WALRecord line of
                       None \<Rightarrow> if e = None then Inr pending else Inl ErrWALCorrupt
                     | Some rec \<Rightarrow> apply_record rec pending)))"

text \<open>What \<^verbatim>\<open>Seek\<close> and the reads do: the bytes delivered and the error after them, if not EOF.\<close>

record read_io =
  rd_seek :: "string option"
  rd_stop :: "(nat \<times> string) option"

definition rd_ok :: read_io where
  "rd_ok = \<lparr>rd_seek = None, rd_stop = None\<rparr>"

definition rd_data :: "read_io \<Rightarrow> bytes \<Rightarrow> bytes \<times> string option" where
  "rd_data rd d = (case rd_stop rd of None \<Rightarrow> (d, None) | Some (n, m) \<Rightarrow> (take n d, Some m))"

abbreviation tx_key :: "Tx \<Rightarrow> int \<times> u64" where
  "tx_key tx \<equiv> (tx_Partition tx, tx_Sequence tx)"

definition tx_before :: "Tx \<Rightarrow> Tx \<Rightarrow> bool" where
  "tx_before a b =
     (if tx_Partition a = tx_Partition b then tx_Sequence a < tx_Sequence b
      else tx_Partition a < tx_Partition b)"

text \<open>
  The pending transactions leave the map in the order \<open>it\<close> the runtime chooses and are sorted;
  \<^verbatim>\<open>sort.Slice\<close> orders equal elements in some way, which \<open>it\<close> covers as well.
\<close>

definition Replay :: "(Tx list \<Rightarrow> Tx list) \<Rightarrow> read_io \<Rightarrow> WAL option \<Rightarrow> err + Tx list" where
  "Replay it rd wo =
     (case wo of
        None \<Rightarrow> Inr []
      | Some w \<Rightarrow>
          if wal_closed w then Inl (ErrOther ''file already closed'')
          else (case rd_seek rd of
             Some m \<Rightarrow> Inl (ErrOther m)
           | None \<Rightarrow>
               (let (d, e) = rd_data rd (wal_data w); (ls, t) = read_lines d
                in case replay_lines ls [] of
                     Inl x \<Rightarrow> Inl x
                   | Inr p \<Rightarrow>
                       (case replay_tail t e p of
                          Inl x \<Rightarrow> Inl x
                        | Inr pending \<Rightarrow> Inr (sort_key tx_key (it (map snd pending)))))))"

subsection \<open>The identity scan\<close>

definition note_id :: "WALRecord \<Rightarrow> string list \<Rightarrow> string list" where
  "note_id rec ids = (if wr_Kind rec = ''prepare'' then List.insert (tx_ID (wr_Tx rec)) ids else ids)"

definition scan_line :: "bytes \<Rightarrow> string list \<Rightarrow> err + string list" where
  "scan_line line ids =
     (case unmarshal_WALRecord line of
        None \<Rightarrow> Inl ErrWALCorrupt
      | Some rec \<Rightarrow>
          if wr_Checksum rec \<noteq> recordChecksum (wr_Kind rec) (wr_Tx rec) (wr_ID rec) then Inl ErrWALCorrupt
          else Inr (note_id rec ids))"

fun scan_lines :: "bytes list \<Rightarrow> string list \<Rightarrow> err + string list" where
  "scan_lines [] ids = Inr ids"
| "scan_lines (l # ls) ids = (case scan_line l ids of Inl e \<Rightarrow> Inl e | Inr ids' \<Rightarrow> scan_lines ls ids')"

definition scan_tail :: "bytes \<Rightarrow> string option \<Rightarrow> string list \<Rightarrow> err + string list" where
  "scan_tail t e ids =
     (if t = [] then (case e of None \<Rightarrow> Inr ids | Some m \<Rightarrow> Inl (ErrOther m)) else scan_line t ids)"

definition ReplayIDs :: "read_io \<Rightarrow> WAL option \<Rightarrow> err + string list" where
  "ReplayIDs rd wo =
     (case wo of
        None \<Rightarrow> Inr []
      | Some w \<Rightarrow>
          if wal_closed w then Inl (ErrOther ''file already closed'')
          else (case rd_seek rd of
             Some m \<Rightarrow> Inl (ErrOther m)
           | None \<Rightarrow>
               (let (d, e) = rd_data rd (wal_data w); (ls, t) = read_lines d
                in case scan_lines ls [] of Inl x \<Rightarrow> Inl x | Inr ids \<Rightarrow> scan_tail t e ids)))"

subsection \<open>The contract of a line codec\<close>

definition log_bytes :: "('r \<Rightarrow> bytes) \<Rightarrow> 'r list \<Rightarrow> bytes" where
  "log_bytes enc rs = concat (map (\<lambda>r. enc r @ [CHR 0x0A]) rs)"

lemma read_lines_line: "CHR 0x0A \<notin> set l \<Longrightarrow> read_lines (l @ CHR 0x0A # r) =
    (case read_lines r of (ls, t) \<Rightarrow> ((l @ [CHR 0x0A]) # ls, t))"
  by (induction l) (auto split: prod.splits)

lemma read_lines_tail: "CHR 0x0A \<notin> set t \<Longrightarrow> read_lines t = ([], t)"
  by (induction t) auto

lemma read_lines_log:
  assumes "\<forall>r \<in> set rs. CHR 0x0A \<notin> set (enc r)" and "CHR 0x0A \<notin> set t"
  shows "read_lines (log_bytes enc rs @ t) = (map (\<lambda>r. enc r @ [CHR 0x0A]) rs, t)"
  using assms
proof (induction rs)
  case Nil
  then show ?case by (simp add: log_bytes_def read_lines_tail)
next
  case (Cons r rs)
  then show ?case using read_lines_line [of "enc r" "log_bytes enc rs @ t"] by (simp add: log_bytes_def)
qed

text \<open>
  What the replay needs of a way to write records as lines: an encoding has no newline and is not
  blank, decoding inverts it (with or without the newline and after trimming), and no proper
  prefix of an encoding decodes.
\<close>

locale line_codec =
  fixes enc :: "'r \<Rightarrow> bytes"
    and dec :: "bytes \<Rightarrow> 'r option"
    and trim :: "bytes \<Rightarrow> bytes"
    and ok :: "'r \<Rightarrow> bool"
  assumes enc_line: "ok r \<Longrightarrow> CHR 0x0A \<notin> set (enc r)"
    and enc_not_blank: "ok r \<Longrightarrow> enc r \<noteq> []"
    and trim_line: "ok r \<Longrightarrow> trim (enc r @ [CHR 0x0A]) = enc r"
    and dec_enc: "ok r \<Longrightarrow> dec (enc r) = Some r"
    and dec_line: "ok r \<Longrightarrow> dec (enc r @ [CHR 0x0A]) = Some r"
    and dec_torn: "ok r \<Longrightarrow> enc r = p @ x \<Longrightarrow> x \<noteq> [] \<Longrightarrow> dec p = None \<and> dec (trim p) = None"
begin

text \<open>A log followed by a torn record splits into its lines and the torn part.\<close>

lemma read_log:
  assumes "list_all ok rs" and "CHR 0x0A \<notin> set t"
  shows "read_lines (log_bytes enc rs @ t) = (map (\<lambda>r. enc r @ [CHR 0x0A]) rs, t)"
  using assms enc_line by (intro read_lines_log) (auto simp: list_all_iff)

lemma torn_no_newline: "ok r \<Longrightarrow> enc r = p @ x \<Longrightarrow> CHR 0x0A \<notin> set p"
  using enc_line by fastforce

end

subsection \<open>The JSON codec of the records meets it\<close>

definition tx_ok :: "Tx \<Rightarrow> bool" where
  "tx_ok tx \<longleftrightarrow> utf8_valid (tx_ID tx) \<and> utf8_valid (tx_Key tx)
     \<and> - (2 ^ 63) \<le> tx_Partition tx \<and> tx_Partition tx < 2 ^ 63"

definition record_ok :: "WALRecord \<Rightarrow> bool" where
  "record_ok r \<longleftrightarrow> utf8_valid (wr_Kind r) \<and> tx_ok (wr_Tx r) \<and> utf8_valid (wr_ID r)"

lemma num_val_show_int: "num_val (show_int i) = Some i"
proof (cases "i < 0")
  case True
  then show ?thesis
    using show_nat_digits [of "nat (- i)"] by (simp add: num_val_def show_int_def list_all_iff)
next
  case False
  obtain c t where s: "show_nat (nat i) = c # t" by (cases "show_nat (nat i)") auto
  then have "c \<noteq> CHR ''-''" using show_nat_digits [of "nat i"] by (auto simp: is_digit_def)
  then show ?thesis
    using False s show_nat_digits [of "nat i"] digits_val_show_nat [of "nat i"]
    by (simp add: num_val_def show_int_def list_all_iff)
qed

lemma show_int_hd: "0 \<le> i \<Longrightarrow> hd (show_int i) \<noteq> CHR ''-''"
  using show_nat_digits [of "nat i"] by (cases "show_nat (nat i)") (auto simp: show_int_def is_digit_def)

lemma dec_num [simp]:
  "- (2 ^ 63) \<le> i \<Longrightarrow> i < 2 ^ 63 \<Longrightarrow> dec_int (JNum (show_int i)) old = Some i"
  "0 \<le> i \<Longrightarrow> i < b \<Longrightarrow> dec_uint b (JNum (show_int i)) old = Some i"
  by (simp_all add: dec_int_def dec_uint_def num_val_show_int show_int_hd)

lemma dec_payload [simp]:
  "dec_bytes (case p of None \<Rightarrow> JNull | Some b \<Rightarrow> JStr (b64_encode b)) = Some p"
  by (cases p) (simp_all add: dec_bytes_def b64_round)

lemma dec_string_JStr [simp]: "dec_string (JStr s) old = Some s"
  by (simp add: dec_string_def)

lemma field_of_exact: "k \<in> set fs \<Longrightarrow> field_of fs k = Some k"
  by (simp add: field_of_def)

lemma dec_Tx_marshal:
  assumes "- (2 ^ 63) \<le> tx_Partition tx" and "tx_Partition tx < 2 ^ 63"
  shows "dec_struct dec_Tx_member (marshal_Tx tx) t0 = Some tx"
proof -
  have q: "uint (tx_Sequence tx) < 2 ^ 64" using uint_lt2p [of "tx_Sequence tx"] by simp
  show ?thesis
    using assms q by (simp add: dec_struct_def marshal_Tx_def dec_Tx_member_def field_of_exact)
qed

lemma dec_members_append:
  "dec_members f (xs @ ys) r = (case dec_members f xs r of None \<Rightarrow> None | Some r' \<Rightarrow> dec_members f ys r')"
  by (induction xs arbitrary: r) (auto split: option.splits)

lemma dec_record_marshal:
  assumes "record_ok r"
  shows "dec_struct dec_record_member (JObj (record_members r)) zero_WALRecord = Some r"
proof -
  have t: "dec_struct dec_Tx_member (marshal_Tx (wr_Tx r)) t0 = Some (wr_Tx r)" for t0
    using assms dec_Tx_marshal by (simp add: record_ok_def tx_ok_def)
  have q: "uint (wr_Checksum r) < 2 ^ 32" using uint_lt2p [of "wr_Checksum r"] by simp
  show ?thesis
    using t q
    by (cases "wr_ID r = ''''")
      (simp_all add: dec_struct_def [of dec_record_member] record_members_def dec_record_member_def
        field_of_exact zero_WALRecord_def)
qed

lemma utf8_valid_names [simp]:
  "utf8_valid ''id''" "utf8_valid ''key''" "utf8_valid ''payload''" "utf8_valid ''partition''"
  "utf8_valid ''sequence''" "utf8_valid ''kind''" "utf8_valid ''tx''" "utf8_valid ''checksum''"
  "utf8_valid ''prepare''" "utf8_valid ''commit''" "utf8_valid ''abort''"
  by (rule utf8_valid_ascii; simp)+

lemma wf_record: "record_ok r \<Longrightarrow> wf_json (JObj (record_members r))"
  using utf8_valid_ascii b64_encode_plain
  by (auto simp: record_ok_def tx_ok_def record_members_def marshal_Tx_def split: option.split)

lemma strip_left_keep: "List.find (\<lambda>s. starts_with s bs) seqs = None \<Longrightarrow> strip_left n seqs bs = bs"
  by (cases n) auto

lemma find_space_brace: "List.find (\<lambda>s. starts_with s (CHR ''{'' # t)) space_seqs = None"
  by (simp add: space_seqs_def starts_with_def find_None_iff)

lemma find_space_brace_rev: "List.find (\<lambda>s. starts_with s (CHR ''}'' # t)) (map rev space_seqs) = None"
  by (simp add: space_seqs_def starts_with_def find_None_iff)

lemma strip_left_drop: "\<exists>k. strip_left n seqs bs = drop k bs"
proof (induction n arbitrary: bs)
  case (Suc n)
  show ?case
  proof (cases "List.find (\<lambda>s. starts_with s bs) seqs")
    case (Some s)
    then obtain k where "strip_left n seqs (drop (length s) bs) = drop k (drop (length s) bs)"
      using Suc by blast
    then show ?thesis using Some by (auto intro: exI [of _ "k + length s"])
  qed (auto intro: exI [of _ 0])
qed (auto intro: exI [of _ 0])

lemma TrimSpace_prefix: "\<exists>y. CHR ''{'' # t = TrimSpace (CHR ''{'' # t) @ y"
proof -
  define xs where "xs = CHR ''{'' # t"
  have l: "strip_left (length xs) space_seqs xs = xs"
    unfolding xs_def by (rule strip_left_keep [OF find_space_brace])
  obtain k where k: "strip_left (length xs) (map rev space_seqs) (rev xs) = drop k (rev xs)"
    using strip_left_drop by blast
  have "TrimSpace xs = take (length xs - k) xs"
    unfolding TrimSpace_def Let_def l k by (simp add: rev_drop)
  then show ?thesis unfolding xs_def [symmetric] by (metis append_take_drop_id)
qed

lemma TrimSpace_Nil: "TrimSpace [] = []"
  by (simp add: TrimSpace_def)

lemma TrimSpace_line: "TrimSpace ((CHR ''{'' # t @ ''}'') @ [CHR 0x0A]) = CHR ''{'' # t @ ''}''"
proof -
  let ?s = "CHR 0x0A # CHR ''}'' # rev t @ ''{''"
  have f: "List.find (\<lambda>s. starts_with s ?s) (map rev space_seqs) = Some [CHR 0x0A]"
    by (simp add: space_seqs_def starts_with_def)
  have "strip_left (Suc n) (map rev space_seqs) ?s = CHR ''}'' # rev t @ ''{''" for n
    by (simp add: f strip_left_keep [OF find_space_brace_rev] del: map_map list.map)
  then show ?thesis
    by (simp add: TrimSpace_def strip_left_keep [OF find_space_brace] del: strip_left.simps)
qed

interpretation wal: line_codec marshal_WALRecord unmarshal_WALRecord TrimSpace record_ok
proof
  fix r assume ok: "record_ok r"
  let ?o = "JObj (record_members r)"
  note wf = wf_record [OF ok]
  obtain t where t: "print_json ?o = CHR ''{'' # t @ ''}''" using print_obj_ends by blast
  show "CHR 0x0A \<notin> set (marshal_WALRecord r)"
    using print_no_nl(1) [of ?o] wf_clean [OF wf] by (simp add: marshal_WALRecord_def)
  show "marshal_WALRecord r \<noteq> []" by (simp add: marshal_WALRecord_def t)
  show "TrimSpace (marshal_WALRecord r @ [CHR 0x0A]) = marshal_WALRecord r"
    unfolding marshal_WALRecord_def t by (rule TrimSpace_line)
  show "unmarshal_WALRecord (marshal_WALRecord r) = Some r"
    using parse_json_print_obj [OF wf] dec_record_marshal [OF ok]
    by (simp add: unmarshal_WALRecord_def marshal_WALRecord_def)
  show "unmarshal_WALRecord (marshal_WALRecord r @ [CHR 0x0A]) = Some r"
    using parse_json_print_line [OF wf] dec_record_marshal [OF ok]
    by (simp add: unmarshal_WALRecord_def marshal_WALRecord_def)
  fix p x assume px: "marshal_WALRecord r = p @ x" "x \<noteq> []"
  then have eq: "print_json ?o = p @ x" by (simp add: marshal_WALRecord_def)
  have "\<exists>y. p = TrimSpace p @ y"
  proof (cases p)
    case (Cons c u)
    then have "c = CHR ''{''" using eq t by simp
    then show ?thesis using TrimSpace_prefix [of u] Cons by simp
  qed (simp add: TrimSpace_Nil)
  then obtain y where "print_json ?o = TrimSpace p @ (y @ x)" using eq by (metis append.assoc)
  then show "unmarshal_WALRecord p = None \<and> unmarshal_WALRecord (TrimSpace p) = None"
    using parse_json_truncated [OF wf eq px(2)] parse_json_truncated [OF wf, of "TrimSpace p" "y @ x"] px(2)
    by (simp add: unmarshal_WALRecord_def)
qed

subsection \<open>Runs of the log\<close>

datatype wal_op = WPrepare Tx | WCommit string | WAbort string

fun op_id :: "wal_op \<Rightarrow> string" where
  "op_id (WPrepare tx) = tx_ID tx"
| "op_id (WCommit i) = i"
| "op_id (WAbort i) = i"

fun op_ok :: "wal_op \<Rightarrow> bool" where
  "op_ok (WPrepare tx) = tx_ok tx"
| "op_ok (WCommit i) = utf8_valid i"
| "op_ok (WAbort i) = utf8_valid i"

fun op_record :: "wal_op \<Rightarrow> WALRecord" where
  "op_record (WPrepare tx) = prepare_record tx"
| "op_record (WCommit i) = mark_record ''commit'' i"
| "op_record (WAbort i) = mark_record ''abort'' i"

fun wal_do :: "wal_io \<Rightarrow> wal_op \<Rightarrow> WAL option \<Rightarrow> err option \<times> WAL option" where
  "wal_do io (WPrepare tx) w = wal_Append io tx w"
| "wal_do io (WCommit i) w = wal_Commit io i w"
| "wal_do io (WAbort i) w = wal_Abort io i w"

fun wal_run :: "wal_op list \<Rightarrow> WAL option \<Rightarrow> WAL option" where
  "wal_run [] w = w"
| "wal_run (op # ops) w = wal_run ops (snd (wal_do io_ok op w))"

lemma wal_do_eq:
  "wal_do io op (Some w) = (case appendRecord io (op_record op) w of (e, w') \<Rightarrow> (e, Some w'))"
  by (cases op) (simp_all add: wal_Append_def wal_Commit_def wal_Abort_def)

lemma wal_do_ok:
  "\<not> wal_closed w \<Longrightarrow>
     wal_do io_ok op (Some w) =
       (None, Some (w\<lparr>wal_data := wal_data w @ marshal_WALRecord (op_record op) @ [CHR 0x0A]\<rparr>))"
  by (simp add: wal_do_eq appendRecord_def io_ok_def Let_def)

lemma wal_run_data:
  "\<not> wal_closed w \<Longrightarrow>
     wal_run ops (Some w) =
       Some (w\<lparr>wal_data := wal_data w @ log_bytes marshal_WALRecord (map op_record ops)\<rparr>)"
  by (induction ops arbitrary: w) (simp_all add: wal_do_ok log_bytes_def)

lemma record_ok_op: "op_ok op \<Longrightarrow> record_ok (op_record op)"
  by (cases op) (simp_all add: record_ok_def prepare_record_def mark_record_def tx_ok_def zero_Tx_def)

lemma records_ok: "\<forall>op \<in> set ops. op_ok op \<Longrightarrow> list_all record_ok (map op_record ops)"
  by (auto simp: list_all_iff record_ok_op)

fun op_apply :: "wal_op \<Rightarrow> (string, Tx) gomap \<Rightarrow> (string, Tx) gomap" where
  "op_apply (WPrepare tx) p = AList.update (tx_ID tx) tx p"
| "op_apply (WCommit i) p = AList.delete i p"
| "op_apply (WAbort i) p = AList.delete i p"

lemma apply_record_op: "apply_record (op_record op) p = Inr (op_apply op p)"
  by (cases op) (simp_all add: apply_record_def prepare_record_def mark_record_def)

lemma replay_lines_append:
  "replay_lines (xs @ ys) p = (case replay_lines xs p of Inl e \<Rightarrow> Inl e | Inr q \<Rightarrow> replay_lines ys q)"
  by (induction xs arbitrary: p) (auto simp: Let_def split: option.splits sum.splits)

lemma scan_lines_append:
  "scan_lines (xs @ ys) p = (case scan_lines xs p of Inl e \<Rightarrow> Inl e | Inr q \<Rightarrow> scan_lines ys q)"
  by (induction xs arbitrary: p) (auto split: sum.splits)

lemma replay_lines_ops:
  "\<forall>op \<in> set ops. op_ok op \<Longrightarrow>
     replay_lines (map (\<lambda>r. marshal_WALRecord r @ [CHR 0x0A]) (map op_record ops)) p
       = Inr (fold op_apply ops p)"
  by (induction ops arbitrary: p)
    (simp_all add: wal.trim_line wal.dec_enc wal.enc_not_blank record_ok_op apply_record_op Let_def)

lemma scan_lines_ops:
  "\<forall>op \<in> set ops. op_ok op \<Longrightarrow>
     scan_lines (map (\<lambda>r. marshal_WALRecord r @ [CHR 0x0A]) (map op_record ops)) ids
       = Inr (fold (\<lambda>op. note_id (op_record op)) ops ids)"
proof (induction ops arbitrary: ids)
  case (Cons op ops)
  have c: "wr_Checksum (op_record op) =
      recordChecksum (wr_Kind (op_record op)) (wr_Tx (op_record op)) (wr_ID (op_record op))"
    by (cases op) (simp_all add: prepare_record_def mark_record_def)
  show ?case using Cons by (simp add: scan_line_def wal.dec_line record_ok_op c)
qed simp

text \<open>The transactions a run leaves pending, in terms of the run alone.\<close>

definition unresolved :: "wal_op list \<Rightarrow> Tx set" where
  "unresolved ops =
     {tx. \<exists>pre post. ops = pre @ WPrepare tx # post \<and> (\<forall>op \<in> set post. op_id op \<noteq> tx_ID tx)}"

lemma unresolved_snoc:
  "tx \<in> unresolved (ops @ [op]) \<longleftrightarrow> op = WPrepare tx \<or> (tx \<in> unresolved ops \<and> op_id op \<noteq> tx_ID tx)"
proof
  assume "tx \<in> unresolved (ops @ [op])"
  then obtain pre post where *: "ops @ [op] = pre @ WPrepare tx # post" "\<forall>op \<in> set post. op_id op \<noteq> tx_ID tx"
    by (auto simp: unresolved_def)
  show "op = WPrepare tx \<or> (tx \<in> unresolved ops \<and> op_id op \<noteq> tx_ID tx)"
  proof (cases post rule: rev_cases)
    case (snoc post' o')
    with * have "ops = pre @ WPrepare tx # post'" "o' = op" by auto
    with * snoc show ?thesis by (auto simp: unresolved_def)
  qed (use * in auto)
next
  assume "op = WPrepare tx \<or> (tx \<in> unresolved ops \<and> op_id op \<noteq> tx_ID tx)"
  then show "tx \<in> unresolved (ops @ [op])"
  proof
    assume "tx \<in> unresolved ops \<and> op_id op \<noteq> tx_ID tx"
    then obtain pre post where "ops = pre @ WPrepare tx # post" "\<forall>op \<in> set post. op_id op \<noteq> tx_ID tx"
        "op_id op \<noteq> tx_ID tx"
      by (auto simp: unresolved_def)
    then show ?thesis unfolding unresolved_def
      by (intro CollectI exI [of _ pre] exI [of _ "post @ [op]"]) auto
  qed (force simp: unresolved_def)
qed

lemma fold_op_apply:
  "gm_ok (fold op_apply ops []) \<and>
   (\<forall>k tx. map_of (fold op_apply ops []) k = Some tx \<longleftrightarrow> k = tx_ID tx \<and> tx \<in> unresolved ops)"
proof (induction ops rule: rev_induct)
  case Nil
  then show ?case by (simp add: unresolved_def)
next
  case (snoc op ops)
  then show ?case
    by (cases op) (auto simp: gm_ok_update gm_ok_delete gm_lookup_update gm_lookup_delete unresolved_snoc split: if_splits)
qed

lemma pending_txs:
  assumes "gm_ok p" and "\<And>k tx. map_of p k = Some tx \<longleftrightarrow> k = tx_ID tx \<and> tx \<in> S"
  shows "distinct (map tx_ID (map snd p))" and "set (map snd p) = S"
proof -
  have k: "\<forall>(k, tx) \<in> set p. k = tx_ID tx"
    using assms by (auto simp: gm_ok_def)
  then have "map tx_ID (map snd p) = map fst p" by auto
  then show "distinct (map tx_ID (map snd p))" using assms(1) by (simp only: gm_ok_def)
  show "set (map snd p) = S"
  proof (intro set_eqI iffI)
    fix tx assume "tx \<in> set (map snd p)"
    then obtain k where "(k, tx) \<in> set p" by auto
    then have "map_of p k = Some tx" using assms(1) by (simp add: gm_ok_def)
    then show "tx \<in> S" using assms(2) by blast
  next
    fix tx assume "tx \<in> S"
    then have "map_of p (tx_ID tx) = Some tx" using assms(2) by blast
    then show "tx \<in> set (map snd p)" by (force dest: map_of_SomeD)
  qed
qed

lemma tx_before_key: "tx_before a b \<longleftrightarrow> tx_key a < tx_key b"
  by (auto simp: tx_before_def less_prod_def')

lemma sorted_tx_key: "sorted (map tx_key xs) \<longleftrightarrow> sorted_wrt (\<lambda>a b. \<not> tx_before b a) xs"
proof -
  have "(\<lambda>a b. tx_key a \<le> tx_key b) = (\<lambda>a b. \<not> tx_before b a)"
    by (intro ext) (simp only: tx_before_key not_less)
  then show ?thesis by (simp only: sorted_map)
qed

definition empty_WAL :: "bool \<Rightarrow> WAL" where
  "empty_WAL s = \<lparr>wal_data = [], wal_syncOnWrite = s, wal_closed = False\<rparr>"

definition log_of :: "bool \<Rightarrow> wal_op list \<Rightarrow> bytes \<Rightarrow> WAL option" where
  "log_of s ops t = Some \<lparr>wal_data = log_bytes marshal_WALRecord (map op_record ops) @ t,
     wal_syncOnWrite = s, wal_closed = False\<rparr>"

lemma wal_run_log: "wal_run ops (Some (empty_WAL s)) = log_of s ops []"
  by (simp add: wal_run_data empty_WAL_def log_of_def)

lemma log_of_append: "wal_do io_ok op (log_of s ops []) = (None, log_of s (ops @ [op]) [])"
  by (simp add: log_of_def wal_do_ok log_bytes_def)

lemma wal_run_log_of: "wal_run post (log_of s ops []) = log_of s (ops @ post) []"
  by (induction post arbitrary: ops) (simp_all add: log_of_append)

lemma valid_id_utf8: "ValidateTx tx n = None \<Longrightarrow> utf8_valid (tx_ID tx)"
  by (rule utf8_valid_ascii) (auto simp: ValidateTx_None list_all_iff id_rune_ok_def Let_def)

lemma Replay_log:
  assumes "\<forall>op \<in> set ops. op_ok op" and "CHR 0x0A \<notin> set t"
  shows "Replay it rd_ok (log_of s ops t) =
    (case replay_tail t None (fold op_apply ops []) of
       Inl x \<Rightarrow> Inl x | Inr p \<Rightarrow> Inr (sort_key tx_key (it (map snd p))))"
  using wal.read_log [OF records_ok [OF assms(1)] assms(2)] replay_lines_ops [OF assms(1)]
  by (simp add: Replay_def log_of_def rd_ok_def rd_data_def)

lemma ReplayIDs_log:
  assumes "\<forall>op \<in> set ops. op_ok op" and "CHR 0x0A \<notin> set t"
  shows "ReplayIDs rd_ok (log_of s ops t) = scan_tail t None (fold (\<lambda>op. note_id (op_record op)) ops [])"
  using wal.read_log [OF records_ok [OF assms(1)] assms(2)] scan_lines_ops [OF assms(1)]
  by (simp add: ReplayIDs_def log_of_def rd_ok_def rd_data_def)

lemma replay_tail_torn:
  assumes "op_ok op" and "n < length (marshal_WALRecord (op_record op))"
  shows "replay_tail (take n (marshal_WALRecord (op_record op))) None p = Inr p"
  using wal.dec_torn [OF record_ok_op [OF assms(1)],
      of "take n (marshal_WALRecord (op_record op))" "drop n (marshal_WALRecord (op_record op))"] assms(2)
  by (simp add: replay_tail_def Let_def)

lemma torn_write:
  assumes "n < length (marshal_WALRecord (op_record op))" and "io_write io = WriteFail n m"
  shows "wal_do io op (log_of s ops []) =
     (Some (ErrOther m), log_of s ops (take n (marshal_WALRecord (op_record op))))"
  using assms by (simp add: log_of_def wal_do_eq appendRecord_def Let_def)

lemma noted_ids:
  "distinct (fold (\<lambda>op. note_id (op_record op)) ops []) \<and>
   set (fold (\<lambda>op. note_id (op_record op)) ops []) = tx_ID ` {tx. WPrepare tx \<in> set ops}"
proof (induction ops rule: rev_induct)
  case (snoc op ops)
  then show ?case
    by (cases op) (auto simp: note_id_def prepare_record_def mark_record_def)
qed simp

subsection \<open>What replaying a log returns\<close>


definition tx_a :: Tx where
  "tx_a = \<lparr>tx_ID = ''a'', tx_Key = ''k'', tx_Payload = Some ''p'', tx_Partition = 1, tx_Sequence = 7\<rparr>"

definition tx_b :: Tx where
  "tx_b = \<lparr>tx_ID = ''b'', tx_Key = '''', tx_Payload = None, tx_Partition = 0, tx_Sequence = 9\<rparr>"

lemma example_txs_ok: "tx_ok tx_a" "tx_ok tx_b" "utf8_valid ''a''"
  by (simp_all add: tx_ok_def tx_a_def tx_b_def utf8_valid_ascii)


text \<open>
  C18 A torn write is harmless for Replay. A write of a record that fails before the record is
  complete leaves a log that replays exactly as the log before it.
\<close>

theorem wal_torn_write_ignored:
  assumes "\<forall>op \<in> set ops. op_ok op" and "op_ok op"
    and "n < length (marshal_WALRecord (op_record op))" and "io_write io = WriteFail n m"
  shows "Replay it rd_ok (snd (wal_do io op (wal_run ops (Some (empty_WAL s)))))
       = Replay it rd_ok (wal_run ops (Some (empty_WAL s)))"
proof -
  let ?t = "take n (marshal_WALRecord (op_record op))"
  have "CHR 0x0A \<notin> set ?t" using wal.enc_line [OF record_ok_op [OF assms(2)]] by (meson in_set_takeD)
  then show ?thesis
    using Replay_log [OF assms(1), of ?t it s] Replay_log [OF assms(1), of "[]" it s]
      replay_tail_torn [OF assms(2,3)] torn_write [OF assms(3,4), of s ops]
    by (simp add: wal_run_log replay_tail_def [of "[]"])
qed

theorem wal_torn_write_ignored_witness:
  "Replay rev rd_ok (snd (wal_do \<lparr>io_write = WriteFail 3 ''disk full'', io_sync = None\<rparr> (WCommit ''a'')
       (wal_run [WPrepare tx_a] (Some (empty_WAL True)))))
     = Replay rev rd_ok (wal_run [WPrepare tx_a] (Some (empty_WAL True)))"
proof (rule wal_torn_write_ignored)
  show "3 < length (marshal_WALRecord (op_record (WCommit ''a'')))"
    by (simp add: marshal_WALRecord_def record_members_def mark_record_def json_string_def)
qed (simp_all add: example_txs_ok)

text \<open>
  The identity scan of recovery refuses the log that Replay accepts: after the same torn write,
  with at least one byte on disk, ReplayIDs reports a corrupt log, so Recover fails although every
  complete record is intact.
\<close>

theorem wal_torn_write_stops_ReplayIDs:
  assumes "\<forall>op \<in> set ops. op_ok op" and "op_ok op" and "0 < n"
    and "n < length (marshal_WALRecord (op_record op))" and "io_write io = WriteFail n m"
  shows "ReplayIDs rd_ok (snd (wal_do io op (wal_run ops (Some (empty_WAL s))))) = Inl ErrWALCorrupt"
proof -
  let ?r = "marshal_WALRecord (op_record op)"
  have "CHR 0x0A \<notin> set (take n ?r)" using wal.enc_line [OF record_ok_op [OF assms(2)]] by (meson in_set_takeD)
  moreover have "unmarshal_WALRecord (take n ?r) = None"
    using wal.dec_torn [OF record_ok_op [OF assms(2)], of "take n ?r" "drop n ?r"] assms(4) by simp
  moreover have "take n ?r \<noteq> []" using assms(3,4) by (cases ?r) auto
  ultimately show ?thesis
    using ReplayIDs_log [OF assms(1), of "take n ?r" s] torn_write [OF assms(4,5), of s ops]
    by (simp add: wal_run_log scan_tail_def scan_line_def)
qed

theorem wal_torn_write_stops_ReplayIDs_witness:
  "ReplayIDs rd_ok (snd (wal_do \<lparr>io_write = WriteFail 3 ''disk full'', io_sync = None\<rparr> (WCommit ''a'')
       (wal_run [WPrepare tx_a] (Some (empty_WAL True))))) = Inl ErrWALCorrupt"
proof (rule wal_torn_write_stops_ReplayIDs)
  show "3 < length (marshal_WALRecord (op_record (WCommit ''a'')))"
    by (simp add: marshal_WALRecord_def record_members_def mark_record_def json_string_def)
qed (simp_all add: example_txs_ok)

text \<open>
  On a log without a torn record the identity scan returns the identifiers of all prepare
  records, those of committed and aborted transactions included.
\<close>

theorem wal_ReplayIDs_all_prepared:
  assumes "\<forall>op \<in> set ops. op_ok op"
  shows "\<exists>ids. ReplayIDs rd_ok (wal_run ops (Some (empty_WAL s))) = Inr ids
     \<and> distinct ids \<and> set ids = tx_ID ` {tx. WPrepare tx \<in> set ops}"
proof -
  show ?thesis
    using ReplayIDs_log [OF assms, of "[]" s] noted_ids [of ops] by (simp add: wal_run_log scan_tail_def)
qed

theorem wal_ReplayIDs_all_prepared_witness:
  "\<exists>ids. ReplayIDs rd_ok (wal_run [WPrepare tx_a, WCommit ''a''] (Some (empty_WAL False))) = Inr ids
     \<and> distinct ids \<and> set ids = tx_ID ` {tx. WPrepare tx \<in> set [WPrepare tx_a, WCommit ''a'']}"
  by (rule wal_ReplayIDs_all_prepared) (simp add: example_txs_ok)

end
