(* ===== verification/V2_Committer.thy ===== *)
theory V2_Committer
  imports V2_Types
begin

text \<open>
  The retrying committer of \<^verbatim>\<open>pkg/v2/core.go\<close>. The backend is a parameter: a function from its
  state and a transaction to an error, if any, and its next state. What the context does while the
  committer waits after its \<open>a\<close>-th attempt is the parameter \<open>ctx a\<close>: whether the \<^verbatim>\<open>Done\<close> branch of
  the \<^verbatim>\<open>select\<close> is taken. The loop leaves a trace of its attempts and of the timers it starts.
  Durations are mathematical integers: doubling leaves the range of \<^verbatim>\<open>time.Duration\<close> only for a
  maximal backoff beyond 146 years.
\<close>

subsection \<open>The loop\<close>

type_synonym 'b backend = "'b \<Rightarrow> Tx \<Rightarrow> err option \<times> 'b"

datatype commit_event = Attempt | Backoff duration

record Committer =
  c_policy :: RetryPolicy
  c_timeout :: duration
  c_retries :: u64

definition NewCommitter :: "RetryPolicy \<Rightarrow> duration \<Rightarrow> Committer" where
  "NewCommitter p t = \<lparr>c_policy = p, c_timeout = t, c_retries = 0\<rparr>"

definition next_backoff :: "RetryPolicy \<Rightarrow> duration \<Rightarrow> duration" where
  "next_backoff p wait = (if wait * 2 > MaxBackoff p then MaxBackoff p else wait * 2)"

text \<open>
  \<open>k\<close> rounds are left and the next attempt has number \<open>a\<close>. The result is the error returned, the
  trace, the retry counter and the backend's state.
\<close>

fun commit_loop ::
  "'b backend \<Rightarrow> (nat \<Rightarrow> bool) \<Rightarrow> RetryPolicy \<Rightarrow> Tx \<Rightarrow> nat \<Rightarrow> nat \<Rightarrow> duration \<Rightarrow> u64 \<Rightarrow> 'b
   \<Rightarrow> err option \<times> commit_event list \<times> u64 \<times> 'b" where
  "commit_loop be ctx p tx 0 a wait ret b = (None, [], ret, b)"
| "commit_loop be ctx p tx (Suc k) a wait ret b =
     (case be b tx of
        (None, b') \<Rightarrow> (None, [Attempt], ret, b')
      | (Some e, b') \<Rightarrow>
          if errors_As_Permanent e then (Some e, [Attempt], ret, b')
          else if k = 0 then (Some e, [Attempt], ret, b')
          else if ctx a then (Some ErrContext, [Attempt, Backoff wait], ret + 1, b')
          else (case commit_loop be ctx p tx k (Suc a) (next_backoff p wait) (ret + 1) b' of
                  (r, tr, ret', b'') \<Rightarrow> (r, [Attempt, Backoff wait] @ tr, ret', b'')))"

text \<open>\<^verbatim>\<open>Commit\<close>; a nil backend commits everything.\<close>

definition committer_Commit ::
  "'b backend option \<Rightarrow> (nat \<Rightarrow> bool) \<Rightarrow> Tx \<Rightarrow> Committer \<Rightarrow> 'b
   \<Rightarrow> (err option \<times> commit_event list) \<times> Committer \<times> 'b" where
  "committer_Commit be ctx tx c b =
     (case be of
        None \<Rightarrow> ((None, []), c, b)
      | Some f \<Rightarrow>
          (case commit_loop f ctx (c_policy c) tx (nat (MaxAttempts (c_policy c))) 1
                  (InitialBackoff (c_policy c)) (c_retries c) b of
             (r, tr, ret, b') \<Rightarrow> ((r, tr), c\<lparr>c_retries := ret\<rparr>, b')))"

definition RetryCount :: "Committer \<Rightarrow> u64" where
  "RetryCount c = c_retries c"

subsection \<open>What the loop does\<close>

definition attempts :: "commit_event list \<Rightarrow> nat" where
  "attempts tr = length (filter (\<lambda>e. e = Attempt) tr)"

definition backoffs :: "commit_event list \<Rightarrow> duration list" where
  "backoffs tr = concat (map (\<lambda>e. case e of Attempt \<Rightarrow> [] | Backoff d \<Rightarrow> [d]) tr)"

lemma trace_simps [simp]:
  "attempts [] = 0" "attempts (Attempt # tr) = Suc (attempts tr)" "attempts (Backoff d # tr) = attempts tr"
  "backoffs [] = []" "backoffs (Attempt # tr) = backoffs tr" "backoffs (Backoff d # tr) = d # backoffs tr"
  by (simp_all add: attempts_def backoffs_def)

text \<open>The outcome of the \<open>i\<close>-th attempt, were it made.\<close>

fun be_out :: "'b backend \<Rightarrow> Tx \<Rightarrow> nat \<Rightarrow> 'b \<Rightarrow> err option" where
  "be_out be tx 0 b = fst (be b tx)"
| "be_out be tx (Suc i) b = be_out be tx i (snd (be b tx))"

definition transient :: "err option \<Rightarrow> bool" where
  "transient r = (case r of None \<Rightarrow> False | Some e \<Rightarrow> \<not> errors_As_Permanent e)"

lemma loop_attempts:
  "commit_loop be ctx p tx k a wait ret b = (r, tr, ret', b') \<Longrightarrow>
     attempts tr \<le> k \<and> (0 < k \<longrightarrow> 0 < attempts tr) \<and> ret' = ret + of_nat (length (backoffs tr))
     \<and> length (backoffs tr) \<le> attempts tr \<and> attempts tr \<le> Suc (length (backoffs tr))
     \<and> (0 < k \<longrightarrow> length (backoffs tr) < k)"
proof (induction be ctx p tx k a wait ret b arbitrary: r tr ret' b' rule: commit_loop.induct)
  case (2 be ctx p tx k a wait ret b)
  show ?case
  proof (cases "be b tx")
    case (Pair o1 b1)
    show ?thesis
    proof (cases "\<exists>e. o1 = Some e \<and> \<not> errors_As_Permanent e \<and> k \<noteq> 0 \<and> \<not> ctx a")
      case True
      then obtain e where e: "o1 = Some e" "\<not> errors_As_Permanent e" "k \<noteq> 0" "\<not> ctx a" by blast
      obtain r1 t1 s1 c1 where l: "commit_loop be ctx p tx k (Suc a) (next_backoff p wait) (ret + 1) b1 = (r1, t1, s1, c1)"
        by (metis prod_cases4)
      from "2.IH" [OF Pair [symmetric] e(1) e(2,3,4) l] "2.prems" Pair e l show ?thesis
        by (auto simp: add.assoc)
    qed (use "2.prems" Pair in \<open>auto split: option.splits if_splits\<close>)
  qed
qed auto

lemma loop_backoffs:
  assumes "commit_loop be ctx p tx k a wait ret b = (r, tr, ret', b')" and "0 < wait" and "wait \<le> MaxBackoff p"
  shows "backoffs tr = map (\<lambda>i. min (wait * 2 ^ i) (MaxBackoff p)) [0..<length (backoffs tr)]"
  using assms
proof (induction be ctx p tx k a wait ret b arbitrary: r tr ret' b' rule: commit_loop.induct)
  case (2 be ctx p tx k a wait ret b)
  obtain o1 b1 where Pair: "be b tx = (o1, b1)" by force
  show ?case
  proof (cases "\<exists>e. o1 = Some e \<and> \<not> errors_As_Permanent e \<and> k \<noteq> 0 \<and> \<not> ctx a")
    case True
    then obtain e where e: "o1 = Some e" "\<not> errors_As_Permanent e" "k \<noteq> 0" "\<not> ctx a" by blast
    obtain r1 t1 s1 c1 where l: "commit_loop be ctx p tx k (Suc a) (next_backoff p wait) (ret + 1) b1 = (r1, t1, s1, c1)"
      by (metis prod_cases4)
    have tr: "backoffs tr = wait # backoffs t1" using "2.prems"(1) Pair e l by auto
    have nb: "0 < next_backoff p wait" "next_backoff p wait \<le> MaxBackoff p"
      using "2.prems"(2,3) by (auto simp: next_backoff_def)
    have step: "min (next_backoff p wait * 2 ^ i) (MaxBackoff p) = min (wait * 2 ^ Suc i) (MaxBackoff p)" for i
    proof (cases "wait * 2 > MaxBackoff p")
      case True
      have "MaxBackoff p \<le> MaxBackoff p * 2 ^ i" using "2.prems"(2,3) by simp
      moreover have "MaxBackoff p \<le> wait * 2 ^ Suc i"
        using True mult_mono [of "MaxBackoff p" "wait * 2" 1 "2 ^ i"] "2.prems"(2,3) by simp
      ultimately show ?thesis using True by (simp add: next_backoff_def)
    qed (simp add: next_backoff_def mult.assoc)
    have "backoffs t1 = map (\<lambda>i. min (wait * 2 ^ Suc i) (MaxBackoff p)) [0..<length (backoffs t1)]"
      using "2.IH" [OF Pair [symmetric] e(1) e(2,3,4) l nb] unfolding step by simp
    moreover have "[0..<length (backoffs tr)] = 0 # map Suc [0..<length (backoffs t1)]"
      unfolding tr by (simp add: upt_conv_Cons map_Suc_upt del: upt_Suc)
    ultimately show ?thesis using "2.prems"(3) unfolding tr by (simp add: o_def)
  qed (use "2.prems" Pair in \<open>auto split: option.splits if_splits\<close>)
qed auto

lemma loop_result:
  assumes "0 < k"
  shows "fst (commit_loop be ctx p tx k a wait ret b) = None \<longleftrightarrow>
     (\<exists>i < k. be_out be tx i b = None \<and> (\<forall>j < i. transient (be_out be tx j b) \<and> \<not> ctx (a + j)))"
  using assms
proof (induction be ctx p tx k a wait ret b rule: commit_loop.induct)
  case (2 be ctx p tx k a wait ret b)
  obtain o1 b1 where Pair: "be b tx = (o1, b1)" by force
  show ?case
  proof (cases o1)
    case None
    then show ?thesis using Pair by (auto intro: exI [of _ 0])
  next
    case (Some e)
    show ?thesis
    proof (cases "\<not> errors_As_Permanent e \<and> k \<noteq> 0 \<and> \<not> ctx a")
      case True
      then have IH: "fst (commit_loop be ctx p tx k (Suc a) (next_backoff p wait) (ret + 1) b1) = None \<longleftrightarrow>
          (\<exists>i < k. be_out be tx i b1 = None \<and> (\<forall>j < i. transient (be_out be tx j b1) \<and> \<not> ctx (Suc a + j)))"
        using "2.IH" [OF Pair [symmetric] Some] by simp
      have "fst (commit_loop be ctx p tx (Suc k) a wait ret b) =
          fst (commit_loop be ctx p tx k (Suc a) (next_backoff p wait) (ret + 1) b1)"
        using Pair Some True by (simp split: prod.split)
      moreover have "(\<exists>i < Suc k. be_out be tx i b = None \<and> (\<forall>j < i. transient (be_out be tx j b) \<and> \<not> ctx (a + j)))
         \<longleftrightarrow> (\<exists>i < k. be_out be tx i b1 = None \<and> (\<forall>j < i. transient (be_out be tx j b1) \<and> \<not> ctx (Suc a + j)))"
        using Pair Some True unfolding Ex_less_Suc2 All_less_Suc2 by (simp add: transient_def)
      ultimately show ?thesis using IH by simp
    next
      case False
      then have "fst (commit_loop be ctx p tx (Suc k) a wait ret b) \<noteq> None" using Pair Some by auto
      moreover have "\<not> (\<exists>i < Suc k. be_out be tx i b = None
          \<and> (\<forall>j < i. transient (be_out be tx j b) \<and> \<not> ctx (a + j)))"
        using Pair Some False unfolding Ex_less_Suc2 All_less_Suc2 by (auto simp: transient_def)
      ultimately show ?thesis by blast
    qed
  qed
qed simp

subsection \<open>Properties\<close>

text \<open>
  Retrying is bounded: with a valid policy, whatever the backend and the context do, Commit calls
  the backend at least once and at most MaxAttempts times, counts every wait as a retry, and waits
  min(InitialBackoff * 2^i, MaxBackoff) before attempt i+2.
\<close>

theorem commit_attempts_bounded:
  assumes "0 < MaxAttempts (c_policy c)" and "0 < InitialBackoff (c_policy c)"
    and "InitialBackoff (c_policy c) \<le> MaxBackoff (c_policy c)"
    and "committer_Commit (Some be) ctx tx c b = ((r, tr), c', b')"
  shows "1 \<le> attempts tr \<and> int (attempts tr) \<le> MaxAttempts (c_policy c)
     \<and> RetryCount c' = RetryCount c + of_nat (length (backoffs tr))
     \<and> int (length (backoffs tr)) < MaxAttempts (c_policy c)
     \<and> backoffs tr = map (\<lambda>i. min (InitialBackoff (c_policy c) * 2 ^ i) (MaxBackoff (c_policy c)))
                          [0..<length (backoffs tr)]"
proof -
  obtain ret where l: "commit_loop be ctx (c_policy c) tx (nat (MaxAttempts (c_policy c))) 1
      (InitialBackoff (c_policy c)) (c_retries c) b = (r, tr, ret, b')" "c' = c\<lparr>c_retries := ret\<rparr>"
    using assms(4) by (auto simp: committer_Commit_def split: prod.splits)
  from loop_attempts [OF l(1)] loop_backoffs [OF l(1) assms(2,3)] assms(1) l(2) show ?thesis
    by (auto simp: RetryCount_def)
qed

definition policy_3 :: Committer where
  "policy_3 = NewCommitter \<lparr>MaxAttempts = 3, InitialBackoff = 2, MaxBackoff = 3\<rparr> 5"

definition flaky :: "nat backend" where
  "flaky n tx = (if n = 0 then (None, 0) else (Some (ErrOther ''unavailable''), n - 1))"

theorem commit_attempts_bounded_witness:
  "\<exists>r tr c' b'. committer_Commit (Some flaky) (\<lambda>_. False) zero_Tx policy_3 2 = ((r, tr), c', b')
     \<and> 1 \<le> attempts tr \<and> int (attempts tr) \<le> MaxAttempts (c_policy policy_3)
     \<and> RetryCount c' = RetryCount policy_3 + of_nat (length (backoffs tr))
     \<and> int (length (backoffs tr)) < MaxAttempts (c_policy policy_3)
     \<and> backoffs tr = map (\<lambda>i. min (InitialBackoff (c_policy policy_3) * 2 ^ i) (MaxBackoff (c_policy policy_3)))
                          [0..<length (backoffs tr)]"
proof -
  obtain r tr c' b' where "committer_Commit (Some flaky) (\<lambda>_. False) zero_Tx policy_3 2 = ((r, tr), c', b')"
    by (metis surj_pair)
  with commit_attempts_bounded [OF _ _ _ this] show ?thesis by (auto simp: policy_3_def NewCommitter_def)
qed

text \<open>
  C23 Commit succeeds exactly if one of the first MaxAttempts attempts succeeds after attempts that
  all failed with a transient error and waits that the context did not cut short: a permanent error
  or a cancelled context is final, and no success within the budget is missed.
\<close>

theorem commit_succeeds_iff:
  assumes "0 < MaxAttempts (c_policy c)"
  shows "fst (fst (committer_Commit (Some be) ctx tx c b)) = None \<longleftrightarrow>
     (\<exists>i < nat (MaxAttempts (c_policy c)). be_out be tx i b = None
        \<and> (\<forall>j < i. transient (be_out be tx j b) \<and> \<not> ctx (Suc j)))"
  using loop_result [of "nat (MaxAttempts (c_policy c))" be ctx "c_policy c" tx 1
      "InitialBackoff (c_policy c)" "c_retries c" b] assms
  by (auto simp: committer_Commit_def case_prod_beta)

theorem commit_succeeds_iff_witness:
  "fst (fst (committer_Commit (Some flaky) (\<lambda>_. False) zero_Tx policy_3 2)) = None \<longleftrightarrow>
     (\<exists>i < nat (MaxAttempts (c_policy policy_3)). be_out flaky zero_Tx i 2 = None
        \<and> (\<forall>j < i. transient (be_out flaky zero_Tx j 2) \<and> \<not> False))"
  by (rule commit_succeeds_iff) (simp add: policy_3_def NewCommitter_def)

end
