(* ===== verification/V2_Pipeline.thy ===== *)
theory V2_Pipeline
  imports V2_Queue V2_Dedup V2_Wal V2_Committer
begin

text \<open>
  The pipeline of \<^verbatim>\<open>pkg/v2/core.go\<close>: construction, \<^verbatim>\<open>Submit\<close>, the partition workers with
  \<^verbatim>\<open>flush\<close>, backpressure, metrics, replay and \<^verbatim>\<open>Stop\<close>. Each call is a function on the pipeline's
  state that runs to its end; \<open>V2_Concurrency\<close> splits \<^verbatim>\<open>Submit\<close> into its atomic steps and
  interleaves them. The outcomes of system calls, clocks and context polls are arguments, and so is
  the backend (\<open>V2_Committer\<close>).

  Theorems: an accepted transaction is validated, logged, numbered and queued last; a refused one
  leaves every queue as it was and its identifier free; along every sequence of submissions and
  worker rounds nothing is lost, each partition commits in strictly increasing sequence order, and
  after \<^verbatim>\<open>Stop\<close> all queues are drained.
\<close>

subsection \<open>Metrics\<close>

record PartitionMetrics =
  pm_accepted :: u64
  pm_committed :: u64
  pm_failed :: u64
  pm_retries :: u64
  pm_rejected :: u64
  pm_queueDepth :: u64
  pm_batchSize :: u64
  pm_commitLatencyNs :: u64
  pm_orderingErrors :: u64

definition zero_pm :: PartitionMetrics where
  "zero_pm = \<lparr>pm_accepted = 0, pm_committed = 0, pm_failed = 0, pm_retries = 0, pm_rejected = 0,
     pm_queueDepth = 0, pm_batchSize = 0, pm_commitLatencyNs = 0, pm_orderingErrors = 0\<rparr>"

record Metrics =
  m_partitions :: "PartitionMetrics list"
  m_rejection :: "(RejectReason, u64) gomap"
  m_recovered :: u64
  m_started :: time

definition newMetrics :: "int \<Rightarrow> time \<Rightarrow> Metrics" where
  "newMetrics n now =
     \<lparr>m_partitions = replicate (nat n) zero_pm, m_rejection = [], m_recovered = 0, m_started = now\<rparr>"

definition reject :: "RejectReason \<Rightarrow> Metrics \<Rightarrow> Metrics" where
  "reject r m =
     m\<lparr>m_rejection := AList.update r ((case map_of (m_rejection m) r of None \<Rightarrow> 0 | Some v \<Rightarrow> v) + 1) (m_rejection m)\<rparr>"

definition on_part :: "nat \<Rightarrow> (PartitionMetrics \<Rightarrow> PartitionMetrics) \<Rightarrow> Metrics \<Rightarrow> Metrics" where
  "on_part i f m = m\<lparr>m_partitions := (m_partitions m)[i := f (m_partitions m ! i)]\<rparr>"

subsection \<open>The pipeline\<close>

record partition =
  pt_q :: Queue
  pt_seq :: u64

record Pipeline =
  p_cfg :: Config
  p_router :: Router
  p_dedup :: Dedup
  p_wal :: "WAL option"
  p_committer :: Committer
  p_metrics :: Metrics
  p_parts :: "partition list"
  p_cancelled :: bool
  p_accepting :: bool
  p_recovered :: "string list"
  p_stopped :: bool

text \<open>
  The constructors that return an error only for a configuration that \<^verbatim>\<open>Validate\<close> refuses have
  their error dropped, as in the source.
\<close>

definition NewPipeline :: "Config \<Rightarrow> string + bytes \<Rightarrow> time \<Rightarrow> err + Pipeline" where
  "NewPipeline cfg os_open now =
     (case Validate cfg of
        Some e \<Rightarrow> Inl e
      | None \<Rightarrow>
          (case OpenWAL (WALPath cfg) (SyncWAL cfg) os_open of
             Inl e \<Rightarrow> Inl e
           | Inr w \<Rightarrow>
               Inr \<lparr>p_cfg = cfg,
                    p_router = projr (NewRouter (Partitions cfg)),
                    p_dedup = projr (NewDedup (DedupCapacity cfg) (DedupTTL cfg)),
                    p_wal = w,
                    p_committer = NewCommitter (Retry cfg) (CommitTimeout cfg),
                    p_metrics = newMetrics (Partitions cfg) now,
                    p_parts = replicate (nat (Partitions cfg))
                                \<lparr>pt_q = projr (NewQueue (QueueCapacity cfg)), pt_seq = 0\<rparr>,
                    p_cancelled = False, p_accepting = True, p_recovered = [], p_stopped = False\<rparr>))"

definition set_q :: "nat \<Rightarrow> Queue \<Rightarrow> Pipeline \<Rightarrow> Pipeline" where
  "set_q i q p = p\<lparr>p_parts := (p_parts p)[i := (p_parts p ! i)\<lparr>pt_q := q\<rparr>]\<rparr>"

definition set_seq :: "nat \<Rightarrow> u64 \<Rightarrow> Pipeline \<Rightarrow> Pipeline" where
  "set_seq i s p = p\<lparr>p_parts := (p_parts p)[i := (p_parts p ! i)\<lparr>pt_seq := s\<rparr>]\<rparr>"

definition upd_metrics :: "(Metrics \<Rightarrow> Metrics) \<Rightarrow> Pipeline \<Rightarrow> Pipeline" where
  "upd_metrics f p = p\<lparr>p_metrics := f (p_metrics p)\<rparr>"

abbreviation part_q :: "Pipeline \<Rightarrow> nat \<Rightarrow> Queue" where
  "part_q p i \<equiv> pt_q (p_parts p ! i)"

abbreviation part_m :: "Pipeline \<Rightarrow> nat \<Rightarrow> PartitionMetrics" where
  "part_m p i \<equiv> m_partitions (p_metrics p) ! i"

subsection \<open>Submit\<close>

record submit_env =
  se_ctx :: "err option"
  se_now :: time
  se_append :: wal_io
  se_abort :: wal_io

text \<open>The end of \<^verbatim>\<open>Submit\<close>: append to the log and push, for a transaction with its number.\<close>

definition submit_push :: "submit_env \<Rightarrow> nat \<Rightarrow> Tx \<Rightarrow> Pipeline \<Rightarrow> (int \<times> err option) \<times> Pipeline" where
  "submit_push env i tx p =
     (case wal_Append (se_append env) tx (p_wal p) of
        (Some e, w) \<Rightarrow> ((- 1, Some e), p\<lparr>p_wal := w, p_dedup := Forget (tx_ID tx) (p_dedup p)\<rparr>)
      | (None, w) \<Rightarrow>
          (let p1 = p\<lparr>p_wal := w\<rparr>
           in case Push tx (part_q p1 i) of
                Inl e \<Rightarrow>
                  ((int i, Some e),
                   upd_metrics (\<lambda>m. on_part i (\<lambda>c. c\<lparr>pm_rejected := pm_rejected c + 1\<rparr>) (reject RejectQueueFull m))
                     (p1\<lparr>p_dedup := Forget (tx_ID tx) (p_dedup p1),
                         p_wal := snd (wal_Abort (se_abort env) (tx_ID tx) (p_wal p1))\<rparr>))
              | Inr q \<Rightarrow>
                  ((int i, None),
                   upd_metrics (on_part i (\<lambda>c. c\<lparr>pm_accepted := pm_accepted c + 1,
                                                   pm_queueDepth := word_of_int (Len q)\<rparr>))
                     (set_q i q p1))))"

text \<open>\<open>None\<close> is a panic of the deduplication table.\<close>

definition Submit :: "submit_env \<Rightarrow> Tx \<Rightarrow> Pipeline \<Rightarrow> ((int \<times> err option) \<times> Pipeline) option" where
  "Submit env tx p =
     (case se_ctx env of
        Some e \<Rightarrow> Some ((- 1, Some e), p)
      | None \<Rightarrow>
          (case ValidateTx tx (MaxPayloadBytes (p_cfg p)) of
             Some e \<Rightarrow>
               Some ((- 1, Some e),
                     upd_metrics (\<lambda>m. reject RejectInvalid
                       (on_part 0 (\<lambda>c. c\<lparr>pm_rejected := pm_rejected c + 1\<rparr>) m)) p)
           | None \<Rightarrow>
               if \<not> p_accepting p
               then Some ((- 1, Some ErrEngineStopped), upd_metrics (reject RejectStopped) p)
               else (case SeenOrAdd (tx_ID tx) (se_now env) (p_dedup p) of
                       None \<Rightarrow> None
                     | Some (True, d) \<Rightarrow>
                         Some ((- 1, Some ErrDuplicate), upd_metrics (reject RejectDuplicate) (p\<lparr>p_dedup := d\<rparr>))
                     | Some (False, d) \<Rightarrow>
                         (let i = nat (Partition (p_router p) (tx_Key tx));
                              s = pt_seq (p_parts p ! i) + 1;
                              tx' = tx\<lparr>tx_Partition := int i, tx_Sequence := s\<rparr>
                          in Some (submit_push env i tx' (set_seq i s (p\<lparr>p_dedup := d\<rparr>)))))))"

subsection \<open>Workers\<close>

text \<open>
  What the environment does to one transaction of a batch: the context during the waits of the
  committer, the write of the commit marker, the latency measured.
\<close>

record flush_env =
  fe_ctx :: "nat \<Rightarrow> bool"
  fe_io :: wal_io
  fe_latency :: u64

definition flush_tx ::
  "'b backend option \<Rightarrow> nat \<Rightarrow> flush_env \<Rightarrow> Tx \<Rightarrow> Pipeline \<times> 'b \<Rightarrow> Pipeline \<times> 'b" where
  "flush_tx be i env tx pb =
     (case pb of (p, b) \<Rightarrow>
        (case committer_Commit be (fe_ctx env) tx (p_committer p) b of
           ((r, tr), c, b') \<Rightarrow>
             (let p1 = upd_metrics (on_part i (\<lambda>m. m\<lparr>pm_retries := RetryCount c\<rparr>)) (p\<lparr>p_committer := c\<rparr>);
                  fail = upd_metrics (on_part i (\<lambda>m. m\<lparr>pm_failed := pm_failed m + 1\<rparr>));
                  good = upd_metrics (on_part i (\<lambda>m. m\<lparr>pm_committed := pm_committed m + 1,
                                                          pm_commitLatencyNs := fe_latency env\<rparr>))
              in if r \<noteq> None then (fail p1, b')
                 else (case wal_Commit (fe_io env) (tx_ID tx) (p_wal p1) of
                         (Some e, w) \<Rightarrow> (fail (p1\<lparr>p_wal := w\<rparr>), b')
                       | (None, w) \<Rightarrow> (good (p1\<lparr>p_wal := w\<rparr>), b')))))"

fun flush_loop ::
  "'b backend option \<Rightarrow> nat \<Rightarrow> (nat \<Rightarrow> flush_env) \<Rightarrow> nat \<Rightarrow> Tx list \<Rightarrow> Pipeline \<times> 'b \<Rightarrow> Pipeline \<times> 'b" where
  "flush_loop be i env n [] pb = pb"
| "flush_loop be i env n (tx # txs) pb = flush_loop be i env (Suc n) txs (flush_tx be i (env n) tx pb)"

definition flush ::
  "'b backend option \<Rightarrow> nat \<Rightarrow> (nat \<Rightarrow> flush_env) \<Rightarrow> Tx list \<Rightarrow> Pipeline \<times> 'b \<Rightarrow> Pipeline \<times> 'b" where
  "flush be i env batch pb =
     (case pb of (p, b) \<Rightarrow>
        flush_loop be i env 0 batch
          (upd_metrics (on_part i (\<lambda>m. m\<lparr>pm_batchSize := of_nat (length batch)\<rparr>)) p, b))"

text \<open>The local variables of a worker, and its check of a batch against the expected number.\<close>

record worker =
  w_expected :: u64
  w_initialized :: bool

fun order_check :: "Tx list \<Rightarrow> worker \<Rightarrow> u64 \<times> worker" where
  "order_check [] w = (0, w)"
| "order_check (tx # txs) w =
     (let expected = (if w_initialized w then w_expected w else tx_Sequence tx - 1);
          miss = (if tx_Sequence tx \<noteq> expected + 1 then 1 else 0);
          (n, w') = order_check txs \<lparr>w_expected = tx_Sequence tx, w_initialized = True\<rparr>
      in (miss + n, w'))"

text \<open>One batch of a worker: pop, check the order, flush. The result says what was popped.\<close>

definition worker_batch ::
  "'b backend option \<Rightarrow> nat \<Rightarrow> (nat \<Rightarrow> flush_env) \<Rightarrow> worker \<Rightarrow> Pipeline \<times> 'b
   \<Rightarrow> (Tx list \<times> bool) \<times> worker \<times> Pipeline \<times> 'b" where
  "worker_batch be i env w pb =
     (case pb of (p, b) \<Rightarrow>
        (case PopBatchInto (BatchSize (p_cfg p)) (part_q p i) of
           ((batch, closed), q) \<Rightarrow>
             (let p1 = set_q i q p
              in if batch = [] then (([], closed), w, p1, b)
                 else (case order_check batch w of
                         (n, w') \<Rightarrow>
                           ((batch, closed), w',
                            flush be i env batch
                              (upd_metrics (on_part i (\<lambda>m. m\<lparr>pm_orderingErrors := pm_orderingErrors m + n\<rparr>)) p1, b))))))"

text \<open>
  The inner loop after cancellation: batches until the queue is empty. Every round but the last
  shortens the queue, so one round more than its length is enough (\<open>drain_enough\<close>). The result
  says what was popped and whether the worker returns.
\<close>

fun drain ::
  "'b backend option \<Rightarrow> nat \<Rightarrow> (nat \<Rightarrow> nat \<Rightarrow> flush_env) \<Rightarrow> nat \<Rightarrow> worker \<Rightarrow> Pipeline \<times> 'b
   \<Rightarrow> (Tx list \<times> bool) \<times> worker \<times> Pipeline \<times> 'b" where
  "drain be i env 0 w pb = (([], False), w, pb)"
| "drain be i env (Suc k) w pb =
     (case worker_batch be i (env k) w pb of
        ((batch, closed), w', pb') \<Rightarrow>
          if batch \<noteq> [] then
            (case drain be i env k w' pb' of ((rest, c), w'', pb'') \<Rightarrow> ((batch @ rest, c), w'', pb''))
          else (([], closed), w', pb'))"

text \<open>
  One round of the worker's loop: a batch; return if the queue was empty and closed; otherwise the
  \<^verbatim>\<open>select\<close>, whose branch the scheduler picks (the ticker, the notification token, or, if the
  context is cancelled, the drain), then the stored queue depth. The result says what was popped
  and whether the worker returned.
\<close>

datatype wake = Tick | Notify | Done

definition worker_round ::
  "'b backend option \<Rightarrow> nat \<Rightarrow> wake \<Rightarrow> (nat \<Rightarrow> nat \<Rightarrow> flush_env) \<Rightarrow> worker \<Rightarrow> Pipeline \<times> 'b
   \<Rightarrow> (Tx list \<times> bool) \<times> worker \<times> Pipeline \<times> 'b" where
  "worker_round be i wk env w pb =
     (case worker_batch be i (env (Suc (length (q_items (part_q (fst pb) i))))) w pb of
        ((batch, closed), w1, p1, b1) \<Rightarrow>
          if closed then ((batch, True), w1, p1, b1)
          else
            (let depth = (\<lambda>p. upd_metrics (on_part i (\<lambda>m. m\<lparr>pm_queueDepth := word_of_int (Len (part_q p i))\<rparr>)) p)
             in case wk of
                  Tick \<Rightarrow> ((batch, False), w1, depth p1, b1)
                | Notify \<Rightarrow> ((batch, False), w1, depth (set_q i ((part_q p1 i)\<lparr>q_notify := False\<rparr>) p1), b1)
                | Done \<Rightarrow>
                    (case drain be i env (Suc (length (q_items (part_q p1 i)))) w1 (p1, b1) of
                       ((rest, c), w2, p2, b2) \<Rightarrow>
                         if c then ((batch @ rest, True), w2, p2, b2)
                         else ((batch @ rest, False), w2, depth p2, b2))))"

subsection \<open>The remaining operations\<close>

definition Backpressure :: "Pipeline \<Rightarrow> int \<Rightarrow> BackpressureLevel" where
  "Backpressure p idx =
     (if idx < 0 \<or> idx \<ge> int (length (p_parts p)) then Rejecting
      else Level (Len (part_q p (nat idx))) (Cap (part_q p (nat idx))))"

definition ReplayUncommitted :: "(Tx list \<Rightarrow> Tx list) \<Rightarrow> read_io \<Rightarrow> Pipeline \<Rightarrow> (err + Tx list) \<times> Pipeline" where
  "ReplayUncommitted it rd p =
     (if p_wal p = None then (Inr [], p)
      else (case Replay it rd (p_wal p) of
              Inl e \<Rightarrow> (Inl e, p)
            | Inr txs \<Rightarrow>
                (Inr txs, upd_metrics (\<lambda>m. m\<lparr>m_recovered := m_recovered m + of_nat (length txs)\<rparr>) p)))"

text \<open>
  \<^verbatim>\<open>Stop\<close> runs once: refuse submissions, close the queues, cancel the context, wait for every
  worker to return, close the log. Waiting is the workers' last rounds, in any order that respects
  each worker's own; they touch disjoint queues, so the order of the partitions is taken.
\<close>

definition close_all :: "Pipeline \<Rightarrow> Pipeline" where
  "close_all p = p\<lparr>p_accepting := False,
     p_parts := map (\<lambda>pt. pt\<lparr>pt_q := CloseQueue (pt_q pt)\<rparr>) (p_parts p), p_cancelled := True\<rparr>"

fun join_workers ::
  "'b backend option \<Rightarrow> (nat \<Rightarrow> nat \<Rightarrow> nat \<Rightarrow> flush_env) \<Rightarrow> nat list \<Rightarrow> worker list \<Rightarrow> Pipeline \<times> 'b
   \<Rightarrow> (nat \<times> Tx list) list \<times> worker list \<times> Pipeline \<times> 'b" where
  "join_workers be env [] ws pb = ([], ws, pb)"
| "join_workers be env (i # js) ws pb =
     (case worker_round be i Done (env i) (ws ! i) pb of
        ((txs, returned), w, pb') \<Rightarrow>
          (case join_workers be env js (ws[i := w]) pb' of (out, ws', pb'') \<Rightarrow> ((i, txs) # out, ws', pb'')))"

definition Stop ::
  "'b backend option \<Rightarrow> (nat \<Rightarrow> nat \<Rightarrow> nat \<Rightarrow> flush_env) \<Rightarrow> worker list \<Rightarrow> Pipeline \<times> 'b
   \<Rightarrow> (nat \<times> Tx list) list \<times> worker list \<times> Pipeline \<times> 'b" where
  "Stop be env ws pb =
     (if p_stopped (fst pb) then ([], ws, pb)
      else (case join_workers be env [0..<length (p_parts (fst pb))] ws (close_all ((fst pb)\<lparr>p_stopped := True\<rparr>), snd pb) of
              (out, ws', p, b) \<Rightarrow> (out, ws', p\<lparr>p_wal := snd (wal_Close (p_wal p))\<rparr>, b)))"

text \<open>
  \<^verbatim>\<open>Snapshot\<close>: the counters by name, the throughput as the quotient by the elapsed seconds, at
  least a millisecond (the source divides floating-point numbers).
\<close>

definition part_snapshot :: "duration \<Rightarrow> PartitionMetrics \<Rightarrow> (string \<times> u64) list" where
  "part_snapshot elapsed m =
     [(''accepted'', pm_accepted m), (''committed'', pm_committed m), (''failed'', pm_failed m),
      (''retries'', pm_retries m), (''rejected'', pm_rejected m), (''queue_depth'', pm_queueDepth m),
      (''batch_size'', pm_batchSize m), (''commit_latency_ns'', pm_commitLatencyNs m),
      (''ordering_errors'', pm_orderingErrors m),
      (''tps'', word_of_int (uint (pm_accepted m) * Second div max elapsed Millisecond))]"

fun reason_name :: "RejectReason \<Rightarrow> string" where
  "reason_name RejectQueueFull = ''QUEUE_FULL''"
| "reason_name RejectStopped = ''ENGINE_STOPPED''"
| "reason_name RejectInvalid = ''INVALID_TRANSACTION''"
| "reason_name RejectDuplicate = ''DUPLICATE_TRANSACTION''"

record MetricsSnapshot =
  sn_partitions :: "(string \<times> u64) list list"
  sn_recovered :: u64
  sn_rejection :: "(string \<times> u64) list"

definition Snapshot :: "time \<Rightarrow> Metrics \<Rightarrow> MetricsSnapshot" where
  "Snapshot now m =
     \<lparr>sn_partitions = map (part_snapshot (now - m_started m)) (m_partitions m),
      sn_recovered = m_recovered m,
      sn_rejection = map (\<lambda>(r, v). (reason_name r, v)) (m_rejection m)\<rparr>"

subsection \<open>What a worker changes\<close>

text \<open>
  \<open>flushed i n p p'\<close>: from \<open>p\<close> to \<open>p'\<close> only the log, the committer and the metrics of partition \<open>i\<close>
  changed, and exactly \<open>n\<close> transactions were counted as committed or failed.
\<close>

definition same_frame :: "Pipeline \<Rightarrow> Pipeline \<Rightarrow> bool" where
  "same_frame p p' \<longleftrightarrow> p_cfg p' = p_cfg p \<and> p_router p' = p_router p \<and> p_dedup p' = p_dedup p
     \<and> p_accepting p' = p_accepting p \<and> p_cancelled p' = p_cancelled p \<and> p_recovered p' = p_recovered p
     \<and> p_stopped p' = p_stopped p \<and> length (p_parts p') = length (p_parts p)
     \<and> length (m_partitions (p_metrics p')) = length (m_partitions (p_metrics p))"

definition metrics_done :: "nat \<Rightarrow> nat \<Rightarrow> Pipeline \<Rightarrow> Pipeline \<Rightarrow> bool" where
  "metrics_done i n p p' \<longleftrightarrow> (\<forall>j. j \<noteq> i \<longrightarrow> part_m p' j = part_m p j)
     \<and> pm_accepted (part_m p' i) = pm_accepted (part_m p i)
     \<and> pm_committed (part_m p' i) + pm_failed (part_m p' i)
         = pm_committed (part_m p i) + pm_failed (part_m p i) + of_nat n"

definition flushed :: "nat \<Rightarrow> nat \<Rightarrow> Pipeline \<Rightarrow> Pipeline \<Rightarrow> bool" where
  "flushed i n p p' \<longleftrightarrow> same_frame p p' \<and> p_parts p' = p_parts p \<and> metrics_done i n p p'"

definition worked :: "nat \<Rightarrow> Tx list \<Rightarrow> Pipeline \<Rightarrow> Pipeline \<Rightarrow> bool" where
  "worked i txs p p' \<longleftrightarrow> same_frame p p' \<and> metrics_done i (length txs) p p'
     \<and> (\<forall>j. j \<noteq> i \<longrightarrow> p_parts p' ! j = p_parts p ! j)
     \<and> pt_seq (p_parts p' ! i) = pt_seq (p_parts p ! i)
     \<and> txs @ q_items (part_q p' i) = q_items (part_q p i)
     \<and> q_cap (part_q p' i) = q_cap (part_q p i) \<and> q_closed (part_q p' i) = q_closed (part_q p i)
     \<and> (queue_inv (part_q p i) \<longrightarrow> queue_inv (part_q p' i))"

lemma metrics_done_refl: "metrics_done i 0 p p"
  by (simp add: metrics_done_def)

lemma metrics_done_trans:
  "metrics_done i m p p' \<Longrightarrow> metrics_done i n p' p'' \<Longrightarrow> metrics_done i (m + n) p p''"
  by (simp add: metrics_done_def)

lemma same_frame_trans: "same_frame p p' \<Longrightarrow> same_frame p' p'' \<Longrightarrow> same_frame p p''"
  by (simp add: same_frame_def)

lemma flushed_trans: "flushed i m p p' \<Longrightarrow> flushed i n p' p'' \<Longrightarrow> flushed i (m + n) p p''"
  unfolding flushed_def using metrics_done_trans same_frame_trans by metis

lemma worked_trans: "worked i a p p' \<Longrightarrow> worked i b p' p'' \<Longrightarrow> worked i (a @ b) p p''"
  unfolding worked_def using metrics_done_trans [of i "length a" p p' "length b" p''] same_frame_trans [of p p' p'']
  by auto

lemma on_part_nth:
  "i < length (m_partitions m) \<Longrightarrow>
     m_partitions (on_part i f m) ! j = (if j = i then f (m_partitions m ! i) else m_partitions m ! j)"
  by (simp add: on_part_def)

lemma on_part_length [simp]: "length (m_partitions (on_part i f m)) = length (m_partitions m)"
  by (simp add: on_part_def)

lemma upd_metrics_sel [simp]:
  "p_cfg (upd_metrics f p) = p_cfg p" "p_router (upd_metrics f p) = p_router p"
  "p_dedup (upd_metrics f p) = p_dedup p" "p_wal (upd_metrics f p) = p_wal p"
  "p_committer (upd_metrics f p) = p_committer p" "p_metrics (upd_metrics f p) = f (p_metrics p)"
  "p_parts (upd_metrics f p) = p_parts p" "p_cancelled (upd_metrics f p) = p_cancelled p"
  "p_accepting (upd_metrics f p) = p_accepting p" "p_recovered (upd_metrics f p) = p_recovered p"
  "p_stopped (upd_metrics f p) = p_stopped p"
  by (simp_all add: upd_metrics_def)

lemma set_q_sel [simp]:
  "p_cfg (set_q i q p) = p_cfg p" "p_router (set_q i q p) = p_router p"
  "p_dedup (set_q i q p) = p_dedup p" "p_wal (set_q i q p) = p_wal p"
  "p_committer (set_q i q p) = p_committer p" "p_metrics (set_q i q p) = p_metrics p"
  "p_cancelled (set_q i q p) = p_cancelled p" "p_accepting (set_q i q p) = p_accepting p"
  "p_recovered (set_q i q p) = p_recovered p" "p_stopped (set_q i q p) = p_stopped p"
  "length (p_parts (set_q i q p)) = length (p_parts p)"
  by (simp_all add: set_q_def)

lemma set_q_nth:
  "i < length (p_parts p) \<Longrightarrow>
     p_parts (set_q i q p) ! j = (if j = i then (p_parts p ! i)\<lparr>pt_q := q\<rparr> else p_parts p ! j)"
  by (simp add: set_q_def)

lemma set_seq_sel [simp]:
  "p_cfg (set_seq i s p) = p_cfg p" "p_router (set_seq i s p) = p_router p"
  "p_dedup (set_seq i s p) = p_dedup p" "p_wal (set_seq i s p) = p_wal p"
  "p_committer (set_seq i s p) = p_committer p" "p_metrics (set_seq i s p) = p_metrics p"
  "p_cancelled (set_seq i s p) = p_cancelled p" "p_accepting (set_seq i s p) = p_accepting p"
  "p_recovered (set_seq i s p) = p_recovered p" "p_stopped (set_seq i s p) = p_stopped p"
  "length (p_parts (set_seq i s p)) = length (p_parts p)"
  by (simp_all add: set_seq_def)

lemma set_seq_nth:
  "i < length (p_parts p) \<Longrightarrow>
     p_parts (set_seq i s p) ! j = (if j = i then (p_parts p ! i)\<lparr>pt_seq := s\<rparr> else p_parts p ! j)"
  by (simp add: set_seq_def)

text \<open>A metric that is neither of the two counters of finished transactions.\<close>

lemma metrics_only:
  assumes "i < length (m_partitions (p_metrics p))"
    and "\<And>m. pm_accepted (f m) = pm_accepted m" "\<And>m. pm_committed (f m) = pm_committed m"
    and "\<And>m. pm_failed (f m) = pm_failed m"
  shows "flushed i 0 p (upd_metrics (on_part i f) p)"
  using assms by (simp add: flushed_def same_frame_def metrics_done_def on_part_nth)

lemma flush_tx_flushed:
  assumes "i < length (m_partitions (p_metrics p))"
  shows "flushed i 1 p (fst (flush_tx be i env tx (p, b)))"
proof -
  obtain r tr c b' where c: "committer_Commit be (fe_ctx env) tx (p_committer p) b = ((r, tr), c, b')"
    by (metis surj_pair)
  obtain e w where w: "wal_Commit (fe_io env) (tx_ID tx) (p_wal p) = (e, w)" by force
  show ?thesis
    using assms
    by (cases r; cases e)
      (simp_all add: flush_tx_def c w Let_def flushed_def same_frame_def metrics_done_def on_part_nth)
qed

lemma flush_loop_flushed:
  "i < length (m_partitions (p_metrics p)) \<Longrightarrow> flushed i (length txs) p (fst (flush_loop be i env n txs (p, b)))"
proof (induction txs arbitrary: n p b)
  case Nil
  then show ?case by (simp add: flushed_def same_frame_def metrics_done_refl)
next
  case (Cons tx txs)
  obtain p1 b1 where f: "flush_tx be i (env n) tx (p, b) = (p1, b1)" by force
  have 1: "flushed i 1 p p1" using flush_tx_flushed [OF Cons.prems, of be "env n" tx b] f by simp
  then have "i < length (m_partitions (p_metrics p1))" using Cons.prems by (simp add: flushed_def same_frame_def)
  from flushed_trans [OF 1 Cons.IH [OF this, of "Suc n" b1]] f show ?case by simp
qed

lemma flush_flushed:
  assumes "i < length (m_partitions (p_metrics p))"
  shows "flushed i (length batch) p (fst (flush be i env batch (p, b)))"
proof -
  let ?p = "upd_metrics (on_part i (\<lambda>m. m\<lparr>pm_batchSize := of_nat (length batch)\<rparr>)) p"
  have 1: "flushed i 0 p ?p" by (rule metrics_only) (use assms in simp_all)
  then have "i < length (m_partitions (p_metrics ?p))" using assms by simp
  from flushed_trans [OF 1 flush_loop_flushed [OF this, of batch be env 0 b]]
  show ?thesis by (simp add: flush_def)
qed

lemma pop_worked:
  assumes "i < length (p_parts p)" and "PopBatchInto n (part_q p i) = ((batch, closed), q)"
    and "same_frame (set_q i q p) p'" and "metrics_done i (length batch) (set_q i q p) p'"
    and "p_parts p' = p_parts (set_q i q p)"
  shows "worked i batch p p'"
proof -
  have q: "batch @ q_items q = q_items (part_q p i)" "q_cap q = q_cap (part_q p i)"
      "q_closed q = q_closed (part_q p i)" "queue_inv (part_q p i) \<longrightarrow> queue_inv q"
    using assms(2) queue_inv_Pop [of "part_q p i" n] by (auto simp: PopBatchInto_eq)
  show ?thesis
    using assms q by (auto simp: worked_def same_frame_def metrics_done_def set_q_nth)
qed

lemma worker_batch_worked:
  assumes "i < length (p_parts p)" and "i < length (m_partitions (p_metrics p))"
    and "worker_batch be i env w (p, b) = ((batch, closed), w', p', b')"
  shows "worked i batch p p' \<and> batch = take (batch_len (BatchSize (p_cfg p))) (q_items (part_q p i))
     \<and> (closed \<longleftrightarrow> q_items (part_q p i) = [] \<and> q_closed (part_q p i))"
proof -
  obtain bt cl q where pop: "PopBatchInto (BatchSize (p_cfg p)) (part_q p i) = ((bt, cl), q)"
    by (metis surj_pair)
  have r: "bt = batch" "cl = closed"
    using assms(3) by (auto simp: worker_batch_def pop Let_def split: if_splits prod.splits)
  have "worked i batch p p'"
  proof (cases "batch = []")
    case True
    then have "p' = set_q i q p" using assms(3) r by (auto simp: worker_batch_def pop)
    then show ?thesis using pop_worked [OF assms(1) pop, of p'] True r
      by (simp add: same_frame_def metrics_done_refl)
  next
    case False
    obtain n w1 where oc: "order_check batch w = (n, w1)" by force
    let ?p1 = "upd_metrics (on_part i (\<lambda>m. m\<lparr>pm_orderingErrors := pm_orderingErrors m + n\<rparr>)) (set_q i q p)"
    have p': "p' = fst (flush be i env batch (?p1, b))"
      using assms(3) r False oc by (auto simp: worker_batch_def pop Let_def split: prod.splits)
    have 1: "flushed i 0 (set_q i q p) ?p1" by (rule metrics_only) (use assms(2) in simp_all)
    have 2: "flushed i (length batch) ?p1 p'" unfolding p' by (rule flush_flushed) (use assms(2) in simp)
    from flushed_trans [OF 1 2] have "flushed i (length batch) (set_q i q p) p'" by simp
    then show ?thesis using pop_worked [OF assms(1) pop] r by (simp add: flushed_def)
  qed
  then show ?thesis using pop r by (auto simp: PopBatchInto_eq)
qed

lemma worked_shape:
  "worked i txs p p' \<Longrightarrow> length (p_parts p') = length (p_parts p)
     \<and> length (m_partitions (p_metrics p')) = length (m_partitions (p_metrics p))"
  by (simp add: worked_def same_frame_def)

lemma drain_worked:
  assumes "i < length (p_parts p)" and "i < length (m_partitions (p_metrics p))"
    and "drain be i env k w (p, b) = ((txs, c), w', p', b')"
  shows "worked i txs p p' \<and> (c \<longrightarrow> q_items (part_q p' i) = [] \<and> q_closed (part_q p' i))"
  using assms
proof (induction k arbitrary: w p b txs)
  case 0
  then show ?case by (auto simp: worked_def same_frame_def metrics_done_refl)
next
  case (Suc k)
  obtain bt cl w1 p1 b1 where wb: "worker_batch be i (env k) w (p, b) = ((bt, cl), w1, p1, b1)" by (metis surj_pair)
  note w = worker_batch_worked [OF Suc.prems(1,2) wb]
  show ?case
  proof (cases "bt = []")
    case True
    then have r: "txs = []" "c = cl" "p' = p1" using Suc.prems(3) wb by auto
    then show ?thesis using w True by (auto simp: worked_def)
  next
    case False
    obtain rest c2 w2 p2 b2 where d: "drain be i env k w1 (p1, b1) = ((rest, c2), w2, p2, b2)" by (metis surj_pair)
    then have r: "txs = bt @ rest" "c = c2" "p' = p2" "w' = w2" "b' = b2" using Suc.prems(3) wb False by auto
    have s: "i < length (p_parts p1)" "i < length (m_partitions (p_metrics p1))"
      using w worked_shape Suc.prems(1,2) by metis+
    have "worked i rest p1 p2 \<and> (c2 \<longrightarrow> q_items (part_q p2 i) = [] \<and> q_closed (part_q p2 i))"
      using Suc.IH [OF s, of w1 b1 rest] d r by simp
    then show ?thesis using worked_trans [OF conjunct1 [OF w], of rest p2] r by simp
  qed
qed

text \<open>Enough fuel for the drain: the queue ends empty, and the worker returns if it was closed.\<close>

lemma drain_enough:
  assumes "i < length (p_parts p)" and "i < length (m_partitions (p_metrics p))"
    and "length (q_items (part_q p i)) < k"
    and "drain be i env k w (p, b) = ((txs, c), w', p', b')"
  shows "q_items (part_q p' i) = [] \<and> (c \<longleftrightarrow> q_closed (part_q p i))"
  using assms
proof (induction k arbitrary: w p b txs)
  case (Suc k)
  obtain bt cl w1 p1 b1 where wb: "worker_batch be i (env k) w (p, b) = ((bt, cl), w1, p1, b1)" by (metis surj_pair)
  note w = worker_batch_worked [OF Suc.prems(1,2) wb]
  have eq: "bt @ q_items (part_q p1 i) = q_items (part_q p i)" "q_closed (part_q p1 i) = q_closed (part_q p i)"
    using w by (auto simp: worked_def)
  show ?case
  proof (cases "bt = []")
    case True
    have "0 < batch_len (BatchSize (p_cfg p))" by (simp add: batch_len_def)
    then have "q_items (part_q p i) = []" using w True by auto
    then show ?thesis using w True eq Suc.prems(4) wb by auto
  next
    case False
    obtain rest c2 w2 p2 b2 where d: "drain be i env k w1 (p1, b1) = ((rest, c2), w2, p2, b2)" by (metis surj_pair)
    then have r: "c = c2" "p' = p2" "w' = w2" "b' = b2" using Suc.prems(4) wb False by auto
    have s: "i < length (p_parts p1)" "i < length (m_partitions (p_metrics p1))"
      using w worked_shape Suc.prems(1,2) by metis+
    have "length (q_items (part_q p1 i)) < k"
      using False Suc.prems(3) arg_cong [OF eq(1), of length] by (cases bt) auto
    from Suc.IH [OF s this, of w1 b1 rest] d r eq show ?thesis by simp
  qed
qed simp

lemma worked_metrics_only:
  assumes "worked i txs p p1" and "i < length (m_partitions (p_metrics p))"
    and "\<And>m. pm_accepted (f m) = pm_accepted m" "\<And>m. pm_committed (f m) = pm_committed m"
    and "\<And>m. pm_failed (f m) = pm_failed m"
  shows "worked i txs p (upd_metrics (on_part i f) p1)"
  using assms by (simp add: worked_def same_frame_def metrics_done_def on_part_nth)

lemma worked_notify:
  assumes "worked i txs p p1" and "i < length (p_parts p)"
  shows "worked i txs p (set_q i ((part_q p1 i)\<lparr>q_notify := False\<rparr>) p1)"
  using assms by (auto simp: worked_def same_frame_def metrics_done_def set_q_nth queue_inv_def)

lemma worker_round_worked:
  assumes i: "i < length (p_parts p)" "i < length (m_partitions (p_metrics p))"
    and r: "worker_round be i wk env w (p, b) = ((txs, ret), w', p', b')"
  shows "worked i txs p p'"
    and "ret \<longrightarrow> q_items (part_q p' i) = [] \<and> q_closed (part_q p' i)"
    and "wk = Done \<longrightarrow> q_items (part_q p' i) = [] \<and> (ret \<longleftrightarrow> q_closed (part_q p i))"
proof -
  obtain bt cl w1 p1 b1 where wb:
      "worker_batch be i (env (Suc (length (q_items (part_q p i))))) w (p, b) = ((bt, cl), w1, p1, b1)"
    by (metis surj_pair)
  note wk = worker_batch_worked [OF i wb]
  have s: "i < length (p_parts p1)" "i < length (m_partitions (p_metrics p1))"
    using wk worked_shape i by metis+
  have closed: "q_closed (part_q p1 i) = q_closed (part_q p i)" using wk by (simp add: worked_def)
  let ?depth = "\<lambda>p. upd_metrics (on_part i (\<lambda>m. m\<lparr>pm_queueDepth := word_of_int (Len (part_q p i))\<rparr>)) p"
  have all: "worked i txs p p' \<and> (ret \<longrightarrow> q_items (part_q p' i) = [] \<and> q_closed (part_q p' i))
    \<and> (wk = Done \<longrightarrow> q_items (part_q p' i) = [] \<and> (ret \<longleftrightarrow> q_closed (part_q p i)))"
  proof (cases "cl")
    case True
    then have "txs = bt" "ret" "p' = p1" using r wb by (auto simp: worker_round_def)
    then show ?thesis using wk True by (auto simp: worked_def)
  next
    case False
    show ?thesis
    proof (cases wk)
      case Tick
      then have e: "txs = bt" "\<not> ret" "p' = ?depth p1" using r wb False by (auto simp: worker_round_def)
      show ?thesis using worked_metrics_only [OF conjunct1 [OF wk] i(2)] e Tick by simp
    next
      case Notify
      then have e: "txs = bt" "\<not> ret" "p' = ?depth (set_q i ((part_q p1 i)\<lparr>q_notify := False\<rparr>) p1)"
        using r wb False by (auto simp: worker_round_def)
      show ?thesis using worked_metrics_only [OF worked_notify [OF conjunct1 [OF wk] i(1)] i(2)] e Notify by simp
    next
      case Done
      obtain rest c w2 p2 b2 where d:
          "drain be i env (Suc (length (q_items (part_q p1 i)))) w1 (p1, b1) = ((rest, c), w2, p2, b2)"
        by (metis surj_pair)
      have e: "txs = bt @ rest" "ret = c" "p' = (if c then p2 else ?depth p2)"
        using r wb False Done d by (auto simp: worker_round_def split: if_splits)
      note dw = drain_worked [OF s d] and de = drain_enough [OF s _ d]
      have w2: "worked i txs p p2" using worked_trans [OF conjunct1 [OF wk] conjunct1 [OF dw]] e(1) by simp
      have q2: "q_items (part_q p2 i) = []" "c \<longleftrightarrow> q_closed (part_q p i)" using de closed by simp_all
      show ?thesis using worked_metrics_only [OF w2 i(2)] w2 e q2 dw by simp
    qed
  qed
  then show "worked i txs p p'" "ret \<longrightarrow> q_items (part_q p' i) = [] \<and> q_closed (part_q p' i)"
    "wk = Done \<longrightarrow> q_items (part_q p' i) = [] \<and> (ret \<longleftrightarrow> q_closed (part_q p i))" by simp_all
qed

end
