(* ===== verification/V2_Pipeline_Runs.thy ===== *)
theory V2_Pipeline_Runs
  imports V2_Pipeline
begin

text \<open>
  The pipeline's invariant, the effects of \<^verbatim>\<open>Submit\<close> on its accepting and refusing branches, runs
  of submissions and worker rounds, and \<^verbatim>\<open>Stop\<close>.
\<close>

subsection \<open>The invariant\<close>

definition pipe_inv :: "Pipeline \<Rightarrow> bool" where
  "pipe_inv p \<longleftrightarrow> dedup_inv (p_dedup p) \<and> p_parts p \<noteq> []
     \<and> length (m_partitions (p_metrics p)) = length (p_parts p)
     \<and> r_partitions (p_router p) = int (length (p_parts p))
     \<and> (\<forall>i < length (p_parts p). queue_inv (part_q p i))"

lemma NewPipeline_inv [inv_intros]:
  assumes "NewPipeline cfg os now = Inr p"
  shows "pipe_inv p" and "p_accepting p" and "\<not> p_stopped p"
    and "i < length (p_parts p) \<Longrightarrow> q_items (part_q p i) = [] \<and> pt_seq (p_parts p ! i) = 0 \<and> part_m p i = zero_pm"
    and "p_cfg p = cfg" and "length (p_parts p) = nat (Partitions cfg)" and "dd_ttl (p_dedup p) = DedupTTL cfg"
proof -
  have v: "Validate cfg = None" using assms by (auto simp: NewPipeline_def split: option.splits)
  then have pos: "0 < Partitions cfg" "0 < QueueCapacity cfg" "0 < DedupCapacity cfg" "0 < DedupTTL cfg"
    by (simp_all add: Validate_None)
  obtain w where w: "OpenWAL (WALPath cfg) (SyncWAL cfg) os = Inr w"
    using assms v by (auto simp: NewPipeline_def split: sum.splits)
  obtain d where d: "NewDedup (DedupCapacity cfg) (DedupTTL cfg) = Inr d" using pos by (simp add: NewDedup_def)
  have di: "dedup_inv d" "dd_ttl d = DedupTTL cfg" using NewDedup_inv [OF d] NewDedup_caps(2) [OF d] by simp_all
  note u = assms [unfolded NewPipeline_def v w option.case sum.case d]
  show "pipe_inv p" "p_accepting p" "\<not> p_stopped p" "p_cfg p = cfg" "length (p_parts p) = nat (Partitions cfg)"
    "dd_ttl (p_dedup p) = DedupTTL cfg"
    using u di pos
    by (auto simp: pipe_inv_def newMetrics_def NewRouter_def NewQueue_def queue_inv_def d)
  show "i < length (p_parts p) \<Longrightarrow> q_items (part_q p i) = [] \<and> pt_seq (p_parts p ! i) = 0 \<and> part_m p i = zero_pm"
    using u pos by (auto simp: newMetrics_def NewQueue_def)
qed

lemma partition_index:
  assumes "pipe_inv p"
  shows "nat (Partition (p_router p) key) < length (p_parts p)"
    and "int (nat (Partition (p_router p) key)) = Partition (p_router p) key"
  using assms by (auto simp: pipe_inv_def Partition_def nat_less_iff)

subsection \<open>The effects of Submit\<close>

text \<open>The counters that account for transactions.\<close>

definition counts :: "Pipeline \<Rightarrow> nat \<Rightarrow> u64 \<times> u64" where
  "counts p i = (pm_accepted (part_m p i), pm_committed (part_m p i) + pm_failed (part_m p i))"

text \<open>A submission that is refused: no queue changes, no counter of accepted or finished ones either.\<close>

definition refused :: "Tx \<Rightarrow> err \<Rightarrow> Pipeline \<Rightarrow> Pipeline \<Rightarrow> bool" where
  "refused tx e p p' \<longleftrightarrow> (\<forall>i < length (p_parts p). part_q p' i = part_q p i \<and> counts p' i = counts p i)
     \<and> (p_dedup p' = p_dedup p \<or> e = ErrDuplicate \<or> dedup_entry (p_dedup p') (tx_ID tx) = None)"

definition advanced :: "Pipeline \<Rightarrow> Pipeline \<Rightarrow> bool" where
  "advanced p p' \<longleftrightarrow> (\<forall>i < length (p_parts p).
     pt_seq (p_parts p' ! i) = pt_seq (p_parts p ! i) \<or> pt_seq (p_parts p' ! i) = pt_seq (p_parts p ! i) + 1)"

definition same_shape :: "Pipeline \<Rightarrow> Pipeline \<Rightarrow> bool" where
  "same_shape p p' \<longleftrightarrow> p_cfg p' = p_cfg p \<and> p_router p' = p_router p \<and> p_accepting p' = p_accepting p
     \<and> p_stopped p' = p_stopped p \<and> length (p_parts p') = length (p_parts p) \<and> dd_ttl (p_dedup p') = dd_ttl (p_dedup p)"

definition numbered :: "Tx \<Rightarrow> nat \<Rightarrow> Pipeline \<Rightarrow> Tx" where
  "numbered tx i p = tx\<lparr>tx_Partition := int i, tx_Sequence := pt_seq (p_parts p ! i) + 1\<rparr>"

text \<open>A submission that is accepted into partition \<open>i\<close>.\<close>

definition accepted :: "submit_env \<Rightarrow> Tx \<Rightarrow> nat \<Rightarrow> Pipeline \<Rightarrow> Pipeline \<Rightarrow> bool" where
  "accepted env tx i p p' \<longleftrightarrow> i < length (p_parts p) \<and> int i = Partition (p_router p) (tx_Key tx)
     \<and> ValidateTx tx (MaxPayloadBytes (p_cfg p)) = None \<and> p_accepting p
     \<and> Push (numbered tx i p) (part_q p i) = Inr (part_q p' i)
     \<and> pt_seq (p_parts p' ! i) = pt_seq (p_parts p ! i) + 1
     \<and> counts p' i = (fst (counts p i) + 1, snd (counts p i))
     \<and> (\<forall>j < length (p_parts p). j \<noteq> i \<longrightarrow> p_parts p' ! j = p_parts p ! j \<and> counts p' j = counts p j)
     \<and> dedup_entry (p_dedup p') (tx_ID tx) = Some (se_now env + dd_ttl (p_dedup p))
     \<and> wal_Append (se_append env) (numbered tx i p) (p_wal p) = (None, p_wal p')"

lemma Forget_ttl [frame_simps]: "dd_ttl (Forget i d) = dd_ttl d"
  by (simp add: Forget_def)

lemma reject_parts [simp]: "m_partitions (reject r m) = m_partitions m"
  by (simp add: reject_def)

lemma counts_on_part:
  assumes "i < length (m_partitions (p_metrics p))"
  shows "counts (upd_metrics (on_part i f) p) j =
    (if j = i then (pm_accepted (f (part_m p i)), pm_committed (f (part_m p i)) + pm_failed (f (part_m p i)))
     else counts p j)"
  using assms by (simp add: counts_def on_part_nth)

lemma counts_cong: "p_metrics p' = p_metrics p \<Longrightarrow> counts p' = counts p"
  by (auto simp: counts_def)

text \<open>
  The part of Submit after the identifier was recorded and the number assigned: what it always keeps,
  what it does when the transaction is pushed, and what is undone when it is not.
\<close>

definition push_keeps :: "Pipeline \<Rightarrow> Pipeline \<Rightarrow> bool" where
  "push_keeps p p' \<longleftrightarrow> pipe_inv p' \<and> same_shape p p' \<and> (\<forall>j. pt_seq (p_parts p' ! j) = pt_seq (p_parts p ! j))"

definition push_done :: "submit_env \<Rightarrow> nat \<Rightarrow> Tx \<Rightarrow> Pipeline \<Rightarrow> Pipeline \<Rightarrow> bool" where
  "push_done env i tx p p' \<longleftrightarrow> Push tx (part_q p i) = Inr (part_q p' i) \<and> p_dedup p' = p_dedup p
     \<and> counts p' i = (fst (counts p i) + 1, snd (counts p i))
     \<and> (\<forall>j < length (p_parts p). j \<noteq> i \<longrightarrow> p_parts p' ! j = p_parts p ! j \<and> counts p' j = counts p j)
     \<and> wal_Append (se_append env) tx (p_wal p) = (None, p_wal p')"

definition push_undone :: "Tx \<Rightarrow> Pipeline \<Rightarrow> Pipeline \<Rightarrow> bool" where
  "push_undone tx p p' \<longleftrightarrow> (\<forall>j < length (p_parts p). part_q p' j = part_q p j \<and> counts p' j = counts p j)
     \<and> dedup_entry (p_dedup p') (tx_ID tx) = None"

lemma push_room:
  assumes inv: "pipe_inv p" and i: "i < length (p_parts p)" and q: "Push tx (part_q p i) = Inr q"
    and w: "wal_Append (se_append env) tx (p_wal p) = (None, w)"
    and p': "p' = upd_metrics (on_part i (\<lambda>c. c\<lparr>pm_accepted := pm_accepted c + 1, pm_queueDepth := word_of_int (Len q)\<rparr>))
       (set_q i q (p\<lparr>p_wal := w\<rparr>))"
  shows "push_keeps p p'" and "push_done env i tx p p'"
proof -
  have lens: "i < length (m_partitions (p_metrics p))" using inv i by (simp add: pipe_inv_def)
  have c: "counts p' j = (if j = i then (fst (counts p i) + 1, snd (counts p i)) else counts p j)" for j
    unfolding p' using lens by (simp add: counts_def on_part_nth)
  have qi: "queue_inv q" using inv i q queue_inv_Push by (auto simp: pipe_inv_def)
  have parts: "p_parts p' ! j = (if j = i then (p_parts p ! i)\<lparr>pt_q := q\<rparr> else p_parts p ! j)" for j
    unfolding p' using i set_q_nth [of i "p\<lparr>p_wal := w\<rparr>" q j] by simp
  have sh: "p_wal p' = w" "p_dedup p' = p_dedup p" "length (p_parts p') = length (p_parts p)"
      "length (m_partitions (p_metrics p')) = length (m_partitions (p_metrics p))"
      "p_cfg p' = p_cfg p" "p_router p' = p_router p" "p_accepting p' = p_accepting p" "p_stopped p' = p_stopped p"
    unfolding p' by simp_all
  have "queue_inv (part_q p' j)" if "j < length (p_parts p)" for j
    using that inv qi parts by (simp add: pipe_inv_def)
  moreover have "p_parts p' \<noteq> []" using sh(3) i by auto
  ultimately have "pipe_inv p'" using inv sh by (simp add: pipe_inv_def)
  then show "push_keeps p p'" "push_done env i tx p p'"
    using c sh parts q w by (simp_all add: push_keeps_def push_done_def same_shape_def)
qed

lemma push_failed:
  assumes inv: "pipe_inv p" and i: "i < length (p_parts p)"
    and p': "p' = p\<lparr>p_wal := w, p_dedup := Forget (tx_ID tx) (p_dedup p)\<rparr>
       \<or> p' = upd_metrics (\<lambda>m. on_part i (\<lambda>c. c\<lparr>pm_rejected := pm_rejected c + 1\<rparr>) (reject RejectQueueFull m))
            (p\<lparr>p_wal := w, p_dedup := Forget (tx_ID tx) (p_dedup p)\<rparr>)"
  shows "push_keeps p p'" and "push_undone tx p p'"
proof -
  have lens: "i < length (m_partitions (p_metrics p))" using inv i by (simp add: pipe_inv_def)
  have f: "dedup_inv (Forget (tx_ID tx) (p_dedup p))" "dedup_entry (Forget (tx_ID tx) (p_dedup p)) (tx_ID tx) = None"
    using inv Forget_inv Forget_entry by (auto simp: pipe_inv_def)
  have "counts p' j = counts p j" for j using p' lens by (auto simp: counts_def on_part_nth)
  then show "push_keeps p p'" "push_undone tx p p'"
    using p' inv f by (auto simp: push_keeps_def push_undone_def pipe_inv_def same_shape_def Forget_ttl)
qed

lemma submit_push_effects:
  assumes inv: "pipe_inv p" and i: "i < length (p_parts p)"
    and r: "submit_push env i tx p = ((k, e), p')"
  shows "push_keeps p p'" and "e = None \<Longrightarrow> k = int i \<and> push_done env i tx p p'" and "e \<noteq> None \<Longrightarrow> push_undone tx p p'"
proof -
  obtain we w where w: "wal_Append (se_append env) tx (p_wal p) = (we, w)" by force
  consider (log) x where "we = Some x" | (full) x where "we = None" "Push tx (part_q p i) = Inl x"
    | (room) q where "we = None" "Push tx (part_q p i) = Inr q"
    by (cases we; cases "Push tx (part_q p i)") auto
  then have "push_keeps p p' \<and> (e = None \<longrightarrow> k = int i \<and> push_done env i tx p p') \<and> (e \<noteq> None \<longrightarrow> push_undone tx p p')"
  proof cases
    case log
    then have "p' = p\<lparr>p_wal := w, p_dedup := Forget (tx_ID tx) (p_dedup p)\<rparr>" "e = Some x" using r w by (auto simp: submit_push_def)
    then show ?thesis using push_failed [OF inv i disjI1] by blast
  next
    case full
    then have "p' = upd_metrics (\<lambda>m. on_part i (\<lambda>c. c\<lparr>pm_rejected := pm_rejected c + 1\<rparr>) (reject RejectQueueFull m))
         (p\<lparr>p_wal := snd (wal_Abort (se_abort env) (tx_ID tx) w), p_dedup := Forget (tx_ID tx) (p_dedup p)\<rparr>)" "e = Some x"
      using r w by (auto simp: submit_push_def)
    then show ?thesis using push_failed [OF inv i disjI2] by blast
  next
    case room
    then have "p' = upd_metrics (on_part i (\<lambda>c. c\<lparr>pm_accepted := pm_accepted c + 1, pm_queueDepth := word_of_int (Len q)\<rparr>))
         (set_q i q (p\<lparr>p_wal := w\<rparr>))" "e = None" "k = int i"
      using r w by (auto simp: submit_push_def)
    then show ?thesis using push_room [OF inv i room(2)] w room(1) by blast
  qed
  then show "push_keeps p p'" "e = None \<Longrightarrow> k = int i \<and> push_done env i tx p p'" "e \<noteq> None \<Longrightarrow> push_undone tx p p'"
    by blast+
qed

lemma numbered_state:
  assumes inv: "pipe_inv p" and i: "i < length (p_parts p)" and d: "dedup_inv d" "dd_ttl d = dd_ttl (p_dedup p)"
  shows "pipe_inv (set_seq i s (p\<lparr>p_dedup := d\<rparr>))" and "same_shape p (set_seq i s (p\<lparr>p_dedup := d\<rparr>))"
    and "counts (set_seq i s (p\<lparr>p_dedup := d\<rparr>)) = counts p"
    and "part_q (set_seq i s (p\<lparr>p_dedup := d\<rparr>)) j = part_q p j"
    and "pt_seq (p_parts (set_seq i s (p\<lparr>p_dedup := d\<rparr>)) ! j) = (if j = i then s else pt_seq (p_parts p ! j))"
    and "j \<noteq> i \<Longrightarrow> p_parts (set_seq i s (p\<lparr>p_dedup := d\<rparr>)) ! j = p_parts p ! j"
proof -
  let ?p = "set_seq i s (p\<lparr>p_dedup := d\<rparr>)"
  have n: "p_parts ?p ! j = (if j = i then (p_parts p ! i)\<lparr>pt_seq := s\<rparr> else p_parts p ! j)" for j
    using i set_seq_nth [of i "p\<lparr>p_dedup := d\<rparr>" s j] by simp
  show q: "part_q ?p j = part_q p j" for j by (simp add: n)
  show "pt_seq (p_parts ?p ! j) = (if j = i then s else pt_seq (p_parts p ! j))" by (simp add: n)
  show "j \<noteq> i \<Longrightarrow> p_parts ?p ! j = p_parts p ! j" by (simp add: n)
  show "counts ?p = counts p" by (rule counts_cong) simp
  show "same_shape p ?p" using d(2) by (simp add: same_shape_def)
  show "pipe_inv ?p" using inv d(1) unfolding pipe_inv_def q
    by (auto simp del: length_greater_0_conv dest!: arg_cong [of _ "[]" length])
qed

text \<open>A submission whose identifier was not known.\<close>

lemma Submit_recorded:
  assumes inv: "pipe_inv p" and ctx: "se_ctx env = None" and valid: "ValidateTx tx (MaxPayloadBytes (p_cfg p)) = None"
    and acc: "p_accepting p" and s: "SeenOrAdd (tx_ID tx) (se_now env) (p_dedup p) = Some (False, d)"
  obtains k e p' where "Submit env tx p = Some ((k, e), p')" and "pipe_inv p'" and "same_shape p p'" and "advanced p p'"
    and "case e of None \<Rightarrow> 0 \<le> k \<and> accepted env tx (nat k) p p' | Some x \<Rightarrow> refused tx x p p'"
proof -
  have di: "dedup_inv (p_dedup p)" using inv by (simp add: pipe_inv_def)
  have d: "dedup_inv d" using SeenOrAdd_ok [OF di] s by (metis option.inject prod.inject)
  define i where "i = nat (Partition (p_router p) (tx_Key tx))"
  note idx = partition_index [OF inv, of "tx_Key tx", folded i_def]
  let ?s = "pt_seq (p_parts p ! i) + 1"
  let ?p1 = "set_seq i ?s (p\<lparr>p_dedup := d\<rparr>)"
  note st = numbered_state [OF inv idx(1) d SeenOrAdd_ttl [OF s], where s = ?s]
  obtain k e p' where sp: "submit_push env i (numbered tx i p) ?p1 = ((k, e), p')" by (metis surj_pair)
  have i1: "i < length (p_parts ?p1)" using idx(1) by simp
  note ef = submit_push_effects [OF st(1) i1 sp, unfolded push_keeps_def push_done_def push_undone_def]
  have sub: "Submit env tx p = Some ((k, e), p')"
    using ctx valid acc s sp by (simp add: Submit_def i_def Let_def numbered_def)
  have shape: "same_shape p p'" "advanced p p'" using ef(1) st(2,5) by (simp_all add: same_shape_def advanced_def)
  have en: "dedup_entry d (tx_ID tx) = Some (se_now env + dd_ttl (p_dedup p))" using SeenOrAdd_adds [OF di] s by simp
  have "case e of None \<Rightarrow> 0 \<le> k \<and> accepted env tx (nat k) p p' | Some x \<Rightarrow> refused tx x p p'"
  proof (cases e)
    case None
    have "accepted env tx i p p'"
      using ef(2) [OF None] ef(1) st(3,4,5,6) idx valid acc en by (simp add: accepted_def)
    then show ?thesis using None ef(2) [OF None] by simp
  next
    case (Some x)
    then show ?thesis using ef(3) st(3,4) by (simp add: refused_def numbered_def)
  qed
  then show ?thesis using that [OF sub _ shape] ef(1) by blast
qed

text \<open>A submission refused before that: the state, apart from metrics and the table, is as it was.\<close>

lemma early_refusal:
  assumes inv: "pipe_inv p" and p': "p' = p \<or> p' = upd_metrics f (p\<lparr>p_dedup := d\<rparr>)"
    and f: "length (m_partitions (f (p_metrics p))) = length (m_partitions (p_metrics p))"
      "\<And>j. counts (upd_metrics f (p\<lparr>p_dedup := d\<rparr>)) j = counts p j"
    and d: "dedup_inv d" "dd_ttl d = dd_ttl (p_dedup p)" "d = p_dedup p \<or> e = ErrDuplicate"
  shows "pipe_inv p'" and "same_shape p p'" and "advanced p p'" and "refused tx e p p'"
  using assms by (auto simp: pipe_inv_def same_shape_def advanced_def refused_def)

lemma Submit_effects:
  assumes inv: "pipe_inv p"
  obtains k e p' where "Submit env tx p = Some ((k, e), p')" and "pipe_inv p'" and "same_shape p p'"
    and "advanced p p'"
    and "case e of None \<Rightarrow> 0 \<le> k \<and> accepted env tx (nat k) p p' | Some x \<Rightarrow> refused tx x p p'"
proof -
  have di: "dedup_inv (p_dedup p)" and l: "0 < length (m_partitions (p_metrics p))" using inv by (simp_all add: pipe_inv_def)
  obtain seen d where s: "SeenOrAdd (tx_ID tx) (se_now env) (p_dedup p) = Some (seen, d)" "dedup_inv d"
    using SeenOrAdd_ok [OF di] by blast
  let ?bad = "\<lambda>m. reject RejectInvalid (on_part 0 (\<lambda>c. c\<lparr>pm_rejected := pm_rejected c + 1\<rparr>) m)"
  have c: "counts (upd_metrics ?bad (p\<lparr>p_dedup := p_dedup p\<rparr>)) j = counts p j" for j using l by (simp add: counts_def on_part_nth)
  consider (ctx) x where "se_ctx env = Some x"
    | (bad) x where "se_ctx env = None" "ValidateTx tx (MaxPayloadBytes (p_cfg p)) = Some x"
    | (off) "se_ctx env = None" "ValidateTx tx (MaxPayloadBytes (p_cfg p)) = None" "\<not> p_accepting p"
    | (dup) "se_ctx env = None" "ValidateTx tx (MaxPayloadBytes (p_cfg p)) = None" "p_accepting p" "seen"
    | (fresh) "se_ctx env = None" "ValidateTx tx (MaxPayloadBytes (p_cfg p)) = None" "p_accepting p" "\<not> seen"
    by (cases "se_ctx env"; cases "ValidateTx tx (MaxPayloadBytes (p_cfg p))") auto
  then show ?thesis
  proof cases
    case ctx
    show ?thesis using early_refusal [OF inv disjI1 [OF refl], of id "p_dedup p"] di ctx
      by (intro that [of "- 1" "Some x" p]) (simp_all add: Submit_def counts_def)
  next
    case bad
    show ?thesis using early_refusal [OF inv disjI2 [OF refl], of ?bad "p_dedup p"] di c bad
      by (intro that [of "- 1" "Some x" "upd_metrics ?bad p"]) (simp_all add: Submit_def)
  next
    case off
    show ?thesis using early_refusal [OF inv disjI2 [OF refl], of "reject RejectStopped" "p_dedup p"] di off
      by (intro that [of "- 1" "Some ErrEngineStopped" "upd_metrics (reject RejectStopped) p"]) (simp_all add: Submit_def counts_def)
  next
    case dup
    show ?thesis using early_refusal [OF inv disjI2 [OF refl], of "reject RejectDuplicate" d ErrDuplicate] s SeenOrAdd_ttl [OF s(1)] dup
      by (intro that [of "- 1" "Some ErrDuplicate" "upd_metrics (reject RejectDuplicate) (p\<lparr>p_dedup := d\<rparr>)"])
        (simp_all add: Submit_def counts_def)
  next
    case fresh
    have "SeenOrAdd (tx_ID tx) (se_now env) (p_dedup p) = Some (False, d)" using s(1) fresh(4) by simp
    then show ?thesis by (rule Submit_recorded [OF inv fresh(1-3)]) (rule that)
  qed
qed

subsection \<open>Runs\<close>

datatype pipe_op = OSubmit submit_env Tx | OWork nat wake "nat \<Rightarrow> nat \<Rightarrow> flush_env"

text \<open>
  A run of submissions and worker rounds in any order: what was accepted and what was taken off the
  queues for commit, with the partitions, in the order it happened.
\<close>

fun pipe_run ::
  "'b backend option \<Rightarrow> pipe_op list \<Rightarrow> worker list \<times> Pipeline \<times> 'b
   \<Rightarrow> ((nat \<times> Tx) list \<times> (nat \<times> Tx) list \<times> worker list \<times> Pipeline \<times> 'b) option" where
  "pipe_run be [] st = Some ([], [], st)"
| "pipe_run be (OSubmit env tx # ops) (ws, p, b) =
     (case Submit env tx p of
        None \<Rightarrow> None
      | Some ((k, e), p') \<Rightarrow>
          (case pipe_run be ops (ws, p', b) of
             None \<Rightarrow> None
           | Some (acc, out, st) \<Rightarrow>
               Some (if e = None then (nat k, last (q_items (part_q p' (nat k)))) # acc else acc, out, st)))"
| "pipe_run be (OWork i wk env # ops) (ws, p, b) =
     (if i < length (p_parts p)
      then (case worker_round be i wk env (ws ! i) (p, b) of
              ((txs, ret), w, p', b') \<Rightarrow>
                (case pipe_run be ops (ws[i := w], p', b') of
                   None \<Rightarrow> None
                 | Some (acc, out, st) \<Rightarrow> Some (acc, map (Pair i) txs @ out, st)))
      else pipe_run be ops (ws, p, b))"

definition sel :: "nat \<Rightarrow> (nat \<times> Tx) list \<Rightarrow> Tx list" where
  "sel i xs = map snd (filter (\<lambda>x. fst x = i) xs)"

lemma sel_simps [simp]:
  "sel i [] = []" "sel i ((j, x) # xs) = (if j = i then x # sel i xs else sel i xs)"
  "sel i (xs @ ys) = sel i xs @ sel i ys" "sel i (map (Pair j) txs) = (if j = i then txs else [])"
  by (simp_all add: sel_def filter_map o_def)

text \<open>What a run does to one partition, from its state before to its state after.\<close>

definition run_ok :: "nat \<Rightarrow> Pipeline \<Rightarrow> (nat \<times> Tx) list \<Rightarrow> (nat \<times> Tx) list \<Rightarrow> Pipeline \<Rightarrow> bool" where
  "run_ok i p acc out p' \<longleftrightarrow>
     sel i out @ q_items (part_q p' i) = q_items (part_q p i) @ sel i acc
     \<and> fst (counts p' i) = fst (counts p i) + of_nat (length (sel i acc))
     \<and> snd (counts p' i) = snd (counts p i) + of_nat (length (sel i out))
     \<and> sorted_wrt (<) (map (\<lambda>t. unat (tx_Sequence t)) (sel i acc))
     \<and> (\<forall>t \<in> set (sel i acc). tx_Partition t = int i \<and> unat (pt_seq (p_parts p ! i)) < unat (tx_Sequence t)
          \<and> unat (tx_Sequence t) \<le> unat (pt_seq (p_parts p' ! i)))
     \<and> unat (pt_seq (p_parts p ! i)) \<le> unat (pt_seq (p_parts p' ! i))"

lemma worked_inv:
  assumes "pipe_inv p" and "worked i txs p p'"
  shows "pipe_inv p'"
proof -
  have q: "queue_inv (part_q p' j)" if "j < length (p_parts p)" for j
    using assms that by (cases "j = i") (auto simp: pipe_inv_def worked_def)
  show ?thesis using assms q unfolding pipe_inv_def worked_def same_frame_def
    by (metis length_0_conv)
qed

lemma worked_counts:
  "worked i txs p p' \<Longrightarrow> counts p' j = (if j = i then (fst (counts p i), snd (counts p i) + of_nat (length txs)) else counts p j)"
  by (auto simp: worked_def metrics_done_def counts_def)

lemma unat_suc: "unat s + k < 2 ^ 64 \<Longrightarrow> 0 < k \<Longrightarrow> unat (s + 1 :: u64) = Suc (unat s)"
  using unat_add_lem [of s 1] by simp

lemma run_ok_submit:
  assumes "accepted env tx j p p1" and "i < length (p_parts p)" and "run_ok i p1 acc out p'"
    and "unat (pt_seq (p_parts p ! i)) + k < 2 ^ 64" and "0 < k"
  shows "run_ok i p ((j, last (q_items (part_q p1 j))) # acc) out p'"
proof (cases "i = j")
  case False
  then show ?thesis using assms by (simp add: run_ok_def accepted_def)
next
  case True
  have q: "q_items (part_q p1 j) = q_items (part_q p j) @ [numbered tx j p]"
    using assms(1) by (simp add: accepted_def Push_Inr)
  have s: "unat (pt_seq (p_parts p1 ! i)) = Suc (unat (pt_seq (p_parts p ! i)))"
    using assms(1) unat_suc [OF assms(4,5)] True by (simp add: accepted_def)
  have t: "unat (tx_Sequence (numbered tx j p)) = unat (pt_seq (p_parts p1 ! i))"
      "tx_Partition (numbered tx j p) = int i"
    using assms(1) True by (simp_all add: accepted_def numbered_def)
  have c: "counts p1 j = (fst (counts p j) + 1, snd (counts p j))" using assms(1) by (simp add: accepted_def)
  show ?thesis using assms(3) q s t c True by (auto simp: run_ok_def less_Suc_eq_le intro: Suc_leD le_trans dest: less_imp_le)
qed

lemma run_ok_refused:
  assumes "refused tx x p p1" and "advanced p p1" and "i < length (p_parts p)" and "run_ok i p1 acc out p'"
    and "unat (pt_seq (p_parts p ! i)) + k < 2 ^ 64" and "0 < k"
  shows "run_ok i p acc out p'"
proof -
  have "unat (pt_seq (p_parts p ! i)) \<le> unat (pt_seq (p_parts p1 ! i))"
    using assms(2,3) unat_suc [OF assms(5,6)] by (auto simp: advanced_def)
  then show ?thesis using assms(1,3,4) by (auto simp: run_ok_def refused_def)
qed

lemma run_ok_work:
  assumes "worked j txs p p1" and "i < length (p_parts p)" and "run_ok i p1 acc out p'"
  shows "run_ok i p acc (map (Pair j) txs @ out) p'"
proof -
  have s: "pt_seq (p_parts p1 ! i) = pt_seq (p_parts p ! i)" using assms(1) by (cases "i = j") (auto simp: worked_def)
  have q: "(if j = i then txs else []) @ q_items (part_q p1 i) = q_items (part_q p i)"
    using assms(1) by (cases "i = j") (auto simp: worked_def)
  show ?thesis
    using assms(3) s q worked_counts [OF assms(1), of i] by (auto simp: run_ok_def)
qed

lemma advanced_bound:
  assumes "advanced p p1" and "i < length (p_parts p)" and "unat (pt_seq (p_parts p ! i)) + Suc n < 2 ^ 64"
  shows "unat (pt_seq (p_parts p1 ! i)) + n < 2 ^ 64"
  using assms unat_suc [OF assms(3)] by (auto simp: advanced_def)

definition room_for :: "nat \<Rightarrow> Pipeline \<Rightarrow> bool" where
  "room_for n p \<longleftrightarrow> (\<forall>i < length (p_parts p). unat (pt_seq (p_parts p ! i)) + n < 2 ^ 64)"

lemma run_ok_after_submit:
  assumes "case e of None \<Rightarrow> 0 \<le> k \<and> accepted env tx (nat k) p p1 | Some x \<Rightarrow> refused tx x p p1"
    and "advanced p p1" and "room_for (Suc n) p" and "i < length (p_parts p)" and "run_ok i p1 acc out p'"
  shows "run_ok i p (if e = None then (nat k, last (q_items (part_q p1 (nat k)))) # acc else acc) out p'"
  using assms run_ok_submit [of env tx "nat k" p p1 i acc out p' "Suc n"]
    run_ok_refused [OF _ assms(2), of tx _ i acc out p' "Suc n"]
  by (auto simp: room_for_def split: option.splits)

lemma room_for_advanced: "advanced p p1 \<Longrightarrow> length (p_parts p1) = length (p_parts p) \<Longrightarrow> room_for (Suc n) p \<Longrightarrow> room_for n p1"
  using advanced_bound [of p p1 _ n] by (simp add: room_for_def)

lemma room_for_worked:
  assumes "worked j txs p p1" and "room_for (Suc n) p"
  shows "room_for n p1"
proof -
  have "pt_seq (p_parts p1 ! i) = pt_seq (p_parts p ! i)" for i using assms(1) by (cases "i = j") (auto simp: worked_def)
  then show ?thesis using worked_shape [OF assms(1)] assms(2) by (auto simp: room_for_def dest: spec)
qed

lemma pipe_run_ok:
  assumes "pipe_inv p" and "room_for (length ops) p"
  shows "\<exists>acc out ws' p' b'. pipe_run be ops (ws, p, b) = Some (acc, out, ws', p', b') \<and> pipe_inv p'
     \<and> length (p_parts p') = length (p_parts p) \<and> (\<forall>i < length (p_parts p). run_ok i p acc out p')"
  using assms
proof (induction ops arbitrary: ws p b)
  case Nil
  then show ?case by (simp add: run_ok_def)
next
  case (Cons op ops)
  have room: "room_for (Suc (length ops)) p" using Cons.prems(2) by simp
  show ?case
  proof (cases op)
    case (OSubmit env tx)
    obtain k e p1 where s: "Submit env tx p = Some ((k, e), p1)" "pipe_inv p1" "same_shape p p1" "advanced p p1"
        "case e of None \<Rightarrow> 0 \<le> k \<and> accepted env tx (nat k) p p1 | Some x \<Rightarrow> refused tx x p p1"
      using Submit_effects [OF Cons.prems(1)] by blast
    have len: "length (p_parts p1) = length (p_parts p)" using s(3) by (simp add: same_shape_def)
    from Cons.IH [OF s(2) room_for_advanced [OF s(4) len room], of ws b] obtain acc out ws' p' b' where
      r: "pipe_run be ops (ws, p1, b) = Some (acc, out, ws', p', b')" "pipe_inv p'"
        "length (p_parts p') = length (p_parts p)" "\<forall>i < length (p_parts p). run_ok i p1 acc out p'"
      using len by auto
    then show ?thesis using OSubmit s(1) run_ok_after_submit [OF s(5,4) room] by simp
  next
    case (OWork j wk env)
    show ?thesis
    proof (cases "j < length (p_parts p)")
      case True
      obtain txs ret w p1 b1 where w: "worker_round be j wk env (ws ! j) (p, b) = ((txs, ret), w, p1, b1)"
        by (metis surj_pair)
      have l: "j < length (m_partitions (p_metrics p))" using Cons.prems(1) True by (simp add: pipe_inv_def)
      note wk = worker_round_worked(1) [OF True l w]
      from Cons.IH [OF worked_inv [OF Cons.prems(1) wk] room_for_worked [OF wk room], of "ws[j := w]" b1] worked_shape [OF wk]
      obtain acc out ws' p' b' where r: "pipe_run be ops (ws[j := w], p1, b1) = Some (acc, out, ws', p', b')"
          "pipe_inv p'" "length (p_parts p') = length (p_parts p)" "\<forall>i < length (p_parts p). run_ok i p1 acc out p'"
        by auto
      then show ?thesis using OWork True w run_ok_work [OF wk] by simp
    next
      case False
      have "room_for (length ops) p" using room by (auto simp: room_for_def dest: spec)
      from Cons.IH [OF Cons.prems(1) this, of ws b] False OWork show ?thesis by simp
    qed
  qed
qed

subsection \<open>Stop\<close>

lemma worked_other: "worked i txs p p' \<Longrightarrow> j \<noteq> i \<Longrightarrow> p_parts p' ! j = p_parts p ! j"
  by (simp add: worked_def)

lemma join_workers_drained:
  assumes "pipe_inv p" and "distinct js" and "\<forall>i \<in> set js. i < length (p_parts p)"
    and "join_workers be env js ws (p, b) = (out, ws', p', b')"
  shows "pipe_inv p' \<and> length (p_parts p') = length (p_parts p) \<and> p_accepting p' = p_accepting p
     \<and> p_stopped p' = p_stopped p \<and> p_cfg p' = p_cfg p \<and> out = map (\<lambda>i. (i, q_items (part_q p i))) js
     \<and> (\<forall>i \<in> set js. q_items (part_q p' i) = [] \<and> fst (counts p' i) = fst (counts p i)
          \<and> snd (counts p' i) = snd (counts p i) + of_nat (length (q_items (part_q p i))))
     \<and> (\<forall>i. i \<notin> set js \<longrightarrow> part_q p' i = part_q p i \<and> counts p' i = counts p i)"
  using assms
proof (induction js arbitrary: ws p b out)
  case Nil
  then show ?case by simp
next
  case (Cons i js)
  have i: "i < length (p_parts p)" "i < length (m_partitions (p_metrics p))"
    using Cons.prems(1,3) by (auto simp: pipe_inv_def)
  obtain txs ret w p1 b1 where r: "worker_round be i Done (env i) (ws ! i) (p, b) = ((txs, ret), w, p1, b1)"
    by (metis surj_pair)
  obtain out2 ws2 p2 b2 where j: "join_workers be env js (ws[i := w]) (p1, b1) = (out2, ws2, p2, b2)"
    by (metis surj_pair)
  have e: "out = (i, txs) # out2" "p' = p2" "ws' = ws2" "b' = b2" using Cons.prems(4) r j by auto
  note wk = worker_round_worked(1) [OF i r] and dr = worker_round_worked(3) [OF i r]
  have txs: "txs = q_items (part_q p i)" "q_items (part_q p1 i) = []" using wk dr by (auto simp: worked_def)
  have len: "length (p_parts p1) = length (p_parts p)" using worked_shape [OF wk] by simp
  have fr: "p_accepting p1 = p_accepting p" "p_stopped p1 = p_stopped p" "p_cfg p1 = p_cfg p"
    using wk by (auto simp: worked_def same_frame_def)
  have q: "part_q p1 k = part_q p k" if "k \<noteq> i" for k using worked_other [OF wk that] by simp
  have c: "counts p1 k = counts p k" if "k \<noteq> i" for k using worked_counts [OF wk, of k] that by simp
  have ci: "counts p1 i = (fst (counts p i), snd (counts p i) + of_nat (length txs))"
    using worked_counts [OF wk, of i] by simp
  have pre: "distinct js" "\<forall>i \<in> set js. i < length (p_parts p1)" "i \<notin> set js" using Cons.prems(2,3) len by auto
  from Cons.IH [OF worked_inv [OF Cons.prems(1) wk] pre(1,2), of "ws[i := w]" b1 out2] j e
  have IH: "pipe_inv p'" "length (p_parts p') = length (p_parts p)" "p_accepting p' = p_accepting p"
      "p_stopped p' = p_stopped p" "p_cfg p' = p_cfg p" "out2 = map (\<lambda>i. (i, q_items (part_q p1 i))) js"
      "\<forall>i \<in> set js. q_items (part_q p' i) = [] \<and> fst (counts p' i) = fst (counts p1 i)
          \<and> snd (counts p' i) = snd (counts p1 i) + of_nat (length (q_items (part_q p1 i)))"
      "\<forall>i. i \<notin> set js \<longrightarrow> part_q p' i = part_q p1 i \<and> counts p' i = counts p1 i"
    using len fr by simp_all
  have ne: "k \<noteq> i" if "k \<in> set js" for k using pre(3) that by auto
  have "out = map (\<lambda>i. (i, q_items (part_q p i))) (i # js)" using e IH(6) txs q ne by simp
  moreover have "\<forall>k \<in> set (i # js). q_items (part_q p' k) = [] \<and> fst (counts p' k) = fst (counts p k)
          \<and> snd (counts p' k) = snd (counts p k) + of_nat (length (q_items (part_q p k)))"
    using IH(7,8) ci txs q c ne pre(3) by simp
  moreover have "\<forall>k. k \<notin> set (i # js) \<longrightarrow> part_q p' k = part_q p k \<and> counts p' k = counts p k"
    using IH(8) q c by simp
  ultimately show ?case using IH(1-5) by blast
qed

lemma close_all_inv:
  assumes "pipe_inv p"
  shows "pipe_inv (close_all p)" and "counts (close_all p) = counts p"
    and "i < length (p_parts p) \<Longrightarrow> q_items (part_q (close_all p) i) = q_items (part_q p i)"
    and "length (p_parts (close_all p)) = length (p_parts p)" and "\<not> p_accepting (close_all p)"
    and "p_cfg (close_all p) = p_cfg p"
proof -
  have n: "part_q (close_all p) i = CloseQueue (part_q p i)" if "i < length (p_parts p)" for i
    using that by (simp add: close_all_def)
  show l: "length (p_parts (close_all p)) = length (p_parts p)" by (simp add: close_all_def)
  show "counts (close_all p) = counts p" by (rule counts_cong) (simp add: close_all_def)
  show "i < length (p_parts p) \<Longrightarrow> q_items (part_q (close_all p) i) = q_items (part_q p i)"
    by (simp add: n CloseQueue_def)
  show "\<not> p_accepting (close_all p)" "p_cfg (close_all p) = p_cfg p" by (simp_all add: close_all_def)
  have "queue_inv (part_q (close_all p) i)" if "i < length (p_parts p)" for i
    using that assms queue_inv_Close by (simp add: n pipe_inv_def)
  then show "pipe_inv (close_all p)" using assms unfolding pipe_inv_def l
    by (simp add: close_all_def)
qed

subsection \<open>An example pipeline\<close>

definition cfg1 :: Config where
  "cfg1 = \<lparr>Partitions = 1, QueueCapacity = 1, BatchSize = 4, MaxPayloadBytes = 10, DedupCapacity = 128,
     FlushInterval = 1, DedupTTL = 10, CommitTimeout = 0,
     Retry = \<lparr>MaxAttempts = 1, InitialBackoff = 1, MaxBackoff = 1\<rparr>, WALPath = '''', SyncWAL = False\<rparr>"

definition pipe1 :: Pipeline where
  "pipe1 = projr (NewPipeline cfg1 (Inr []) 0)"

lemma pipe1_new: "NewPipeline cfg1 (Inr []) 0 = Inr pipe1"
  by (simp add: pipe1_def NewPipeline_def cfg1_def Validate_def OpenWAL_def)

definition worker0 :: worker where
  "worker0 = \<lparr>w_expected = 0, w_initialized = False\<rparr>"

definition env0 :: submit_env where
  "env0 = \<lparr>se_ctx = None, se_now = 0, se_append = io_ok, se_abort = io_ok\<rparr>"

definition fenv0 :: "nat \<Rightarrow> nat \<Rightarrow> flush_env" where
  "fenv0 = (\<lambda>_ _. \<lparr>fe_ctx = (\<lambda>_. False), fe_io = io_ok, fe_latency = 0\<rparr>)"

subsection \<open>Properties\<close>

text \<open>
  Submit never panics and keeps the pipeline well formed: from every well-formed state, for every
  transaction and whatever the context, the clock and the log do, it returns a result, and the state
  it leaves is well formed.
\<close>

theorem submit_total_inv:
  assumes "pipe_inv p"
  shows "\<exists>r p'. Submit env tx p = Some (r, p') \<and> pipe_inv p'"
  using Submit_effects [OF assms] by metis

theorem submit_total_inv_witness:
  "\<exists>r p'. Submit env0 tx_a pipe1 = Some (r, p') \<and> pipe_inv p'"
  by (rule submit_total_inv [OF NewPipeline_inv(1) [OF pipe1_new]])

text \<open>
  C11 What acceptance means: if Submit returns no error, the transaction was valid and the engine was
  accepting; the index returned is the partition of its key; the transaction, stamped with that
  partition and the next sequence number, is the last of exactly that queue; its identifier is
  remembered until now plus the time-to-live; and if there is a log, its prepare record was appended.
\<close>

theorem submit_accepted:
  assumes "pipe_inv p" and "Submit env tx p = Some ((k, None), p')"
  shows "ValidateTx tx (MaxPayloadBytes (p_cfg p)) = None \<and> p_accepting p
     \<and> k = Partition (p_router p) (tx_Key tx) \<and> 0 \<le> k \<and> k < int (length (p_parts p))
     \<and> q_items (part_q p' (nat k)) = q_items (part_q p (nat k)) @
          [tx\<lparr>tx_Partition := k, tx_Sequence := pt_seq (p_parts p ! nat k) + 1\<rparr>]
     \<and> (\<forall>j < length (p_parts p). j \<noteq> nat k \<longrightarrow> part_q p' j = part_q p j)
     \<and> dedup_entry (p_dedup p') (tx_ID tx) = Some (se_now env + dd_ttl (p_dedup p))
     \<and> wal_Append (se_append env) (tx\<lparr>tx_Partition := k, tx_Sequence := pt_seq (p_parts p ! nat k) + 1\<rparr>) (p_wal p)
          = (None, p_wal p')"
proof -
  have a: "0 \<le> k" "accepted env tx (nat k) p p'" using Submit_effects [OF assms(1), of env tx] assms(2) by fastforce+
  then show ?thesis by (auto simp: accepted_def numbered_def Push_Inr)
qed

lemma pipe1_part0: "p_parts pipe1 = [\<lparr>pt_q = \<lparr>q_items = [], q_cap = 1, q_closed = False, q_notify = False, q_depth = 0\<rparr>, pt_seq = 0\<rparr>]"
  by (simp add: pipe1_def NewPipeline_def cfg1_def Validate_def OpenWAL_def NewQueue_def)

lemma pipe1_fields:
  "p_cfg pipe1 = cfg1" "p_wal pipe1 = None" "p_accepting pipe1" "p_router pipe1 = \<lparr>r_partitions = 1\<rparr>"
  "p_dedup pipe1 = dedup_128" "p_metrics pipe1 = newMetrics 1 0" "\<not> p_stopped pipe1"
  "p_committer pipe1 = NewCommitter \<lparr>MaxAttempts = 1, InitialBackoff = 1, MaxBackoff = 1\<rparr> 0"
  using NewDedup_128
  by (simp_all add: pipe1_def NewPipeline_def cfg1_def Validate_def OpenWAL_def NewRouter_def)

lemma submit_a_accepted: "\<exists>p'. Submit env0 tx_a pipe1 = Some ((0, None), p')"
proof -
  have v: "ValidateTx tx_a (MaxPayloadBytes cfg1) = None"
    by (simp add: ValidateTx_def tx_a_def cfg1_def id_rune_ok_def slice_len_def)
  have k: "nat (Partition \<lparr>r_partitions = 1\<rparr> (tx_Key tx_a)) = 0" by (simp add: Partition_def)
  have "shard_index (tx_ID tx_a) < 32" by simp
  then obtain d where d: "SeenOrAdd (tx_ID tx_a) 0 dedup_128 = Some (False, d)"
    by (simp add: SeenOrAdd_def shard_SeenOrAdd_def expireLocked_def dedup_128_def)
  show ?thesis
    by (simp add: Submit_def env0_def pipe1_fields v d k submit_push_def wal_Append_def set_seq_def
        pipe1_part0 Push_def Let_def)
qed

theorem submit_accepted_witness:
  "\<exists>p'. Submit env0 tx_a pipe1 = Some ((0, None), p') \<and> ValidateTx tx_a (MaxPayloadBytes (p_cfg pipe1)) = None \<and> p_accepting pipe1
     \<and> 0 = Partition (p_router pipe1) (tx_Key tx_a) \<and> q_items (part_q p' 0) = q_items (part_q pipe1 0) @
          [tx_a\<lparr>tx_Partition := 0, tx_Sequence := pt_seq (p_parts pipe1 ! 0) + 1\<rparr>]"
proof -
  obtain p' where s: "Submit env0 tx_a pipe1 = Some ((0, None), p')" using submit_a_accepted by blast
  from submit_accepted [OF NewPipeline_inv(1) [OF pipe1_new] s] s show ?thesis by auto
qed



text \<open>
  C3 The pipeline is lossless and ordered: for every interleaving of whole submissions and worker
  rounds on a new pipeline, with any backend, in every partition the transactions taken for commit
  followed by those still queued are exactly the accepted ones in the order of acceptance, their
  sequence numbers strictly increase, the accepted counter counts them, and the committed and failed
  counters together count those taken.
\<close>

theorem pipeline_run_exact:
  assumes "NewPipeline cfg os now = Inr p" and "length ops < 2 ^ 64"
  shows "\<exists>acc out ws' p' b'. pipe_run be ops (ws, p, b) = Some (acc, out, ws', p', b')
     \<and> (\<forall>i < length (p_parts p).
          sel i out @ q_items (part_q p' i) = sel i acc
          \<and> sorted_wrt (<) (map (\<lambda>t. unat (tx_Sequence t)) (sel i acc))
          \<and> pm_accepted (part_m p' i) = of_nat (length (sel i acc))
          \<and> pm_committed (part_m p' i) + pm_failed (part_m p' i) = of_nat (length (sel i out)))"
proof -
  note n = NewPipeline_inv [OF assms(1)]
  have "room_for (length ops) p" using n(4) assms(2) by (simp add: room_for_def)
  from pipe_run_ok [OF n(1) this, of be ws b] obtain acc out ws' p' b' where
    r: "pipe_run be ops (ws, p, b) = Some (acc, out, ws', p', b')" "\<forall>i < length (p_parts p). run_ok i p acc out p'"
    by blast
  have "sel i out @ q_items (part_q p' i) = sel i acc
          \<and> sorted_wrt (<) (map (\<lambda>t. unat (tx_Sequence t)) (sel i acc))
          \<and> pm_accepted (part_m p' i) = of_nat (length (sel i acc))
          \<and> pm_committed (part_m p' i) + pm_failed (part_m p' i) = of_nat (length (sel i out))"
    if "i < length (p_parts p)" for i
    using r(2) n(4) [OF that] that by (auto simp: run_ok_def counts_def zero_pm_def)
  with r(1) show ?thesis by blast
qed

theorem pipeline_run_exact_witness:
  "\<exists>acc out ws' p' b'. pipe_run None [OSubmit env0 tx_a, OWork 0 Tick fenv0] ([worker0], pipe1, ()) = Some (acc, out, ws', p', b')
     \<and> (\<forall>i < length (p_parts pipe1).
          sel i out @ q_items (part_q p' i) = sel i acc
          \<and> sorted_wrt (<) (map (\<lambda>t. unat (tx_Sequence t)) (sel i acc))
          \<and> pm_accepted (part_m p' i) = of_nat (length (sel i acc))
          \<and> pm_committed (part_m p' i) + pm_failed (part_m p' i) = of_nat (length (sel i out)))"
  by (rule pipeline_run_exact [OF pipe1_new]) simp

text \<open>
  C13 Stop drains: on a running pipeline it hands every queued transaction to its worker in queue
  order, leaves every queue empty with committed plus failed grown by what was queued, and from then
  on Submit refuses every valid transaction with ErrEngineStopped.
\<close>

theorem stop_drains:
  assumes "pipe_inv p" and "\<not> p_stopped p" and "Stop be env ws (p, b) = (out, ws', p', b')"
  shows "out = map (\<lambda>i. (i, q_items (part_q p i))) [0..<length (p_parts p)]
     \<and> (\<forall>i < length (p_parts p). q_items (part_q p' i) = []
          \<and> pm_committed (part_m p' i) + pm_failed (part_m p' i)
              = pm_committed (part_m p i) + pm_failed (part_m p i) + of_nat (length (q_items (part_q p i))))
     \<and> (se_ctx senv = None \<and> ValidateTx tx (MaxPayloadBytes (p_cfg p)) = None \<longrightarrow>
          (\<exists>p''. Submit senv tx p' = Some ((- 1, Some ErrEngineStopped), p'')))"
proof -
  let ?p0 = "p\<lparr>p_stopped := True\<rparr>"
  have i0: "pipe_inv ?p0" using assms(1) by (simp add: pipe_inv_def)
  note c = close_all_inv [OF i0]
  obtain out2 ws2 p2 b2 where j: "join_workers be env [0..<length (p_parts p)] ws (close_all ?p0, b) = (out2, ws2, p2, b2)"
    by (metis surj_pair)
  have e: "out = out2" "p' = p2\<lparr>p_wal := snd (wal_Close (p_wal p2))\<rparr>"
    using assms(2,3) j by (auto simp: Stop_def)
  have "\<forall>i \<in> set [0..<length (p_parts p)]. i < length (p_parts (close_all ?p0))" using c(4) by simp
  note w = join_workers_drained [OF c(1) distinct_upt this j]
  have cnt: "counts p' = counts p2" "counts (close_all ?p0) = counts p" using e c(2) by (auto simp: counts_def)
  have "out = map (\<lambda>i. (i, q_items (part_q p i))) [0..<length (p_parts p)]"
    using w e c(3) by simp
  moreover have "\<forall>i < length (p_parts p). q_items (part_q p' i) = [] \<and> pm_committed (part_m p' i) + pm_failed (part_m p' i)
      = pm_committed (part_m p i) + pm_failed (part_m p i) + of_nat (length (q_items (part_q p i)))"
    using w e c(3) cnt by (auto simp: counts_def fun_eq_iff)
  moreover have "\<not> p_accepting p'" "p_cfg p' = p_cfg p" using w e c(5,6) by auto
  ultimately show ?thesis by (auto simp: Submit_def)
qed

theorem stop_drains_witness:
  "\<exists>out ws' p' b'. Stop None (\<lambda>_. fenv0) [worker0] (pipe1, ()) = (out, ws', p', b')
     \<and> out = map (\<lambda>i. (i, q_items (part_q pipe1 i))) [0..<length (p_parts pipe1)]
     \<and> (\<forall>i < length (p_parts pipe1). q_items (part_q p' i) = [])"
proof -
  obtain out ws' p' b' where s: "Stop None (\<lambda>_. fenv0) [worker0] (pipe1, ()) = (out, ws', p', b')"
    by (metis surj_pair)
  from stop_drains [OF NewPipeline_inv(1) [OF pipe1_new] NewPipeline_inv(3) [OF pipe1_new] s] s show ?thesis by blast
qed

end
