(* ===== verification/V2_Concurrency.thy ===== *)
theory V2_Concurrency
  imports V2_Pipeline_Runs
begin

text \<open>
  Concurrent submissions. \<^verbatim>\<open>Submit\<close> holds no lock across its body, so here it is cut into the
  steps that are atomic in the source: the admission checks, the deduplication lookup, the atomic
  increment of the partition's counter, the append to the log, the test of the queue's closed flag,
  the send, and the final counters. A system is any number of clients in their stages, the
  pipeline, the workers and the backend; \<open>sys_step\<close> interleaves them. Run without interference the
  steps are \<^verbatim>\<open>Submit\<close> (\<open>client_run_is_Submit\<close>). In every interleaving no sequence number is used
  twice in a partition; but the queue order need not be the number order, and a submission that
  passed the closed test before \<^verbatim>\<open>Stop\<close> can be accepted after the workers have returned.
\<close>

subsection \<open>The steps of a submission\<close>

datatype client =
    CStart Tx
  | CChecked Tx
  | CFresh Tx
  | CNumbered nat Tx
  | CLogged nat Tx
  | CSending nat Tx
  | CSent nat Tx
  | CDone int "err option"

definition refuse_push :: "submit_env \<Rightarrow> nat \<Rightarrow> Tx \<Rightarrow> err \<Rightarrow> Pipeline \<Rightarrow> client \<times> Pipeline" where
  "refuse_push env i tx e p =
     (CDone (int i) (Some e),
      upd_metrics (\<lambda>m. on_part i (\<lambda>c. c\<lparr>pm_rejected := pm_rejected c + 1\<rparr>) (reject RejectQueueFull m))
        (p\<lparr>p_dedup := Forget (tx_ID tx) (p_dedup p),
           p_wal := snd (wal_Abort (se_abort env) (tx_ID tx) (p_wal p))\<rparr>))"

fun client_step :: "submit_env \<Rightarrow> client \<Rightarrow> Pipeline \<Rightarrow> (client \<times> Pipeline) option" where
  "client_step env (CStart tx) p =
     (case se_ctx env of
        Some e \<Rightarrow> Some (CDone (- 1) (Some e), p)
      | None \<Rightarrow>
          (case ValidateTx tx (MaxPayloadBytes (p_cfg p)) of
             Some e \<Rightarrow>
               Some (CDone (- 1) (Some e),
                     upd_metrics (\<lambda>m. reject RejectInvalid
                       (on_part 0 (\<lambda>c. c\<lparr>pm_rejected := pm_rejected c + 1\<rparr>) m)) p)
           | None \<Rightarrow>
               if \<not> p_accepting p
               then Some (CDone (- 1) (Some ErrEngineStopped), upd_metrics (reject RejectStopped) p)
               else Some (CChecked tx, p)))"
| "client_step env (CChecked tx) p =
     (case SeenOrAdd (tx_ID tx) (se_now env) (p_dedup p) of
        None \<Rightarrow> None
      | Some (True, d) \<Rightarrow>
          Some (CDone (- 1) (Some ErrDuplicate), upd_metrics (reject RejectDuplicate) (p\<lparr>p_dedup := d\<rparr>))
      | Some (False, d) \<Rightarrow> Some (CFresh tx, p\<lparr>p_dedup := d\<rparr>))"
| "client_step env (CFresh tx) p =
     (let i = nat (Partition (p_router p) (tx_Key tx)); s = pt_seq (p_parts p ! i) + 1
      in Some (CNumbered i (tx\<lparr>tx_Partition := int i, tx_Sequence := s\<rparr>), set_seq i s p))"
| "client_step env (CNumbered i tx) p =
     (case wal_Append (se_append env) tx (p_wal p) of
        (Some e, w) \<Rightarrow> Some (CDone (- 1) (Some e), p\<lparr>p_wal := w, p_dedup := Forget (tx_ID tx) (p_dedup p)\<rparr>)
      | (None, w) \<Rightarrow> Some (CLogged i tx, p\<lparr>p_wal := w\<rparr>))"
| "client_step env (CLogged i tx) p =
     (if q_closed (part_q p i) then Some (refuse_push env i tx ErrEngineStopped p) else Some (CSending i tx, p))"
| "client_step env (CSending i tx) p =
     (let q = part_q p i
      in if int (length (q_items q)) < q_cap q
         then Some (CSent i tx, set_q i (q\<lparr>q_items := q_items q @ [tx], q_depth := q_depth q + 1, q_notify := True\<rparr>) p)
         else Some (refuse_push env i tx ErrQueueFull p))"
| "client_step env (CSent i tx) p =
     Some (CDone (int i) None,
           upd_metrics (on_part i (\<lambda>c. c\<lparr>pm_accepted := pm_accepted c + 1,
                                           pm_queueDepth := word_of_int (Len (part_q p i))\<rparr>)) p)"
| "client_step env (CDone k e) p = Some (CDone k e, p)"

fun client_run :: "nat \<Rightarrow> submit_env \<Rightarrow> client \<Rightarrow> Pipeline \<Rightarrow> (client \<times> Pipeline) option" where
  "client_run 0 env c p = Some (c, p)"
| "client_run (Suc n) env c p =
     (case client_step env c p of None \<Rightarrow> None | Some (c', p') \<Rightarrow> client_run n env c' p')"

lemma client_run_done [simp]: "client_run n env (CDone k e) p = Some (CDone k e, p)"
  by (induction n) simp_all

lemma client_run_push:
  assumes "i < length (p_parts p)"
  shows "client_run 4 env (CNumbered i tx) p =
    (case submit_push env i tx p of ((k, e), p') \<Rightarrow> Some (CDone k e, p'))"
proof -
  obtain we w where w: "wal_Append (se_append env) tx (p_wal p) = (we, w)" by force
  have q: "part_q (set_q i q (p\<lparr>p_wal := w\<rparr>)) i = q" for q using assms set_q_nth [of i "p\<lparr>p_wal := w\<rparr>" q i] by simp
  show ?thesis
    using w q
    by (cases we; cases "q_closed (part_q p i)"; cases "int (length (q_items (part_q p i))) < q_cap (part_q p i)")
      (simp_all add: numeral_eq_Suc submit_push_def Push_def refuse_push_def Let_def)
qed

text \<open>Run to its end without interference, a client is one call of Submit.\<close>

lemma client_run_is_Submit:
  assumes "pipe_inv p"
  shows "client_run 7 env (CStart tx) p = map_option (\<lambda>((k, e), p'). (CDone k e, p')) (Submit env tx p)"
proof -
  define n :: nat where "n = 4"
  then have seven: "7 = Suc (Suc (Suc n))" by simp
  let ?i = "nat (Partition (p_router p) (tx_Key tx))"
  have push: "client_run n env (CNumbered ?i t) (set_seq ?i s (p\<lparr>p_dedup := d\<rparr>)) =
      (case submit_push env ?i t (set_seq ?i s (p\<lparr>p_dedup := d\<rparr>)) of ((k, e), p') \<Rightarrow> Some (CDone k e, p'))" for t s d
    unfolding n_def by (rule client_run_push) (use partition_index(1) [OF assms] in simp)
  show ?thesis
  proof (cases "se_ctx env = None \<and> ValidateTx tx (MaxPayloadBytes (p_cfg p)) = None \<and> p_accepting p")
    case True
    obtain r where r: "SeenOrAdd (tx_ID tx) (se_now env) (p_dedup p) = r" by simp
    show ?thesis
    proof (cases r)
      case None
      then show ?thesis using True r unfolding seven by (simp add: Submit_def)
    next
      case (Some a)
      obtain seen d where "a = (seen, d)" by force
      then show ?thesis using True r Some push unfolding seven
        by (cases seen) (simp_all add: Submit_def Let_def split: prod.split)
    qed
  next
    case False
    then show ?thesis unfolding seven by (auto simp: Submit_def split: option.split)
  qed
qed

subsection \<open>The system\<close>

record 'b sys =
  y_clients :: "client list"
  y_pipe :: Pipeline
  y_workers :: "worker list"
  y_alive :: "bool list"
  y_backend :: 'b
  y_out :: "(nat \<times> Tx) list"

text \<open>
  A step of a client, a batch of a worker that has not returned, or the closing part of \<^verbatim>\<open>Stop\<close>. A
  worker returns when it finds its queue empty and closed.
\<close>

inductive sys_step :: "'b backend option \<Rightarrow> 'b sys \<Rightarrow> 'b sys \<Rightarrow> bool" for be where
  client: "\<lbrakk>j < length (y_clients s); client_step env (y_clients s ! j) (y_pipe s) = Some (c, p)\<rbrakk>
    \<Longrightarrow> sys_step be s (s\<lparr>y_clients := (y_clients s)[j := c], y_pipe := p\<rparr>)"
| worker: "\<lbrakk>i < length (p_parts (y_pipe s)); y_alive s ! i;
     worker_batch be i env (y_workers s ! i) (y_pipe s, y_backend s) = ((batch, closed), w, p, b)\<rbrakk>
    \<Longrightarrow> sys_step be s (s\<lparr>y_pipe := p, y_workers := (y_workers s)[i := w], y_alive := (y_alive s)[i := \<not> closed],
                           y_backend := b, y_out := y_out s @ map (Pair i) batch\<rparr>)"
| stop: "sys_step be s (s\<lparr>y_pipe := close_all (y_pipe s)\<rparr>)"

inductive sys_reach :: "'b backend option \<Rightarrow> 'b sys \<Rightarrow> nat \<Rightarrow> 'b sys \<Rightarrow> bool" for be s0 where
  init: "sys_reach be s0 0 s0"
| step: "sys_reach be s0 n s \<Longrightarrow> sys_step be s s' \<Longrightarrow> sys_reach be s0 (Suc n) s'"

definition new_sys :: "Pipeline \<Rightarrow> Tx list \<Rightarrow> 'b \<Rightarrow> 'b sys" where
  "new_sys p txs b = \<lparr>y_clients = map CStart txs, y_pipe = p, y_workers = replicate (length (p_parts p)) worker0,
     y_alive = replicate (length (p_parts p)) True, y_backend = b, y_out = []\<rparr>"

subsection \<open>No sequence number is used twice\<close>

text \<open>The numbers of partition \<open>i\<close> that are in use: held by clients, queued, or taken by the worker.\<close>

fun held :: "nat \<Rightarrow> client \<Rightarrow> nat multiset" where
  "held i (CNumbered j tx) = (if j = i then {#unat (tx_Sequence tx)#} else {#})"
| "held i (CLogged j tx) = (if j = i then {#unat (tx_Sequence tx)#} else {#})"
| "held i (CSending j tx) = (if j = i then {#unat (tx_Sequence tx)#} else {#})"
| "held i _ = {#}"

abbreviation seqs :: "Tx list \<Rightarrow> nat multiset" where
  "seqs txs \<equiv> mset (map (\<lambda>t. unat (tx_Sequence t)) txs)"

definition in_use :: "nat \<Rightarrow> 'b sys \<Rightarrow> nat multiset" where
  "in_use i s = seqs (sel i (y_out s)) + seqs (q_items (part_q (y_pipe s) i)) + sum_list (map (held i) (y_clients s))"

fun stage_ok :: "nat \<Rightarrow> client \<Rightarrow> bool" where
  "stage_ok n (CNumbered i tx) = (i < n)"
| "stage_ok n (CLogged i tx) = (i < n)"
| "stage_ok n (CSending i tx) = (i < n)"
| "stage_ok n (CSent i tx) = (i < n)"
| "stage_ok n _ = True"

definition stages_ok :: "'b sys \<Rightarrow> bool" where
  "stages_ok s \<longleftrightarrow> list_all (stage_ok (length (p_parts (y_pipe s)))) (y_clients s)"

definition sys_inv :: "nat \<Rightarrow> 'b sys \<Rightarrow> bool" where
  "sys_inv n s \<longleftrightarrow> pipe_inv (y_pipe s) \<and> stages_ok s
     \<and> (\<forall>i < length (p_parts (y_pipe s)). unat (pt_seq (p_parts (y_pipe s) ! i)) \<le> n
          \<and> in_use i s \<subseteq># mset_set {1..unat (pt_seq (p_parts (y_pipe s) ! i))})"

lemma held_sum:
  assumes "j < length cs"
  shows "sum_list (map (held i) (cs[j := c])) + held i (cs ! j) = sum_list (map (held i) cs) + held i c"
  using assms
proof (induction cs arbitrary: j)
  case (Cons x cs)
  then show ?case by (cases j) (simp_all add: add.assoc add.commute add.left_commute)
qed simp

text \<open>
  What a client step does to the numbers of a partition: it keeps the counter and the numbers in
  use or gives one back, or it takes the next number.
\<close>

definition number_step :: "nat \<Rightarrow> client \<Rightarrow> Pipeline \<Rightarrow> client \<Rightarrow> Pipeline \<Rightarrow> bool" where
  "number_step i c p c' p' \<longleftrightarrow>
     (pt_seq (p_parts p' ! i) = pt_seq (p_parts p ! i)
        \<and> held i c' + seqs (q_items (part_q p' i)) \<subseteq># held i c + seqs (q_items (part_q p i)))
     \<or> (pt_seq (p_parts p' ! i) = pt_seq (p_parts p ! i) + 1 \<and> held i c = {#}
        \<and> held i c' = {#unat (pt_seq (p_parts p ! i) + 1)#} \<and> part_q p' i = part_q p i)"

definition step_ok :: "nat \<Rightarrow> client \<Rightarrow> Pipeline \<Rightarrow> client \<Rightarrow> Pipeline \<Rightarrow> bool" where
  "step_ok i c p c' p' \<longleftrightarrow> pipe_inv p' \<and> length (p_parts p') = length (p_parts p) \<and> stage_ok (length (p_parts p')) c'
     \<and> number_step i c p c' p'"

lemma fresh_step_ok:
  assumes inv: "pipe_inv p" and r: "client_step env (CFresh tx) p = Some (c', p')"
  shows "step_ok i (CFresh tx) p c' p'"
proof -
  let ?k = "nat (Partition (p_router p) (tx_Key tx))"
  note k = partition_index(1) [OF inv, of "tx_Key tx"]
  let ?s = "pt_seq (p_parts p ! ?k) + 1"
  have e: "c' = CNumbered ?k (tx\<lparr>tx_Partition := int ?k, tx_Sequence := ?s\<rparr>)" "p' = set_seq ?k ?s p"
    using r by (simp_all add: Let_def)
  have di: "dedup_inv (p_dedup p)" using inv by (simp add: pipe_inv_def)
  note ns = numbered_state [OF inv k di refl, where s = ?s]
  have pp: "p\<lparr>p_dedup := p_dedup p\<rparr> = p" by simp
  show ?thesis using ns(1,4,5) k unfolding pp e by (auto simp: step_ok_def number_step_def)
qed

lemma sending_step_ok:
  assumes inv: "pipe_inv p" and j: "j < length (p_parts p)" and r: "client_step env (CSending j tx) p = Some (c', p')"
  shows "step_ok i (CSending j tx) p c' p'"
proof (cases "int (length (q_items (part_q p j))) < q_cap (part_q p j)")
  case True
  let ?q = "(part_q p j)\<lparr>q_items := q_items (part_q p j) @ [tx], q_depth := q_depth (part_q p j) + 1, q_notify := True\<rparr>"
  have e: "c' = CSent j tx" "p' = set_q j ?q p" using r True by (simp_all add: Let_def)
  have q: "queue_inv ?q" using inv j True by (auto simp: pipe_inv_def queue_inv_def)
  have qs: "queue_inv (part_q p' k)" if "k < length (p_parts p)" for k
    using inv q that j e by (cases "k = j") (auto simp: pipe_inv_def set_q_nth)
  have "pipe_inv p'" using inv qs unfolding e pipe_inv_def by (auto simp del: length_0_conv simp: set_q_def)
  then show ?thesis using e j set_q_nth [OF j, of ?q i] by (simp add: step_ok_def number_step_def)
next
  case False
  have "dedup_inv (Forget (tx_ID tx) (p_dedup p))" using inv Forget_inv by (auto simp: pipe_inv_def)
  then show ?thesis using r inv j False by (auto simp: step_ok_def pipe_inv_def number_step_def refuse_push_def Let_def)
qed

lemma client_step_ok:
  assumes inv: "pipe_inv p" and st: "stage_ok (length (p_parts p)) c" and r: "client_step env c p = Some (c', p')"
  shows "step_ok i c p c' p'"
proof -
  have f: "dedup_inv (Forget idt (p_dedup p))" for idt using inv Forget_inv by (auto simp: pipe_inv_def)
  show ?thesis
  proof (cases c)
    case (CChecked tx)
    obtain seen d where "SeenOrAdd (tx_ID tx) (se_now env) (p_dedup p) = Some (seen, d)" "dedup_inv d"
      using SeenOrAdd_ok [of "p_dedup p"] inv unfolding pipe_inv_def by blast
    then show ?thesis using r inv CChecked by (cases seen) (auto simp: step_ok_def pipe_inv_def number_step_def)
  next
    case (CFresh tx)
    then show ?thesis using fresh_step_ok [OF inv] r by blast
  next
    case (CNumbered j tx)
    then show ?thesis using r inv st f
      by (auto simp: step_ok_def pipe_inv_def number_step_def split: prod.splits option.splits)
  next
    case (CSending j tx)
    then show ?thesis using sending_step_ok [OF inv] r st by simp
  qed (use r inv st f in \<open>auto simp: step_ok_def pipe_inv_def number_step_def refuse_push_def split: option.splits if_splits\<close>)
qed

lemma sys_inv_client:
  assumes inv: "sys_inv n s" and n: "Suc n < 2 ^ 64" and j: "j < length (y_clients s)"
    and r: "client_step env (y_clients s ! j) (y_pipe s) = Some (c, p)"
  shows "sys_inv (Suc n) (s\<lparr>y_clients := (y_clients s)[j := c], y_pipe := p\<rparr>)"
proof -
  let ?p = "y_pipe s" and ?c = "y_clients s ! j" and ?s' = "s\<lparr>y_clients := (y_clients s)[j := c], y_pipe := p\<rparr>"
  have pi: "pipe_inv ?p" and so: "list_all (stage_ok (length (p_parts ?p))) (y_clients s)"
    using inv by (simp_all add: sys_inv_def stages_ok_def)
  then have sc: "stage_ok (length (p_parts ?p)) ?c" using j by (simp add: list_all_length)
  note st = client_step_ok [OF pi sc r, unfolded step_ok_def]
  have len: "length (p_parts p) = length (p_parts ?p)" and "stage_ok (length (p_parts p)) c" "pipe_inv p" using st by blast+
  then have so': "stages_ok ?s'" using so by (auto simp: stages_ok_def list_all_iff dest: set_update_subset_insert [THEN subsetD])
  have "unat (pt_seq (p_parts p ! i)) \<le> Suc n \<and> in_use i ?s' \<subseteq># mset_set {1..unat (pt_seq (p_parts p ! i))}"
    if i: "i < length (p_parts ?p)" for i
  proof -
    have old: "unat (pt_seq (p_parts ?p ! i)) \<le> n" "in_use i s \<subseteq># mset_set {1..unat (pt_seq (p_parts ?p ! i))}"
      using inv i by (simp_all add: sys_inv_def)
    have sum: "in_use i ?s' + (held i ?c + seqs (q_items (part_q ?p i))) = in_use i s + (held i c + seqs (q_items (part_q p i)))"
      using held_sum [OF j, of i c] by (simp add: in_use_def ac_simps)
    from st have "number_step i ?c ?p c p" by blast
    then show ?thesis unfolding number_step_def
    proof (elim disjE conjE)
      assume a: "pt_seq (p_parts p ! i) = pt_seq (p_parts ?p ! i)"
        "held i c + seqs (q_items (part_q p i)) \<subseteq># held i ?c + seqs (q_items (part_q ?p i))"
      then have "in_use i ?s' \<subseteq># in_use i s" using sum
        by (metis (no_types, lifting) mset_subset_eq_mono_add_right_cancel subset_mset.add_left_mono)
      then show ?thesis using old a(1) by (auto intro: subset_mset.order_trans)
    next
      assume a: "pt_seq (p_parts p ! i) = pt_seq (p_parts ?p ! i) + 1" "held i ?c = {#}"
        "held i c = {#unat (pt_seq (p_parts ?p ! i) + 1)#}" "part_q p i = part_q ?p i"
      have u: "unat (pt_seq (p_parts ?p ! i) + 1) = Suc (unat (pt_seq (p_parts ?p ! i)))"
        by (rule unat_suc [of _ 1]) (use old(1) n in simp_all)
      have "in_use i ?s' = add_mset (Suc (unat (pt_seq (p_parts ?p ! i)))) (in_use i s)" using sum a(2-4) u by simp
      moreover have "mset_set {1..Suc m} = add_mset (Suc m) (mset_set {1..m})" for m
        by (simp add: atLeastAtMostSuc_conv)
      ultimately show ?thesis using old a(1) u by simp
    qed
  qed
  then show ?thesis using so' \<open>pipe_inv p\<close> len by (simp add: sys_inv_def)
qed

lemma sys_inv_worker:
  assumes inv: "sys_inv n s" and i: "i < length (p_parts (y_pipe s))"
    and r: "worker_batch be i env w0 (y_pipe s, b0) = ((batch, closed), w, p, b)"
  shows "sys_inv (Suc n) (s\<lparr>y_pipe := p, y_workers := ws, y_alive := al, y_backend := b,
      y_out := y_out s @ map (Pair i) batch\<rparr>)"
proof -
  let ?p = "y_pipe s"
  have pi: "pipe_inv ?p" using inv by (simp add: sys_inv_def)
  have "i < length (m_partitions (p_metrics ?p))" using pi i by (simp add: pipe_inv_def)
  then have w: "worked i batch ?p p" using worker_batch_worked [OF i _ r] by blast
  have len: "length (p_parts p) = length (p_parts ?p)" using worked_shape [OF w] by simp
  have seq: "pt_seq (p_parts p ! k) = pt_seq (p_parts ?p ! k)" for k using w by (cases "k = i") (auto simp: worked_def)
  have q: "(if k = i then batch else []) @ q_items (part_q p k) = q_items (part_q ?p k)" for k
    using w by (cases "k = i") (auto simp: worked_def)
  have "in_use k (s\<lparr>y_pipe := p, y_workers := ws, y_alive := al, y_backend := b, y_out := y_out s @ map (Pair i) batch\<rparr>) = in_use k s" for k
    unfolding in_use_def q [of k, symmetric] by (simp add: ac_simps)
  then show ?thesis using inv worked_inv [OF pi w] len seq by (auto simp: sys_inv_def stages_ok_def)
qed

lemma sys_inv_stop:
  assumes "sys_inv n s"
  shows "sys_inv (Suc n) (s\<lparr>y_pipe := close_all (y_pipe s)\<rparr>)"
proof -
  let ?p = "y_pipe s"
  have pi: "pipe_inv ?p" using assms by (simp add: sys_inv_def)
  note c = close_all_inv [OF pi]
  have "pt_seq (p_parts (close_all ?p) ! i) = pt_seq (p_parts ?p ! i)" if "i < length (p_parts ?p)" for i
    using that by (simp add: close_all_def)
  then show ?thesis using assms c by (auto simp: sys_inv_def stages_ok_def in_use_def)
qed

lemma sys_reach_inv:
  assumes "sys_reach be s0 n s" and "sys_inv 0 s0" and "n < 2 ^ 64"
  shows "sys_inv n s"
  using assms
proof (induction rule: sys_reach.induct)
  case (step n s s')
  then have "sys_inv n s" by simp
  with step.hyps(2) step.prems(2) show ?case
    by (cases rule: sys_step.cases) (auto intro: sys_inv_client sys_inv_worker sys_inv_stop)
qed simp

lemma new_sys_inv:
  assumes "NewPipeline cfg os now = Inr p"
  shows "sys_inv 0 (new_sys p txs b)"
proof -
  note n = NewPipeline_inv [OF assms]
  have h: "sum_list (map (held i) (map CStart txs)) = {#}" for i by (induction txs) simp_all
  have "list_all (stage_ok k) (map CStart txs)" for k by (simp add: list_all_iff)
  then show ?thesis using n(1,4) h by (simp add: sys_inv_def new_sys_def stages_ok_def in_use_def)
qed

subsection \<open>Properties\<close>



text \<open>
  C4 No sequence number is given out twice: for any number of concurrent clients, in every
  interleaving of their steps with the workers and with Stop, the transactions a partition's worker
  has taken and those still in its queue carry pairwise different sequence numbers, none above the
  partition's counter.
\<close>

theorem concurrent_numbers_unique:
  assumes "NewPipeline cfg os now = Inr p" and "sys_reach be (new_sys p txs b) n s" and "n < 2 ^ 64"
    and "i < length (p_parts (y_pipe s))"
  shows "distinct (map (\<lambda>t. tx_Sequence t) (sel i (y_out s) @ q_items (part_q (y_pipe s) i)))
     \<and> (\<forall>t \<in> set (sel i (y_out s) @ q_items (part_q (y_pipe s) i)).
          1 \<le> unat (tx_Sequence t) \<and> unat (tx_Sequence t) \<le> unat (pt_seq (p_parts (y_pipe s) ! i)))"
proof -
  let ?xs = "map (\<lambda>t. unat (tx_Sequence t)) (sel i (y_out s) @ q_items (part_q (y_pipe s) i))"
  let ?m = "mset_set {1..unat (pt_seq (p_parts (y_pipe s) ! i))}"
  have "sys_inv n s" using sys_reach_inv [OF assms(2) new_sys_inv [OF assms(1)] assms(3)] .
  then have "in_use i s \<subseteq># ?m" using assms(4) by (simp add: sys_inv_def)
  moreover have "mset ?xs \<subseteq># in_use i s" by (simp add: in_use_def)
  ultimately have sub: "mset ?xs \<subseteq># ?m" by (rule subset_mset.order_trans [rotated])
  have "?xs = map unat (map (\<lambda>t. tx_Sequence t) (sel i (y_out s) @ q_items (part_q (y_pipe s) i)))" by simp
  then have "distinct (map (\<lambda>t. tx_Sequence t) (sel i (y_out s) @ q_items (part_q (y_pipe s) i)))"
    using mset_range_distinct [OF sub] by (metis distinct_map)
  moreover have "\<forall>t \<in> set (sel i (y_out s) @ q_items (part_q (y_pipe s) i)).
      1 \<le> unat (tx_Sequence t) \<and> unat (tx_Sequence t) \<le> unat (pt_seq (p_parts (y_pipe s) ! i))"
    using mset_range_bounds [OF sub] by (simp only: list.set_map image_iff) blast
  ultimately show ?thesis by blast
qed

theorem concurrent_numbers_unique_witness:
  "\<exists>n s. sys_reach None (new_sys pipe1 [tx_a, tx_b] ()) n s
     \<and> distinct (map (\<lambda>t. tx_Sequence t) (sel 0 (y_out s) @ q_items (part_q (y_pipe s) 0)))"
proof -
  let ?s = "new_sys pipe1 [tx_a, tx_b] ()"
  have r: "sys_reach None ?s 0 ?s" by (rule sys_reach.init)
  have "0 < length (p_parts (y_pipe ?s))" by (simp add: new_sys_def pipe1_part0)
  with concurrent_numbers_unique [OF pipe1_new r] r show ?thesis by fastforce
qed

subsection \<open>Two races\<close>

text \<open>A schedule of client steps, for showing that a state is reachable.\<close>

fun sched :: "nat list \<Rightarrow> client list \<times> Pipeline \<Rightarrow> (client list \<times> Pipeline) option" where
  "sched [] st = Some st"
| "sched (j # js) (cs, p) =
     (if j < length cs
      then (case client_step env0 (cs ! j) p of None \<Rightarrow> None | Some (c, p') \<Rightarrow> sched js (cs[j := c], p'))
      else None)"

lemma sched_reach:
  assumes "sys_reach be s0 n s" and "sched js (y_clients s, y_pipe s) = Some (cs, p)"
  shows "\<exists>m. sys_reach be s0 m (s\<lparr>y_clients := cs, y_pipe := p\<rparr>)"
  using assms
proof (induction js arbitrary: n s)
  case Nil
  then show ?case by auto
next
  case (Cons j js)
  then obtain c p1 where c: "j < length (y_clients s)" "client_step env0 (y_clients s ! j) (y_pipe s) = Some (c, p1)"
      "sched js ((y_clients s)[j := c], p1) = Some (cs, p)"
    by (auto split: if_splits option.splits)
  let ?s = "s\<lparr>y_clients := (y_clients s)[j := c], y_pipe := p1\<rparr>"
  have "sys_reach be s0 (Suc n) ?s" using Cons.prems(1) sys_step.client [OF c(1,2)] by (rule sys_reach.step)
  from Cons.IH [OF this] c(3) show ?case by simp
qed

definition pipe2 :: Pipeline where
  "pipe2 = projr (NewPipeline (cfg1\<lparr>QueueCapacity := 2\<rparr>) (Inr []) 0)"

lemma pipe2_new: "NewPipeline (cfg1\<lparr>QueueCapacity := 2\<rparr>) (Inr []) 0 = Inr pipe2"
  by (simp add: pipe2_def NewPipeline_def cfg1_def Validate_def OpenWAL_def)

lemma pipe2_fields:
  "p_cfg pipe2 = cfg1\<lparr>QueueCapacity := 2\<rparr>" "p_wal pipe2 = None" "p_accepting pipe2"
  "p_router pipe2 = \<lparr>r_partitions = 1\<rparr>" "p_dedup pipe2 = dedup_128"
  "p_parts pipe2 = [\<lparr>pt_q = \<lparr>q_items = [], q_cap = 2, q_closed = False, q_notify = False, q_depth = 0\<rparr>, pt_seq = 0\<rparr>]"
  using NewDedup_128
  by (simp_all add: pipe2_def NewPipeline_def cfg1_def Validate_def OpenWAL_def NewRouter_def NewQueue_def)

lemma example_valid: "ValidateTx tx_a 10 = None" "ValidateTx tx_b 10 = None"
  by (simp_all add: ValidateTx_def tx_a_def tx_b_def id_rune_ok_def slice_len_def)

lemma example_dedup:
  obtains d1 d2 where "SeenOrAdd ''a'' 0 dedup_128 = Some (False, d1)" and "SeenOrAdd ''b'' 0 d1 = Some (False, d2)"
proof -
  have "shard_index ''a'' < 32" "shard_index ''b'' < 32" by simp_all
  moreover have "shard_index ''a'' \<noteq> shard_index ''b''" by (simp add: shard_index_def fnv64a_def)
  ultimately show ?thesis
    by (intro that) (auto simp: SeenOrAdd_def shard_SeenOrAdd_def expireLocked_def dedup_128_def)
qed

lemma on_partition_0: "nat (Partition \<lparr>r_partitions = 1\<rparr> k) = 0"
  by (simp add: Partition_def)

text \<open>
  C26 Queue order is not number order: two concurrent submissions of one partition can be queued in
  the opposite order of their sequence numbers, because the number is taken and the transaction sent
  in separate steps without a lock; the order the documentation promises holds only for submissions
  that do not overlap.
\<close>

theorem concurrent_submit_reorders:
  "\<exists>n s. sys_reach None (new_sys pipe2 [tx_a, tx_b] ()) n s \<and> y_clients s = [CDone 0 None, CDone 0 None]
     \<and> map (\<lambda>t. (tx_ID t, tx_Sequence t)) (q_items (part_q (y_pipe s) 0)) = [(''b'', 2), (''a'', 1)]"
proof -
  obtain d1 d2 where d: "SeenOrAdd ''a'' 0 dedup_128 = Some (False, d1)" "SeenOrAdd ''b'' 0 d1 = Some (False, d2)"
    using example_dedup by blast
  have ids: "tx_ID tx_a = ''a''" "tx_ID tx_b = ''b''" by (simp_all add: tx_a_def tx_b_def)
  obtain p where p: "sched [0, 0, 0, 1, 1, 1, 1, 1, 1, 1, 0, 0, 0, 0] ([CStart tx_a, CStart tx_b], pipe2)
        = Some ([CDone 0 None, CDone 0 None], p)"
      "map (\<lambda>t. (tx_ID t, tx_Sequence t)) (q_items (part_q p 0)) = [(''b'', 2), (''a'', 1)]"
    by (simp add: env0_def pipe2_fields cfg1_def example_valid ids d on_partition_0 set_seq_def set_q_def Let_def
        wal_Append_def)
  let ?s0 = "new_sys pipe2 [tx_a, tx_b] ()"
  have "sched [0, 0, 0, 1, 1, 1, 1, 1, 1, 1, 0, 0, 0, 0] (y_clients ?s0, y_pipe ?s0)
      = Some ([CDone 0 None, CDone 0 None], p)"
    using p(1) by (simp add: new_sys_def del: sched.simps)
  from sched_reach [OF sys_reach.init this] p(2) show ?thesis by fastforce
qed

text \<open>
  C27 A submission can be accepted and never committed: if Stop closes the queue and the worker
  returns between a client's test of the closed flag and its send, the client is told that the
  transaction was accepted while it stays in a queue that no worker reads.
\<close>

theorem concurrent_stop_strands_accepted:
  "\<exists>n s. sys_reach None (new_sys pipe2 [tx_a] ()) n s \<and> y_clients s = [CDone 0 None] \<and> y_alive s = [False]
     \<and> map tx_ID (q_items (part_q (y_pipe s) 0)) = [''a''] \<and> y_out s = []"
proof -
  obtain d1 where d: "SeenOrAdd ''a'' 0 dedup_128 = Some (False, d1)" using example_dedup by blast
  have ids: "tx_ID tx_a = ''a''" by (simp add: tx_a_def)
  let ?s0 = "new_sys pipe2 [tx_a] ()"
  obtain t p where p: "sched [0, 0, 0, 0, 0] ([CStart tx_a], pipe2) = Some ([CSending 0 t], p)" "tx_ID t = ''a''"
      "p_parts p = [\<lparr>pt_q = \<lparr>q_items = [], q_cap = 2, q_closed = False, q_notify = False, q_depth = 0\<rparr>, pt_seq = 1\<rparr>]"
    by (simp add: env0_def pipe2_fields cfg1_def example_valid ids d on_partition_0 set_seq_def Let_def wal_Append_def)
  have "sched [0, 0, 0, 0, 0] (y_clients ?s0, y_pipe ?s0) = Some ([CSending 0 t], p)"
    using p(1) by (simp add: new_sys_def del: sched.simps)
  from sched_reach [OF sys_reach.init this] obtain n1 where
    r1: "sys_reach None ?s0 n1 (?s0\<lparr>y_clients := [CSending 0 t], y_pipe := p\<rparr>)" by blast
  let ?s2 = "?s0\<lparr>y_clients := [CSending 0 t], y_pipe := close_all p\<rparr>"
  have r2: "sys_reach None ?s0 (Suc n1) ?s2" using sys_reach.step [OF r1 sys_step.stop] by simp
  have q: "p_parts (close_all p) = [\<lparr>pt_q = \<lparr>q_items = [], q_cap = 2, q_closed = True, q_notify = True, q_depth = 0\<rparr>, pt_seq = 1\<rparr>]"
    using p(3) by (simp add: close_all_def CloseQueue_def)
  have sq: "set_q 0 (part_q (close_all p) 0) (close_all p) = close_all p" using q by (simp add: set_q_def)
  have wb: "worker_batch None 0 env (y_workers ?s2 ! 0) (y_pipe ?s2, y_backend ?s2)
      = (([], True), worker0, close_all p, ())" for env
    using q sq by (simp add: worker_batch_def PopBatchInto_def new_sys_def pipe2_fields)
  let ?s3 = "?s2\<lparr>y_alive := [False]\<rparr>"
  have "sys_step None ?s2 ?s3"
    using sys_step.worker [OF _ _ wb] q by (simp add: new_sys_def pipe2_fields)
  with r2 have r3: "sys_reach None ?s0 (Suc (Suc n1)) ?s3" by (rule sys_reach.step)
  obtain p4 where p4: "sched [0, 0] ([CSending 0 t], close_all p) = Some ([CDone 0 None], p4)"
      "map tx_ID (q_items (part_q p4 0)) = [''a'']"
    using q p(2) by (simp add: set_q_def Let_def)
  have "sched [0, 0] (y_clients ?s3, y_pipe ?s3) = Some ([CDone 0 None], p4)" using p4(1) by (simp del: sched.simps)
  from sched_reach [OF r3 this] obtain n4 where
    "sys_reach None ?s0 n4 (?s3\<lparr>y_clients := [CDone 0 None], y_pipe := p4\<rparr>)" by blast
  then show ?thesis using p4(2) by (intro exI conjI) (assumption | simp add: new_sys_def)+
qed

end
