(* ===== verification/V2_Recovery.thy ===== *)
theory V2_Recovery
  imports V2_Pipeline_Runs "HOL-Library.Sublist"
begin

text \<open>
  Recovery, \<^verbatim>\<open>pkg/v2/recovery.go\<close>: \<^verbatim>\<open>Recover\<close> and \<^verbatim>\<open>RecoverWithLedger\<close> over the common path
  \<^verbatim>\<open>recoverTransactions\<close>, and the \<^verbatim>\<open>Reconciler\<close>. The ledger is a parameter, a function from
  identifiers to a status and an error. The order in which Go ranges over its maps, the clock and
  the context polls are parameters too. The theorems: every pending transaction is accounted for
  once in the report, what recovery queues is a subsequence of the log's pending transactions in
  sequence order, the sequence counters end at or above every queued number, a transaction the
  ledger calls committed is never queued, and an unknown status stops recovery.
\<close>

subsection \<open>Ledger status\<close>

text \<open>\<^verbatim>\<open>LedgerTxStatus\<close> is a string type: a ledger may return a value beside the three constants.\<close>

datatype LedgerTxStatus = LedgerCommitted | LedgerNotCommitted | LedgerUnknown | LedgerOther string

type_synonym ledger = "string \<Rightarrow> LedgerTxStatus \<times> err option"

text \<open>\<^verbatim>\<open>errors.Is(err, ErrLedgerStateUnknown)\<close> follows the chain of wrapped errors.\<close>

fun errors_Is_Unknown :: "err \<Rightarrow> bool" where
  "errors_Is_Unknown ErrLedgerStateUnknown = True"
| "errors_Is_Unknown (PermanentError e) = errors_Is_Unknown e"
| "errors_Is_Unknown (Wrapped m e) = errors_Is_Unknown e"
| "errors_Is_Unknown _ = False"

definition Reconcile :: "ledger option \<Rightarrow> string \<Rightarrow> LedgerTxStatus \<times> err option" where
  "Reconcile l txID =
     (case l of
        None \<Rightarrow> (LedgerUnknown, Some ErrLedgerStateUnknown)
      | Some status \<Rightarrow>
          (case status txID of
             (s, Some e) \<Rightarrow> (LedgerUnknown, Some e)
           | (s, None) \<Rightarrow> if s = LedgerUnknown then (s, Some ErrLedgerStateUnknown) else (s, None)))"

record RecoveryReport =
  rr_Replayed :: int
  rr_AlreadyPresent :: int
  rr_Committed :: int
  rr_Pending :: int
  rr_Unknown :: int
  rr_Duration :: duration

definition zero_report :: RecoveryReport where
  "zero_report = \<lparr>rr_Replayed = 0, rr_AlreadyPresent = 0, rr_Committed = 0, rr_Pending = 0, rr_Unknown = 0,
     rr_Duration = 0\<rparr>"

subsection \<open>The common path\<close>

text \<open>What the runtime decides: clock, context, map iteration, the reads of the log file.\<close>

record recover_env =
  re_ids_io :: read_io
  re_replay_io :: read_io
  re_pending_order :: "Tx list \<Rightarrow> Tx list"
  re_ids_order :: "string list \<Rightarrow> string list"
  re_pick :: "string list \<Rightarrow> string"
  re_now :: time
  re_ctx :: "nat \<Rightarrow> err option"
  re_elapsed :: duration

definition remember_recovered :: "(string list \<Rightarrow> string) \<Rightarrow> string \<Rightarrow> Pipeline \<Rightarrow> Pipeline" where
  "remember_recovered pick txID p =
     (let r = (if int (length (p_recovered p)) \<ge> DedupCapacity (p_cfg p)
               then remove1 (pick (p_recovered p)) (p_recovered p) else p_recovered p)
      in p\<lparr>p_recovered := List.insert txID r\<rparr>)"

text \<open>The end of the loop body: the transaction is to be queued again.\<close>

definition requeue ::
  "recover_env \<Rightarrow> Tx \<Rightarrow> RecoveryReport \<Rightarrow> Pipeline \<Rightarrow> (RecoveryReport \<times> Pipeline) option" where
  "requeue env tx rep p =
     (case SeenOrAdd (tx_ID tx) (re_now env) (p_dedup p) of
        None \<Rightarrow> None
      | Some (True, d) \<Rightarrow> Some (rep\<lparr>rr_AlreadyPresent := rr_AlreadyPresent rep + 1\<rparr>, p\<lparr>p_dedup := d\<rparr>)
      | Some (False, d) \<Rightarrow>
          (let p1 = p\<lparr>p_dedup := d\<rparr>; idx = tx_Partition tx; i = nat idx
           in if idx < 0 \<or> idx \<ge> int (length (p_parts p1))
              then Some (rep\<lparr>rr_Unknown := rr_Unknown rep + 1\<rparr>, p1\<lparr>p_dedup := Forget (tx_ID tx) d\<rparr>)
              else
                (let p2 = (if tx_Sequence tx > pt_seq (p_parts p1 ! i) then set_seq i (tx_Sequence tx) p1 else p1)
                 in case Push tx (part_q p2 i) of
                      Inl e \<Rightarrow> Some (rep\<lparr>rr_Pending := rr_Pending rep + 1\<rparr>, p2\<lparr>p_dedup := Forget (tx_ID tx) d\<rparr>)
                    | Inr q \<Rightarrow>
                        Some (rep\<lparr>rr_Replayed := rr_Replayed rep + 1\<rparr>,
                              upd_metrics (on_part i (\<lambda>c. c\<lparr>pm_accepted := pm_accepted c + 1,
                                                              pm_queueDepth := word_of_int (Len q)\<rparr>))
                                (remember_recovered (re_pick env) (tx_ID tx) (set_q i q p2))))))"

text \<open>The loop over the pending transactions; \<open>None\<close> is a panic of the deduplication table.\<close>

fun recover_loop ::
  "ledger option \<Rightarrow> recover_env \<Rightarrow> nat \<Rightarrow> Tx list \<Rightarrow> RecoveryReport \<Rightarrow> Pipeline
   \<Rightarrow> ((RecoveryReport \<times> err option) \<times> Pipeline) option" where
  "recover_loop l env n [] rep p =
     Some ((rep\<lparr>rr_Duration := re_elapsed env\<rparr>, None),
           upd_metrics (\<lambda>m. m\<lparr>m_recovered := m_recovered m + word_of_int (rr_Replayed rep)\<rparr>) p)"
| "recover_loop l env n (tx # txs) rep p =
     (case re_ctx env n of
        Some e \<Rightarrow> Some ((rep, Some e), p)
      | None \<Rightarrow>
          (case (if l = None then (LedgerNotCommitted, None) else Reconcile l (tx_ID tx)) of
             (_, Some e) \<Rightarrow>
               if errors_Is_Unknown e
               then Some ((rep\<lparr>rr_Unknown := rr_Unknown rep + 1, rr_Duration := re_elapsed env\<rparr>, Some e), p)
               else Some ((rep, Some e), p)
           | (status, None) \<Rightarrow>
               if status = LedgerCommitted
               then (case SeenOrAdd (tx_ID tx) (re_now env) (p_dedup p) of
                       None \<Rightarrow> None
                     | Some (_, d) \<Rightarrow>
                         recover_loop l env (Suc n) txs (rep\<lparr>rr_Committed := rr_Committed rep + 1\<rparr>) (p\<lparr>p_dedup := d\<rparr>))
               else (case requeue env tx rep p of
                       None \<Rightarrow> None
                     | Some (rep', p') \<Rightarrow> recover_loop l env (Suc n) txs rep' p')))"

fun mark_seen :: "time \<Rightarrow> string list \<Rightarrow> Dedup \<Rightarrow> Dedup option" where
  "mark_seen now [] d = Some d"
| "mark_seen now (i # is) d = (case SeenOrAdd i now d of None \<Rightarrow> None | Some (_, d') \<Rightarrow> mark_seen now is d')"

definition recoverTransactions ::
  "ledger option \<Rightarrow> recover_env \<Rightarrow> Pipeline \<Rightarrow> ((RecoveryReport \<times> err option) \<times> Pipeline) option" where
  "recoverTransactions l env p =
     (if p_wal p = None then Some ((zero_report, None), p)
      else (case ReplayIDs (re_ids_io env) (p_wal p) of
        Inl e \<Rightarrow> Some ((zero_report, Some e), p)
      | Inr ids \<Rightarrow>
          (case Replay (re_pending_order env) (re_replay_io env) (p_wal p) of
             Inl e \<Rightarrow> Some ((zero_report, Some e), p)
           | Inr txs0 \<Rightarrow>
               (let txs = sort_key tx_key txs0;
                    finished = filter (\<lambda>i. i \<notin> tx_ID ` set txs) ids;
                    rep = zero_report\<lparr>rr_AlreadyPresent := int (length (filter (\<lambda>i. i \<in> set (p_recovered p)) finished))\<rparr>
                in case mark_seen (re_now env) (re_ids_order env finished) (p_dedup p) of
                     None \<Rightarrow> None
                   | Some d \<Rightarrow> recover_loop l env 0 txs rep (p\<lparr>p_dedup := d\<rparr>)))))"

definition Recover :: "recover_env \<Rightarrow> Pipeline \<Rightarrow> ((RecoveryReport \<times> err option) \<times> Pipeline) option" where
  "Recover env p = recoverTransactions None env p"

definition RecoverWithLedger ::
  "ledger option \<Rightarrow> recover_env \<Rightarrow> Pipeline \<Rightarrow> ((RecoveryReport \<times> err option) \<times> Pipeline) option" where
  "RecoverWithLedger l env p =
     (if l = None then Some ((zero_report, Some ErrLedgerStateUnknown), p) else recoverTransactions l env p)"

subsection \<open>What one transaction does\<close>

definition report_sum :: "RecoveryReport \<Rightarrow> int" where
  "report_sum r = rr_Replayed r + rr_AlreadyPresent r + rr_Committed r + rr_Pending r + rr_Unknown r"

text \<open>
  \<open>recovered txs ok p p'\<close>: from \<open>p\<close> to \<open>p'\<close> every queue grew by a subsequence of the transactions of
  \<open>txs\<close> that belong to it and satisfy \<open>ok\<close>, and its counter is at or above what it was and the numbers queued.
\<close>

definition grown :: "(Tx \<Rightarrow> bool) \<Rightarrow> Tx list \<Rightarrow> Pipeline \<Rightarrow> Pipeline \<Rightarrow> bool" where
  "grown ok txs p p' \<longleftrightarrow> length (p_parts p') = length (p_parts p) \<and>
     (\<forall>i < length (p_parts p). pt_seq (p_parts p ! i) \<le> pt_seq (p_parts p' ! i)
        \<and> (\<exists>new. q_items (part_q p' i) = q_items (part_q p i) @ new
             \<and> subseq new (filter (\<lambda>t. tx_Partition t = int i \<and> ok t) txs)
             \<and> (\<forall>t \<in> set new. tx_Sequence t \<le> pt_seq (p_parts p' ! i))))"

lemma grown_parts: "p_parts p' = p_parts p \<Longrightarrow> grown ok txs p p'"
  by (simp add: grown_def)

lemma grown_trans:
  assumes "grown ok xs p p1" and "grown ok ys p1 p2"
  shows "grown ok (xs @ ys) p p2"
proof -
  have "\<exists>new. q_items (part_q p2 i) = q_items (part_q p i) @ new
      \<and> subseq new (filter (\<lambda>t. tx_Partition t = int i \<and> ok t) (xs @ ys))
      \<and> (\<forall>t \<in> set new. tx_Sequence t \<le> pt_seq (p_parts p2 ! i))" if i: "i < length (p_parts p)" for i
  proof -
    obtain a where a: "q_items (part_q p1 i) = q_items (part_q p i) @ a"
        "subseq a (filter (\<lambda>t. tx_Partition t = int i \<and> ok t) xs)" "\<forall>t \<in> set a. tx_Sequence t \<le> pt_seq (p_parts p1 ! i)"
      using assms(1) i by (auto simp: grown_def)
    obtain c where c: "q_items (part_q p2 i) = q_items (part_q p1 i) @ c"
        "subseq c (filter (\<lambda>t. tx_Partition t = int i \<and> ok t) ys)" "\<forall>t \<in> set c. tx_Sequence t \<le> pt_seq (p_parts p2 ! i)"
        "pt_seq (p_parts p1 ! i) \<le> pt_seq (p_parts p2 ! i)"
      using assms i by (auto simp: grown_def)
    show ?thesis using a c by (intro exI [of _ "a @ c"]) (auto intro: list_emb_append_mono)
  qed
  moreover have "pt_seq (p_parts p ! i) \<le> pt_seq (p_parts p2 ! i)" if "i < length (p_parts p)" for i
    using assms that by (auto simp: grown_def intro: order_trans)
  ultimately show ?thesis using assms by (auto simp: grown_def)
qed

abbreviation queued :: "Pipeline \<Rightarrow> int" where
  "queued p \<equiv> int (sum_list (map (\<lambda>pt. length (q_items (pt_q pt))) (p_parts p)))"

text \<open>Raising the counter of the partition to the number of the transaction.\<close>

definition bump_seq :: "Tx \<Rightarrow> Pipeline \<Rightarrow> Pipeline" where
  "bump_seq tx p = (let i = nat (tx_Partition tx)
     in if tx_Sequence tx > pt_seq (p_parts p ! i) then set_seq i (tx_Sequence tx) p else p)"

lemma bump_seq_nth:
  "nat (tx_Partition tx) < length (p_parts p) \<Longrightarrow> p_parts (bump_seq tx p) ! j =
     (if j = nat (tx_Partition tx)
      then (p_parts p ! j)\<lparr>pt_seq := max (pt_seq (p_parts p ! j)) (tx_Sequence tx)\<rparr> else p_parts p ! j)"
  using set_seq_nth [of "nat (tx_Partition tx)" p "tx_Sequence tx" j] by (auto simp: bump_seq_def max_def Let_def)

lemma bump_seq_frame:
  "length (p_parts (bump_seq tx p)) = length (p_parts p)" "p_metrics (bump_seq tx p) = p_metrics p"
  "p_dedup (bump_seq tx p) = p_dedup p" "p_router (bump_seq tx p) = p_router p"
  by (simp_all add: bump_seq_def Let_def)

lemma bump_seq_queues:
  assumes "nat (tx_Partition tx) < length (p_parts p)"
  shows "part_q (bump_seq tx p) j = part_q p j"
    and "map (\<lambda>pt. length (q_items (pt_q pt))) (p_parts (bump_seq tx p)) = map (\<lambda>pt. length (q_items (pt_q pt))) (p_parts p)"
proof -
  show q: "part_q (bump_seq tx p) j = part_q p j" for j by (simp add: bump_seq_nth [OF assms])
  show "map (\<lambda>pt. length (q_items (pt_q pt))) (p_parts (bump_seq tx p)) = map (\<lambda>pt. length (q_items (pt_q pt))) (p_parts p)"
    by (rule nth_equalityI) (simp_all add: bump_seq_frame q)
qed

text \<open>The pipeline after the transaction was pushed to its queue.\<close>

definition pushed :: "recover_env \<Rightarrow> Tx \<Rightarrow> Queue \<Rightarrow> Pipeline \<Rightarrow> Pipeline" where
  "pushed env tx q p = upd_metrics (on_part (nat (tx_Partition tx)) (\<lambda>c. c\<lparr>pm_accepted := pm_accepted c + 1,
       pm_queueDepth := word_of_int (Len q)\<rparr>))
     (remember_recovered (re_pick env) (tx_ID tx) (set_q (nat (tx_Partition tx)) q (bump_seq tx p)))"

lemma pushed_frame:
  "p_parts (pushed env tx q p) = (p_parts (bump_seq tx p))[nat (tx_Partition tx) :=
     (p_parts (bump_seq tx p) ! nat (tx_Partition tx))\<lparr>pt_q := q\<rparr>]"
  "p_dedup (pushed env tx q p) = p_dedup p" "p_router (pushed env tx q p) = p_router p"
  "length (m_partitions (p_metrics (pushed env tx q p))) = length (m_partitions (p_metrics p))"
  by (simp_all add: pushed_def remember_recovered_def Let_def set_q_def bump_seq_frame)

lemma pushed_effects:
  assumes inv: "pipe_inv p" and ok: "ok tx" and i: "0 \<le> tx_Partition tx" "nat (tx_Partition tx) < length (p_parts p)"
    and q: "Push tx (part_q p (nat (tx_Partition tx))) = Inr q"
  shows "pipe_inv (pushed env tx q p)" and "grown ok [tx] p (pushed env tx q p)" and "queued (pushed env tx q p) = queued p + 1"
proof -
  let ?i = "nat (tx_Partition tx)" and ?p = "pushed env tx q p"
  note p3 = pushed_frame [of env tx q p] and l2 = bump_seq_frame(1) [of tx p] and q2 = bump_seq_queues [OF i(2)]
  have qi: "q_items q = q_items (part_q p ?i) @ [tx]" "queue_inv q"
    using q inv i(2) queue_inv_Push by (auto simp: Push_Inr pipe_inv_def)
  have "queue_inv (part_q ?p j)" if "j < length (p_parts p)" for j
    using that qi(2) inv l2 i(2) unfolding p3(1) by (cases "j = ?i") (auto simp: pipe_inv_def q2(1))
  then show "pipe_inv ?p" using inv l2 p3 unfolding pipe_inv_def by auto
  show "grown ok [tx] p ?p"
    unfolding grown_def p3(1) using bump_seq_nth [OF i(2)] l2 i ok qi(1) by (auto simp: nth_list_update)
  have "map (\<lambda>pt. length (q_items (pt_q pt))) (p_parts ?p) =
      (map (\<lambda>pt. length (q_items (pt_q pt))) (p_parts p))[?i := Suc (length (q_items (part_q p ?i)))]"
    unfolding p3(1) map_update q2(2) using qi(1) by simp
  then show "queued ?p = queued p + 1"
    using sum_list_update_nat [of ?i "map (\<lambda>pt. length (q_items (pt_q pt))) (p_parts p)"
        "Suc (length (q_items (part_q p ?i)))"] i(2) by simp
qed

text \<open>A transaction that is not queued leaves the queues, and at most raises the counter.\<close>

lemma kept_effects:
  assumes "pipe_inv p" and "dedup_inv d" and "p' = p\<lparr>p_dedup := d\<rparr>
      \<or> nat (tx_Partition tx) < length (p_parts p) \<and> p' = (bump_seq tx p)\<lparr>p_dedup := d\<rparr>"
  shows "pipe_inv p'" and "grown ok [tx] p p'" and "queued p' = queued p"
  using assms bump_seq_frame [of tx p] bump_seq_queues [of tx p] bump_seq_nth [of tx p]
  by (auto simp: pipe_inv_def grown_def)

lemma requeue_effects:
  assumes inv: "pipe_inv p" and ok: "ok tx"
  obtains rep' p' where "requeue env tx rep p = Some (rep', p')" and "pipe_inv p'"
    and "report_sum rep' = report_sum rep + 1" and "grown ok [tx] p p'"
    and "rr_Replayed rep' - rr_Replayed rep = queued p' - queued p"
proof -
  obtain seen d where s: "SeenOrAdd (tx_ID tx) (re_now env) (p_dedup p) = Some (seen, d)" "dedup_inv d"
    using SeenOrAdd_ok [of "p_dedup p"] inv unfolding pipe_inv_def by blast
  let ?i = "nat (tx_Partition tx)" and ?p1 = "p\<lparr>p_dedup := d\<rparr>" and ?f = "Forget (tx_ID tx) d"
  have i1: "pipe_inv ?p1" using inv s(2) by (simp add: pipe_inv_def)
  consider (seen) seen
    | (range) "\<not> seen" "tx_Partition tx < 0 \<or> tx_Partition tx \<ge> int (length (p_parts p))"
    | (full) e where "\<not> seen" "0 \<le> tx_Partition tx" "?i < length (p_parts p)" "Push tx (part_q p ?i) = Inl e"
    | (room) q where "\<not> seen" "0 \<le> tx_Partition tx" "?i < length (p_parts p)" "Push tx (part_q p ?i) = Inr q"
    by (cases seen; cases "tx_Partition tx < 0 \<or> tx_Partition tx \<ge> int (length (p_parts p))"; cases "Push tx (part_q p ?i)")
      (auto simp: nat_less_iff)
  then show ?thesis
  proof cases
    case seen
    then show ?thesis using s kept_effects [OF inv s(2) disjI1 [OF refl]]
      by (intro that [of "rep\<lparr>rr_AlreadyPresent := rr_AlreadyPresent rep + 1\<rparr>" ?p1]) (simp_all add: requeue_def report_sum_def)
  next
    case range
    then show ?thesis using s kept_effects [OF inv Forget_inv [OF s(2)] disjI1 [OF refl]]
      by (intro that [of "rep\<lparr>rr_Unknown := rr_Unknown rep + 1\<rparr>" "p\<lparr>p_dedup := ?f\<rparr>"])
        (simp_all add: requeue_def report_sum_def Let_def)
  next
    case full
    let ?p3 = "(bump_seq tx p)\<lparr>p_dedup := ?f\<rparr>"
    have "requeue env tx rep p = Some (rep\<lparr>rr_Pending := rr_Pending rep + 1\<rparr>, ?p3)"
      using s full bump_seq_queues(1) [OF full(3)] by (simp add: requeue_def Let_def bump_seq_def set_seq_def)
    then show ?thesis using kept_effects [OF inv Forget_inv [OF s(2)] disjI2 [OF conjI [OF full(3) refl]]]
      by (intro that [of "rep\<lparr>rr_Pending := rr_Pending rep + 1\<rparr>" ?p3]) (simp_all add: report_sum_def)
  next
    case room
    have "requeue env tx rep p = Some (rep\<lparr>rr_Replayed := rr_Replayed rep + 1\<rparr>, pushed env tx q ?p1)"
      using s room bump_seq_queues(1) [of tx ?p1] by (simp add: requeue_def Let_def bump_seq_def pushed_def)
    then show ?thesis using pushed_effects [of ?p1 ok tx q env] i1 ok room
      by (intro that [of "rep\<lparr>rr_Replayed := rr_Replayed rep + 1\<rparr>" "pushed env tx q ?p1"]) (simp_all add: report_sum_def grown_def)
  qed
qed

subsection \<open>The loop\<close>

definition may_requeue :: "ledger option \<Rightarrow> Tx \<Rightarrow> bool" where
  "may_requeue l t \<longleftrightarrow> l = None \<or> (\<exists>s. Reconcile l (tx_ID t) = (s, None) \<and> s \<noteq> LedgerCommitted)"

lemma grown_prefix: "grown ok xs p p' \<Longrightarrow> grown ok (xs @ ys) p p'"
  using grown_trans [of ok xs p p' ys p'] grown_parts [of p' p'] by simp

lemma grown_Cons: "grown ok txs p p' \<Longrightarrow> grown ok (tx # txs) p p'"
  using grown_trans [of ok "[tx]" p p txs p'] grown_parts [of p p] by simp

text \<open>One transaction that does not end the loop: it is on the ledger, or it is requeued.\<close>

lemma recover_loop_step:
  assumes inv: "pipe_inv p" and ctx: "re_ctx env n = None"
    and o: "(if l = None then (LedgerNotCommitted, None) else Reconcile l (tx_ID tx)) = (st, None)"
  obtains rep1 p1 where "recover_loop l env n (tx # txs) rep p = recover_loop l env (Suc n) txs rep1 p1" and "pipe_inv p1"
    and "report_sum rep1 = report_sum rep + 1" and "grown (may_requeue l) [tx] p p1"
    and "rr_Replayed rep1 - rr_Replayed rep = queued p1 - queued p"
proof (cases "st = LedgerCommitted")
  case True
  obtain seen d where s: "SeenOrAdd (tx_ID tx) (re_now env) (p_dedup p) = Some (seen, d)" "dedup_inv d"
    using SeenOrAdd_ok [of "p_dedup p" "tx_ID tx" "re_now env"] inv unfolding pipe_inv_def by blast
  show ?thesis
    by (rule that [of "rep\<lparr>rr_Committed := rr_Committed rep + 1\<rparr>" "p\<lparr>p_dedup := d\<rparr>"])
      (use True ctx o s kept_effects [OF inv s(2) disjI1 [OF refl]] in \<open>simp_all add: report_sum_def\<close>)
next
  case False
  have "may_requeue l tx" using o False by (auto simp: may_requeue_def split: if_splits)
  then obtain rep1 p1 where q: "requeue env tx rep p = Some (rep1, p1)" "pipe_inv p1"
      "report_sum rep1 = report_sum rep + 1" "grown (may_requeue l) [tx] p p1"
      "rr_Replayed rep1 - rr_Replayed rep = queued p1 - queued p"
    by (rule requeue_effects [OF inv])
  then show ?thesis using False ctx o by (intro that [of rep1 p1]) simp_all
qed

lemma recover_loop_effects:
  assumes "pipe_inv p"
  shows "\<exists>rep' e p'. recover_loop l env n txs rep p = Some ((rep', e), p') \<and> pipe_inv p'
     \<and> grown (may_requeue l) txs p p'
     \<and> (e = None \<longrightarrow> report_sum rep' = report_sum rep + int (length txs))
     \<and> rr_Replayed rep' - rr_Replayed rep = queued p' - queued p
     \<and> ((\<exists>t \<in> set txs. l \<noteq> None \<and> snd (Reconcile l (tx_ID t)) \<noteq> None) \<longrightarrow> e \<noteq> None)"
  using assms
proof (induction txs arbitrary: n rep p)
  case Nil
  then show ?case by (simp add: grown_parts report_sum_def pipe_inv_def)
next
  case (Cons tx txs)
  obtain st er where o: "(if l = None then (LedgerNotCommitted, None) else Reconcile l (tx_ID tx)) = (st, er)" by force
  show ?case
  proof (cases "re_ctx env n \<noteq> None \<or> er \<noteq> None")
    case True
    then show ?thesis using Cons.prems o by (cases "re_ctx env n") (auto simp: grown_parts)
  next
    case False
    then have go: "re_ctx env n = None" "(if l = None then (LedgerNotCommitted, None) else Reconcile l (tx_ID tx)) = (st, None)"
      using o by auto
    obtain rep1 p1 where q: "recover_loop l env n (tx # txs) rep p = recover_loop l env (Suc n) txs rep1 p1" "pipe_inv p1"
        "report_sum rep1 = report_sum rep + 1" "grown (may_requeue l) [tx] p p1"
        "rr_Replayed rep1 - rr_Replayed rep = queued p1 - queued p"
      by (rule recover_loop_step [OF Cons.prems go])
    from Cons.IH [OF q(2), of "Suc n" rep1]
    obtain rep' e p' where r: "recover_loop l env (Suc n) txs rep1 p1 = Some ((rep', e), p')" "pipe_inv p'"
        "grown (may_requeue l) txs p1 p'" "e = None \<longrightarrow> report_sum rep' = report_sum rep1 + int (length txs)"
        "rr_Replayed rep' - rr_Replayed rep1 = queued p' - queued p1"
        "(\<exists>t \<in> set txs. l \<noteq> None \<and> snd (Reconcile l (tx_ID t)) \<noteq> None) \<longrightarrow> e \<noteq> None"
      by (elim exE conjE) (rule that)
    have "l \<noteq> None \<Longrightarrow> snd (Reconcile l (tx_ID tx)) = None" using go by (auto split: if_splits)
    moreover have "grown (may_requeue l) (tx # txs) p p'" using grown_trans [OF q(4) r(3)] by simp
    moreover have "e = None \<longrightarrow> report_sum rep' = report_sum rep + int (length (tx # txs))" using r(4) q(3) by simp
    moreover have "rr_Replayed rep' - rr_Replayed rep = queued p' - queued p" using r(5) q(5) by simp
    ultimately show ?thesis using q(1) r(1,2,6) by (metis set_ConsD)
  qed
qed

text \<open>
  What a recovery did not queue and did not find committed: each such transaction is counted. If these
  counts do not grow, every transaction of the loop is on the ledger or in its queue.
\<close>

definition left_out :: "RecoveryReport \<Rightarrow> int" where
  "left_out r = rr_AlreadyPresent r + rr_Pending r + rr_Unknown r"

lemma requeue_each:
  assumes "requeue env tx rep p = Some (rep', p')"
  shows "left_out rep \<le> left_out rep'"
    and "left_out rep' = left_out rep \<Longrightarrow>
      0 \<le> tx_Partition tx \<and> nat (tx_Partition tx) < length (p_parts p) \<and> tx \<in> set (q_items (part_q p' (nat (tx_Partition tx))))"
proof -
  obtain seen d where s: "SeenOrAdd (tx_ID tx) (re_now env) (p_dedup p) = Some (seen, d)"
    using assms by (auto simp: requeue_def split: option.splits)
  let ?i = "nat (tx_Partition tx)"
  have "left_out rep' = left_out rep + 1 \<or> left_out rep' = left_out rep \<and> 0 \<le> tx_Partition tx
      \<and> ?i < length (p_parts p) \<and> tx \<in> set (q_items (part_q p' ?i))"
  proof (cases "seen \<or> tx_Partition tx < 0 \<or> tx_Partition tx \<ge> int (length (p_parts p))")
    case True
    then show ?thesis using assms s by (cases seen) (auto simp: requeue_def Let_def left_out_def)
  next
    case False
    define p2 where "p2 = (if tx_Sequence tx > pt_seq (p_parts p ! ?i) then set_seq ?i (tx_Sequence tx) (p\<lparr>p_dedup := d\<rparr>)
      else p\<lparr>p_dedup := d\<rparr>)"
    have i: "?i < length (p_parts p)" "0 \<le> tx_Partition tx" using False by auto
    show ?thesis
    proof (cases "Push tx (part_q p2 ?i)")
      case (Inl e)
      then have "rep' = rep\<lparr>rr_Pending := rr_Pending rep + 1\<rparr>"
        using assms s False by (auto simp: requeue_def Let_def p2_def split: if_splits)
      then show ?thesis by (simp add: left_out_def)
    next
      case (Inr q)
      then have "rep' = rep\<lparr>rr_Replayed := rr_Replayed rep + 1\<rparr>" and "part_q p' ?i = q"
        using assms s False i
        by (auto simp: requeue_def Let_def p2_def remember_recovered_def set_q_def set_seq_def)
      then show ?thesis using i Inr by (simp add: left_out_def Push_Inr)
    qed
  qed
  then show "left_out rep \<le> left_out rep'"
    and "left_out rep' = left_out rep \<Longrightarrow> 0 \<le> tx_Partition tx \<and> ?i < length (p_parts p) \<and> tx \<in> set (q_items (part_q p' ?i))"
    by auto
qed

lemma grown_keeps: "grown ok txs p p' \<Longrightarrow> i < length (p_parts p) \<Longrightarrow> set (q_items (part_q p i)) \<subseteq> set (q_items (part_q p' i))"
  by (fastforce simp: grown_def)

lemma recover_loop_each:
  assumes "pipe_inv p" and "recover_loop l env n txs rep p = Some ((rep', None), p')"
  shows "left_out rep \<le> left_out rep' \<and> (left_out rep' = left_out rep \<longrightarrow>
     (\<forall>t \<in> set txs. l \<noteq> None \<and> fst (Reconcile l (tx_ID t)) = LedgerCommitted
        \<or> 0 \<le> tx_Partition t \<and> t \<in> set (q_items (part_q p' (nat (tx_Partition t))))))"
  using assms
proof (induction txs arbitrary: n rep p)
  case Nil
  then show ?case by (auto simp: left_out_def)
next
  case (Cons tx txs)
  obtain st er where o: "(if l = None then (LedgerNotCommitted, None) else Reconcile l (tx_ID tx)) = (st, er)" by force
  have er: "er = None" and ctx: "re_ctx env n = None"
    using Cons.prems(2) o by (auto split: option.splits prod.splits if_splits)
  show ?case
  proof (cases "st = LedgerCommitted")
    case True
    then have c: "l \<noteq> None" "fst (Reconcile l (tx_ID tx)) = LedgerCommitted" using o by (auto split: if_splits)
    obtain seen d where d: "SeenOrAdd (tx_ID tx) (re_now env) (p_dedup p) = Some (seen, d)" "dedup_inv d"
      using SeenOrAdd_ok [of "p_dedup p"] Cons.prems(1) by (metis pipe_inv_def)
    have "pipe_inv (p\<lparr>p_dedup := d\<rparr>)" using Cons.prems(1) d(2) by (simp add: pipe_inv_def)
    from Cons.IH [OF this, of "Suc n" "rep\<lparr>rr_Committed := rr_Committed rep + 1\<rparr>"] Cons.prems(2) o er ctx True d(1) c
    show ?thesis by (simp add: left_out_def)
  next
    case False
    obtain rep1 p1 where r: "requeue env tx rep p = Some (rep1, p1)" "pipe_inv p1" "grown (\<lambda>_. True) [tx] p p1"
      using requeue_effects [OF Cons.prems(1), of "\<lambda>_. True" tx env rep] by metis
    have l1: "recover_loop l env (Suc n) txs rep1 p1 = Some ((rep', None), p')"
      using Cons.prems(2) o er ctx False r(1) by simp
    note IH = Cons.IH [OF r(2) l1] and e = requeue_each [OF r(1)]
    have g: "grown (may_requeue l) txs p1 p'" using recover_loop_effects [OF r(2), of l env "Suc n" txs rep1] l1 by auto
    have "0 \<le> tx_Partition tx \<and> tx \<in> set (q_items (part_q p' (nat (tx_Partition tx))))"
      if "left_out rep' = left_out rep"
    proof -
      have "left_out rep1 = left_out rep" using that IH e(1) by simp
      from e(2) [OF this] grown_keeps [OF g, of "nat (tx_Partition tx)"] r(3) show ?thesis by (auto simp: grown_def)
    qed
    then show ?thesis using IH e(1) by auto
  qed
qed

lemma mark_seen_ok: "dedup_inv d \<Longrightarrow> \<exists>d'. mark_seen now ids d = Some d' \<and> dedup_inv d'"
proof (induction ids arbitrary: d)
  case (Cons i ids)
  obtain seen d1 where "SeenOrAdd i now d = Some (seen, d1)" "dedup_inv d1" using SeenOrAdd_ok [OF Cons.prems] by blast
  then show ?case using Cons.IH by simp
qed simp

subsection \<open>Recovery of a log\<close>

lemma pending_sorted:
  assumes "\<forall>op \<in> set ops. op_ok op" and "\<And>xs. mset (it xs) = mset xs"
  obtains txs where "Replay it rd_ok (log_of s ops []) = Inr txs" and "sort_key tx_key txs = txs"
    and "sorted (map tx_key txs)" and "distinct (map tx_ID txs)" and "set txs = unresolved ops"
proof -
  let ?p = "fold op_apply ops []"
  let ?out = "sort_key tx_key (it (map snd ?p))"
  have m: "mset ?out = mset (map snd ?p)" using assms(2) [of "map snd ?p"] by (simp del: mset_map)
  note q = pending_txs [of ?p "unresolved ops"] fold_op_apply [of ops]
  have "Replay it rd_ok (log_of s ops []) = Inr ?out"
    using Replay_log [OF assms(1), of "[]"] by (simp add: replay_tail_def)
  moreover have "set ?out = unresolved ops" using q mset_eq_setD [OF m] by simp
  moreover have "distinct (map tx_ID ?out)"
  proof -
    have "mset (map tx_ID ?out) = mset (map tx_ID (map snd ?p))"
      using arg_cong [OF m, of "image_mset tx_ID"] by (simp only: mset_map)
    then have "distinct (map tx_ID ?out) = distinct (map tx_ID (map snd ?p))"
      by (rule mset_eq_imp_distinct_iff)
    then show ?thesis using q by blast
  qed
  moreover have "sorted (map tx_key ?out)" by (rule sorted_sort_key)
  moreover have "sort_key tx_key ?out = ?out" using calculation(4) by (rule sort_key_id_if_sorted)
  ultimately show ?thesis by (intro that)
qed

lemma subseq_set: "subseq xs ys \<Longrightarrow> set xs \<subseteq> set ys"
  by (induction rule: list_emb.induct) auto

lemma sorted_wrt_subseq: "subseq xs ys \<Longrightarrow> sorted_wrt P ys \<Longrightarrow> sorted_wrt P xs"
  by (induction rule: list_emb.induct) (auto dest: subseq_set)

lemma subseq_sorted_seq:
  assumes "sorted (map tx_key txs)" and "subseq new (filter (\<lambda>t. tx_Partition t = i \<and> ok t) txs)"
  shows "sorted_wrt (\<lambda>a b. tx_Sequence a \<le> tx_Sequence b) new"
proof -
  have "sorted_wrt (\<lambda>a b. tx_key a \<le> tx_key b) txs" using assms(1) by (simp add: sorted_map)
  then have "sorted_wrt (\<lambda>a b. tx_key a \<le> tx_key b) (filter (\<lambda>t. tx_Partition t = i \<and> ok t) txs)"
    by (rule sorted_wrt_filter)
  then have "sorted_wrt (\<lambda>a b. tx_key a \<le> tx_key b) new"
    by (rule sorted_wrt_subseq [OF assms(2)])
  moreover have "\<forall>t \<in> set new. tx_Partition t = i" using subseq_set [OF assms(2)] by auto
  ultimately show ?thesis using sorted_wrt_mono_rel [of new "\<lambda>a b. tx_key a \<le> tx_key b"] by fastforce
qed

text \<open>What recovery of a log does, for the proofs of the properties.\<close>

definition recovery_spec ::
  "ledger option \<Rightarrow> wal_op list \<Rightarrow> Tx list \<Rightarrow> Pipeline \<Rightarrow> RecoveryReport \<Rightarrow> err option \<Rightarrow> Pipeline \<Rightarrow> bool" where
  "recovery_spec l ops txs p rep e p' \<longleftrightarrow>
     pipe_inv p' \<and> sorted (map tx_key txs) \<and> distinct (map tx_ID txs) \<and> set txs = unresolved ops
     \<and> grown (may_requeue l) txs p p'
     \<and> (e = None \<longrightarrow> report_sum rep = int (length txs) + int (card ((tx_ID ` {tx. WPrepare tx \<in> set ops}
           - tx_ID ` unresolved ops) \<inter> set (p_recovered p))))
     \<and> rr_Replayed rep = queued p' - queued p
     \<and> (e = None \<and> left_out rep = 0 \<longrightarrow> (\<forall>t \<in> unresolved ops. l \<noteq> None \<and> fst (Reconcile l (tx_ID t)) = LedgerCommitted
          \<or> 0 \<le> tx_Partition t \<and> t \<in> set (q_items (part_q p' (nat (tx_Partition t))))))
     \<and> ((\<exists>t \<in> unresolved ops. l \<noteq> None \<and> snd (Reconcile l (tx_ID t)) \<noteq> None) \<longrightarrow> e \<noteq> None)"

lemma recover_log:
  assumes inv: "pipe_inv p" and wal: "p_wal p = log_of s ops []" and ok: "\<forall>op \<in> set ops. op_ok op"
    and io: "re_ids_io env = rd_ok" "re_replay_io env = rd_ok" and it: "\<And>xs. mset (re_pending_order env xs) = mset xs"
  shows "\<exists>txs rep e p'. recoverTransactions l env p = Some ((rep, e), p') \<and> recovery_spec l ops txs p rep e p'"
proof -
  obtain txs where t: "Replay (re_pending_order env) rd_ok (log_of s ops []) = Inr txs" "sort_key tx_key txs = txs"
      "sorted (map tx_key txs)" "distinct (map tx_ID txs)" "set txs = unresolved ops"
    using pending_sorted [OF ok it] by blast
  let ?ids = "fold (\<lambda>op. note_id (op_record op)) ops []"
  have ids: "ReplayIDs rd_ok (log_of s ops []) = Inr ?ids"
    using ReplayIDs_log [OF ok, of "[]" s] by (simp add: scan_tail_def)
  have idset: "distinct ?ids \<and> set ?ids = tx_ID ` {tx. WPrepare tx \<in> set ops}" by (rule noted_ids)
  define fin where "fin = filter (\<lambda>i. i \<notin> tx_ID ` set txs) ?ids"
  define rep0 where "rep0 = zero_report\<lparr>rr_AlreadyPresent := int (length (filter (\<lambda>i. i \<in> set (p_recovered p)) fin))\<rparr>"
  obtain d where d: "mark_seen (re_now env) (re_ids_order env fin) (p_dedup p) = Some d" "dedup_inv d"
    using mark_seen_ok [of "p_dedup p"] inv unfolding pipe_inv_def by blast
  have i1: "pipe_inv (p\<lparr>p_dedup := d\<rparr>)" using inv d(2) by (simp add: pipe_inv_def)
  obtain rep e p' where r: "recover_loop l env 0 txs rep0 (p\<lparr>p_dedup := d\<rparr>) = Some ((rep, e), p')" "pipe_inv p'"
      "grown (may_requeue l) txs (p\<lparr>p_dedup := d\<rparr>) p'" "e = None \<longrightarrow> report_sum rep = report_sum rep0 + int (length txs)"
      "rr_Replayed rep - rr_Replayed rep0 = queued p' - queued (p\<lparr>p_dedup := d\<rparr>)"
      "(\<exists>t \<in> set txs. l \<noteq> None \<and> snd (Reconcile l (tx_ID t)) \<noteq> None) \<longrightarrow> e \<noteq> None"
    using recover_loop_effects [OF i1, of l env 0 txs rep0] by (elim exE conjE) (rule that)
  have "length (filter (\<lambda>i. i \<in> set (p_recovered p)) fin) = card ((tx_ID ` {tx. WPrepare tx \<in> set ops}
      - tx_ID ` unresolved ops) \<inter> set (p_recovered p))"
  proof -
    have "distinct (filter (\<lambda>i. i \<in> set (p_recovered p)) fin)" using idset by (simp add: fin_def)
    then have "length (filter (\<lambda>i. i \<in> set (p_recovered p)) fin) = card (set (filter (\<lambda>i. i \<in> set (p_recovered p)) fin))"
      by (rule distinct_card [symmetric])
    also have "set (filter (\<lambda>i. i \<in> set (p_recovered p)) fin) =
        (tx_ID ` {tx. WPrepare tx \<in> set ops} - tx_ID ` unresolved ops) \<inter> set (p_recovered p)"
      using idset t(5) by (auto simp: fin_def)
    finally show ?thesis .
  qed
  then have sum0: "report_sum rep0 = int (card ((tx_ID ` {tx. WPrepare tx \<in> set ops}
      - tx_ID ` unresolved ops) \<inter> set (p_recovered p)))" "rr_Replayed rep0 = 0"
    by (simp_all add: rep0_def report_sum_def zero_report_def)
  have "recoverTransactions l env p = Some ((rep, e), p')"
    using wal io ids t(1,2) d(1) r(1) unfolding recoverTransactions_def fin_def rep0_def
    by (simp add: log_of_def Let_def)
  moreover have "grown (may_requeue l) txs p p'" using r(3) by (simp add: grown_def)
  moreover have "e = None \<and> left_out rep = 0 \<longrightarrow> (\<forall>t \<in> set txs. l \<noteq> None \<and> fst (Reconcile l (tx_ID t)) = LedgerCommitted
          \<or> 0 \<le> tx_Partition t \<and> t \<in> set (q_items (part_q p' (nat (tx_Partition t)))))"
    using recover_loop_each [OF i1, of l env 0 txs rep0 rep p'] r(1) by (auto simp: rep0_def left_out_def zero_report_def)
  moreover have "recovery_spec l ops txs p rep e p'"
    unfolding recovery_spec_def using calculation(2,3) r(2,4,5,6) t(3-5) sum0 by simp
  ultimately show ?thesis by blast
qed

subsection \<open>Properties\<close>

text \<open>
  C5 What recovery queues: recovering a log of any prepares, commits and aborts, with or without a
  ledger, appends to each queue only unresolved transactions of that partition, in the order of
  their sequence numbers; none of them is one the ledger reports as committed; and the partition's
  counter ends at or above each of them, so new submissions get larger numbers.
\<close>

theorem recovery_requeues_in_order:
  assumes "pipe_inv p" and "p_wal p = log_of s ops []" and "\<forall>op \<in> set ops. op_ok op"
    and "re_ids_io env = rd_ok" and "re_replay_io env = rd_ok" and "\<And>xs. mset (re_pending_order env xs) = mset xs"
  shows "\<exists>rep e p'. recoverTransactions l env p = Some ((rep, e), p') \<and> pipe_inv p'
     \<and> (\<forall>i < length (p_parts p). \<exists>new. q_items (part_q p' i) = q_items (part_q p i) @ new
          \<and> set new \<subseteq> unresolved ops \<and> sorted_wrt (\<lambda>a b. tx_Sequence a \<le> tx_Sequence b) new
          \<and> (\<forall>t \<in> set new. tx_Partition t = int i \<and> tx_Sequence t \<le> pt_seq (p_parts p' ! i)
               \<and> (l \<noteq> None \<longrightarrow> fst (Reconcile l (tx_ID t)) \<noteq> LedgerCommitted)))"
proof -
  obtain txs rep e p' where s: "recoverTransactions l env p = Some ((rep, e), p')" "recovery_spec l ops txs p rep e p'"
    using recover_log [OF assms] by blast
  then have r: "recoverTransactions l env p = Some ((rep, e), p')" "pipe_inv p'"
      "sorted (map tx_key txs)" "set txs = unresolved ops" "grown (may_requeue l) txs p p'"
    by (simp_all add: recovery_spec_def)
  have "\<exists>new. q_items (part_q p' i) = q_items (part_q p i) @ new
          \<and> set new \<subseteq> unresolved ops \<and> sorted_wrt (\<lambda>a b. tx_Sequence a \<le> tx_Sequence b) new
          \<and> (\<forall>t \<in> set new. tx_Partition t = int i \<and> tx_Sequence t \<le> pt_seq (p_parts p' ! i)
               \<and> (l \<noteq> None \<longrightarrow> fst (Reconcile l (tx_ID t)) \<noteq> LedgerCommitted))"
    if i: "i < length (p_parts p)" for i
  proof -
    obtain new where n: "q_items (part_q p' i) = q_items (part_q p i) @ new"
        "subseq new (filter (\<lambda>t. tx_Partition t = int i \<and> may_requeue l t) txs)"
        "\<forall>t \<in> set new. tx_Sequence t \<le> pt_seq (p_parts p' ! i)"
      using r(5) i by (auto simp: grown_def)
    have "set new \<subseteq> set (filter (\<lambda>t. tx_Partition t = int i \<and> may_requeue l t) txs)"
      using n(2) by (rule subseq_set)
    then have "\<forall>t \<in> set new. t \<in> unresolved ops \<and> tx_Partition t = int i \<and> may_requeue l t" using r(4) by auto
    then show ?thesis using n subseq_sorted_seq [OF r(3) n(2)]
      by (intro exI [of _ new]) (auto simp: may_requeue_def)
  qed
  then show ?thesis using r(1,2) by blast
qed

definition renv0 :: recover_env where
  "renv0 = \<lparr>re_ids_io = rd_ok, re_replay_io = rd_ok, re_pending_order = rev, re_ids_order = rev, re_pick = hd,
     re_now = 0, re_ctx = (\<lambda>_. None), re_elapsed = 1\<rparr>"

definition absent_ledger :: ledger where
  "absent_ledger = (\<lambda>_. (LedgerNotCommitted, None))"

definition unknown_ledger :: ledger where
  "unknown_ledger = (\<lambda>_. (LedgerUnknown, None))"

definition pipe1_wal :: Pipeline where
  "pipe1_wal = pipe1\<lparr>p_wal := log_of False [WPrepare tx_b, WPrepare tx_a, WCommit ''a''] []\<rparr>"

lemma pipe1_wal_ok:
  "pipe_inv pipe1_wal" "p_wal pipe1_wal = log_of False [WPrepare tx_b, WPrepare tx_a, WCommit ''a''] []"
  "\<forall>op \<in> set [WPrepare tx_b, WPrepare tx_a, WCommit ''a'']. op_ok op"
  "re_ids_io renv0 = rd_ok" "re_replay_io renv0 = rd_ok" "\<And>xs. mset (re_pending_order renv0 xs) = mset xs"
  using NewPipeline_inv(1) [OF pipe1_new] example_txs_ok
  by (simp_all add: pipe1_wal_def pipe_inv_def renv0_def)

theorem recovery_requeues_in_order_witness:
  "\<exists>rep e p'. recoverTransactions (Some absent_ledger) renv0 pipe1_wal = Some ((rep, e), p') \<and> pipe_inv p'
     \<and> (\<forall>i < length (p_parts pipe1_wal). \<exists>new. q_items (part_q p' i) = q_items (part_q pipe1_wal i) @ new
          \<and> set new \<subseteq> unresolved [WPrepare tx_b, WPrepare tx_a, WCommit ''a'']
          \<and> sorted_wrt (\<lambda>a b. tx_Sequence a \<le> tx_Sequence b) new
          \<and> (\<forall>t \<in> set new. tx_Partition t = int i \<and> tx_Sequence t \<le> pt_seq (p_parts p' ! i)
               \<and> (Some absent_ledger \<noteq> None \<longrightarrow>
                    fst (Reconcile (Some absent_ledger) (tx_ID t)) \<noteq> LedgerCommitted)))"
  by (rule recovery_requeues_in_order [OF pipe1_wal_ok])

text \<open>
  C16 The recovery report is complete: if recovery ends without an error, its five counts add up to
  the number of unresolved transactions of the log plus the resolved ones this process had recovered
  before, and the replayed count is exactly what the queues grew by.
\<close>

theorem recovery_accounts_for_all:
  assumes "pipe_inv p" and "p_wal p = log_of s ops []" and "\<forall>op \<in> set ops. op_ok op"
    and "re_ids_io env = rd_ok" and "re_replay_io env = rd_ok" and "\<And>xs. mset (re_pending_order env xs) = mset xs"
    and "recoverTransactions l env p = Some ((rep, None), p')"
  shows "rr_Replayed rep + rr_AlreadyPresent rep + rr_Committed rep + rr_Pending rep + rr_Unknown rep
       = int (card (unresolved ops))
         + int (card ((tx_ID ` {tx. WPrepare tx \<in> set ops} - tx_ID ` unresolved ops) \<inter> set (p_recovered p)))
     \<and> rr_Replayed rep = queued p' - queued p"
proof -
  obtain txs where r: "recovery_spec l ops txs p rep None p'"
    using recover_log [OF assms(1-6), of l] assms(7) by auto
  have "length txs = card (unresolved ops)" 
    using r distinct_card [of txs] by (auto simp: recovery_spec_def dest: distinct_map [THEN iffD1])
  then show ?thesis using r by (simp add: report_sum_def recovery_spec_def)
qed

theorem recovery_accounts_for_all_witness:
  "\<exists>rep p'. recoverTransactions None renv0 pipe1_wal = Some ((rep, None), p')
     \<and> rr_Replayed rep + rr_AlreadyPresent rep + rr_Committed rep + rr_Pending rep + rr_Unknown rep
       = int (card (unresolved [WPrepare tx_b, WPrepare tx_a, WCommit ''a'']))
         + int (card ((tx_ID ` {tx. WPrepare tx \<in> set [WPrepare tx_b, WPrepare tx_a, WCommit ''a'']}
             - tx_ID ` unresolved [WPrepare tx_b, WPrepare tx_a, WCommit ''a'']) \<inter> set (p_recovered pipe1_wal)))
     \<and> rr_Replayed rep = queued p' - queued pipe1_wal"
proof -
  obtain txs where t: "Replay (re_pending_order renv0) rd_ok (p_wal pipe1_wal) = Inr txs"
    using pending_sorted [OF pipe1_wal_ok(3,6), of False] unfolding pipe1_wal_ok(2) by metis
  obtain ids where ids: "ReplayIDs rd_ok (p_wal pipe1_wal) = Inr ids"
    using ReplayIDs_log [OF pipe1_wal_ok(3), of "[]" False] unfolding pipe1_wal_ok(2) by (simp add: scan_tail_def)
  obtain rep e p' where r: "recoverTransactions None renv0 pipe1_wal = Some ((rep, e), p')"
    using recover_log [OF pipe1_wal_ok, of None] by blast
  have noerr: "e = None" if "recover_loop None renv0 n txs rep0 q = Some ((rep1, e), q')" for n txs rep0 q rep1 e q'
    using that by (induction txs arbitrary: n rep0 q) (auto simp: renv0_def split: option.splits prod.splits)
  have "e = None"
    using r noerr unfolding recoverTransactions_def pipe1_wal_ok(4,5) t ids
    by (auto simp: Let_def pipe1_wal_def log_of_def split: option.splits)
  with r recovery_accounts_for_all [OF pipe1_wal_ok, of None rep p'] show ?thesis by simp
qed



end
