(* ===== verification/V2_Engine.thy ===== *)
theory V2_Engine
  imports V2_Recovery
begin

text \<open>
  The v2 engine over its whole life: any sequence of submissions, worker rounds, recoveries, replays
  and stops from a new pipeline. \<open>engine_ok\<close> is the type of the states the engine can be in; no
  operation panics and none leaves it.
\<close>

subsection \<open>Operations as one sequence\<close>

datatype engine_op =
    ESubmit submit_env Tx
  | EWork nat wake "nat \<Rightarrow> nat \<Rightarrow> flush_env"
  | ERecover recover_env
  | ERecoverWithLedger "ledger option" recover_env
  | EReplay "Tx list \<Rightarrow> Tx list" read_io
  | is_EStop: EStop "nat \<Rightarrow> nat \<Rightarrow> nat \<Rightarrow> flush_env"

text \<open>One operation on the workers, the pipeline and the backend; \<open>None\<close> is a panic.\<close>

fun engine_step ::
  "'b backend option \<Rightarrow> engine_op \<Rightarrow> worker list \<times> Pipeline \<times> 'b \<Rightarrow> (worker list \<times> Pipeline \<times> 'b) option" where
  "engine_step be (ESubmit env tx) (ws, p, b) = map_option (\<lambda>(r, p'). (ws, p', b)) (Submit env tx p)"
| "engine_step be (EWork i wk env) (ws, p, b) =
     (if i < length (p_parts p)
      then (case worker_round be i wk env (ws ! i) (p, b) of (r, w, p', b') \<Rightarrow> Some (ws[i := w], p', b'))
      else Some (ws, p, b))"
| "engine_step be (ERecover env) (ws, p, b) = map_option (\<lambda>(r, p'). (ws, p', b)) (Recover env p)"
| "engine_step be (ERecoverWithLedger l env) (ws, p, b) =
     map_option (\<lambda>(r, p'). (ws, p', b)) (RecoverWithLedger l env p)"
| "engine_step be (EReplay it rd) (ws, p, b) = Some (ws, snd (ReplayUncommitted it rd p), b)"
| "engine_step be (EStop env) (ws, p, b) = Some (snd (Stop be env ws (p, b)))"

fun engine_run ::
  "'b backend option \<Rightarrow> engine_op list \<Rightarrow> worker list \<times> Pipeline \<times> 'b \<Rightarrow> (worker list \<times> Pipeline \<times> 'b) option" where
  "engine_run be [] s = Some s"
| "engine_run be (op # ops) s = (case engine_step be op s of None \<Rightarrow> None | Some s' \<Rightarrow> engine_run be ops s')"

subsection \<open>What every operation but Stop keeps\<close>

text \<open>
  A queue keeps its capacity and whether it is closed, and an empty closed queue stays empty; the
  configuration, the accepting and stopped flags and the number of partitions do not change.
\<close>

definition queue_kept :: "Queue \<Rightarrow> Queue \<Rightarrow> bool" where
  "queue_kept q q' \<longleftrightarrow> q_cap q' = q_cap q \<and> q_closed q' = q_closed q
     \<and> (q_closed q \<and> q_items q = [] \<longrightarrow> q_items q' = [])"

definition kept :: "Pipeline \<Rightarrow> Pipeline \<Rightarrow> bool" where
  "kept p p' \<longleftrightarrow> p_cfg p' = p_cfg p \<and> p_accepting p' = p_accepting p \<and> p_stopped p' = p_stopped p
     \<and> length (p_parts p') = length (p_parts p)
     \<and> (\<forall>i < length (p_parts p). queue_kept (part_q p i) (part_q p' i))"

lemma queue_kept_refl [simp]: "queue_kept q q"
  by (simp add: queue_kept_def)

lemma queue_kept_push: "Push tx q = Inr q' \<Longrightarrow> queue_kept q q'"
  by (auto simp: queue_kept_def Push_Inr)

lemma kept_refl [simp]: "kept p p"
  by (simp add: kept_def)

lemma kept_trans: "kept p p1 \<Longrightarrow> kept p1 p2 \<Longrightarrow> kept p p2"
  by (auto simp: kept_def queue_kept_def)

lemma kept_dedup [simp]: "kept p (p'\<lparr>p_dedup := d\<rparr>) = kept p p'" "kept (p\<lparr>p_dedup := d\<rparr>) p' = kept p p'"
  by (simp_all add: kept_def)

lemma kept_metrics [simp]: "kept p (upd_metrics f p') = kept p p'"
  by (simp add: kept_def)

lemma kept_set_seq [simp]: "kept p (set_seq i s p') = kept p p'"
proof -
  have "part_q (set_seq i s p') j = part_q p' j" if "j < length (p_parts p')" for j
    using that by (cases "j = i") (simp_all add: set_seq_def)
  then show ?thesis by (auto simp: kept_def)
qed

lemma kept_remember [simp]: "kept p (remember_recovered pick i p') = kept p p'"
  by (simp add: kept_def remember_recovered_def Let_def)

lemma kept_set_q: "kept p p' \<Longrightarrow> i < length (p_parts p) \<Longrightarrow> queue_kept (part_q p' i) q \<Longrightarrow> kept p (set_q i q p')"
  by (rule kept_trans [of p p']) (auto simp: kept_def set_q_def nth_list_update)

lemma kept_submit:
  assumes "pipe_inv p"
  obtains r p' where "Submit env tx p = Some (r, p')" and "pipe_inv p'" and "kept p p'"
proof -
  obtain k e p' where s: "Submit env tx p = Some ((k, e), p')" "pipe_inv p'" "same_shape p p'"
      "case e of None \<Rightarrow> 0 \<le> k \<and> accepted env tx (nat k) p p' | Some x \<Rightarrow> refused tx x p p'"
    using Submit_effects [OF assms, of env tx] by metis
  have "queue_kept (part_q p i) (part_q p' i)" if "i < length (p_parts p)" for i
    using s(4) that
    by (cases e; cases "i = nat k") (auto simp: accepted_def refused_def queue_kept_push)
  then have "kept p p'" using s(3) by (auto simp: kept_def same_shape_def)
  with s(1,2) show ?thesis by (rule that)
qed

lemma kept_worked: "worked i txs p p' \<Longrightarrow> kept p p'"
  unfolding kept_def queue_kept_def worked_def same_frame_def by (metis append_is_Nil_conv)

lemma kept_requeue:
  assumes "requeue env tx rep p = Some (rep', p')"
  shows "kept p p'"
proof -
  obtain seen d where s: "SeenOrAdd (tx_ID tx) (re_now env) (p_dedup p) = Some (seen, d)"
    using assms by (auto simp: requeue_def split: option.splits)
  show ?thesis
  proof (cases "seen \<or> tx_Partition tx < 0 \<or> tx_Partition tx \<ge> int (length (p_parts p))")
    case True
    then show ?thesis using assms s by (cases seen) (auto simp: requeue_def Let_def)
  next
    case False
    let ?i = "nat (tx_Partition tx)"
    define p2 where "p2 = (if tx_Sequence tx > pt_seq (p_parts p ! ?i) then set_seq ?i (tx_Sequence tx) (p\<lparr>p_dedup := d\<rparr>)
      else p\<lparr>p_dedup := d\<rparr>)"
    have k: "kept p p2" and i: "?i < length (p_parts p)" using False by (auto simp: p2_def)
    show ?thesis
    proof (cases "Push tx (part_q p2 ?i)")
      case (Inl e)
      then show ?thesis using assms s False k by (auto simp: requeue_def Let_def p2_def split: if_splits)
    next
      case (Inr q)
      then have "p' = upd_metrics (on_part ?i (\<lambda>c. c\<lparr>pm_accepted := pm_accepted c + 1, pm_queueDepth := word_of_int (Len q)\<rparr>))
            (remember_recovered (re_pick env) (tx_ID tx) (set_q ?i q p2))"
        using assms s False by (simp add: requeue_def Let_def p2_def)
      then show ?thesis using kept_set_q [OF k i queue_kept_push [OF Inr]] by simp
    qed
  qed
qed

lemma kept_recover_loop: "recover_loop l env n txs rep p = Some (r, p') \<Longrightarrow> kept p p'"
proof (induction txs arbitrary: l n rep p)
  case (Cons tx txs)
  from Cons.prems show ?case
    by (auto split: option.splits prod.splits if_splits dest!: Cons.IH kept_requeue intro: kept_trans)
qed auto

lemma recoverTransactions_ok:
  assumes inv: "pipe_inv p"
  obtains r p' where "recoverTransactions l env p = Some (r, p')" and "pipe_inv p'" and "kept p p'"
proof (cases "p_wal p = None \<or> (\<exists>e. ReplayIDs (re_ids_io env) (p_wal p) = Inl e)
    \<or> (\<exists>e. Replay (re_pending_order env) (re_replay_io env) (p_wal p) = Inl e)")
  case True
  then have "\<exists>r. recoverTransactions l env p = Some (r, p)"
    by (auto simp: recoverTransactions_def split: sum.split)
  then obtain r where "recoverTransactions l env p = Some (r, p)" by blast
  then show ?thesis using inv kept_refl by (rule that)
next
  case False
  then obtain w ids txs where l: "p_wal p = Some w" "ReplayIDs (re_ids_io env) (p_wal p) = Inr ids"
      "Replay (re_pending_order env) (re_replay_io env) (p_wal p) = Inr txs"
    by (metis not_None_eq obj_sumE)
  let ?ids = "re_ids_order env (filter (\<lambda>i. i \<notin> tx_ID ` set (sort_key tx_key txs)) ids)"
  obtain d where d: "mark_seen (re_now env) ?ids (p_dedup p) = Some d" "dedup_inv d"
    using mark_seen_ok [of "p_dedup p"] inv unfolding pipe_inv_def by blast
  have i1: "pipe_inv (p\<lparr>p_dedup := d\<rparr>)" using inv d(2) by (simp add: pipe_inv_def)
  let ?rep = "zero_report\<lparr>rr_AlreadyPresent := int (length (filter (\<lambda>i. i \<in> set (p_recovered p))
      (filter (\<lambda>i. i \<notin> tx_ID ` set (sort_key tx_key txs)) ids)))\<rparr>"
  obtain rep e p' where r: "recover_loop l env 0 (sort_key tx_key txs) ?rep (p\<lparr>p_dedup := d\<rparr>) = Some ((rep, e), p')" "pipe_inv p'"
    using recover_loop_effects [OF i1, of l env 0 "sort_key tx_key txs" ?rep] by (elim exE conjE) (rule that)
  have "recoverTransactions l env p = Some ((rep, e), p')"
    unfolding recoverTransactions_def Let_def l(2,3) sum.case d(1) option.case r(1) by (simp add: l(1))
  then show ?thesis using r(2) kept_recover_loop [OF r(1)] by (intro that) simp_all
qed

lemma worker_round_ok:
  assumes inv: "pipe_inv p" and i: "i < length (p_parts p)"
    and r: "worker_round be i wk env w (p, b) = (r, w', p', b')"
  shows "pipe_inv p'" and "kept p p'"
proof -
  obtain txs ret where e: "r = (txs, ret)" by force
  have m: "i < length (m_partitions (p_metrics p))" using inv i by (simp add: pipe_inv_def)
  have "worked i txs p p'" by (rule worker_round_worked(1) [OF i m r [unfolded e]])
  then show "pipe_inv p'" "kept p p'" using worked_inv [OF inv] kept_worked by blast+
qed

lemma join_workers_kept:
  assumes "pipe_inv p" and "\<forall>i \<in> set js. i < length (p_parts p)" and "join_workers be env js ws (p, b) = (out, ws', p', b')"
  shows "kept p p' \<and> length ws' = length ws"
  using assms
proof (induction js arbitrary: ws p b out)
  case (Cons i js)
  obtain r w p1 b1 where r: "worker_round be i Done (env i) (ws ! i) (p, b) = (r, w, p1, b1)" by (metis surj_pair)
  obtain out2 where j: "join_workers be env js (ws[i := w]) (p1, b1) = (out2, ws', p', b')"
    using Cons.prems(3) r by (auto split: prod.splits)
  have "i < length (p_parts p)" using Cons.prems(2) by simp
  note k = worker_round_ok [OF Cons.prems(1) this r]
  have "\<forall>i \<in> set js. i < length (p_parts p1)" using k(2) Cons.prems(2) by (simp add: kept_def)
  from Cons.IH [OF k(1) this j] kept_trans [OF k(2)] show ?case by simp
qed simp

subsection \<open>The type of engine states\<close>

text \<open>
  A state of an engine of configuration \<open>cfg\<close>: well formed, one worker and one queue of the configured
  capacity per partition, and, once it was stopped, refusing, with every queue closed and empty.
\<close>

definition engine_ok :: "Config \<Rightarrow> worker list \<Rightarrow> Pipeline \<Rightarrow> bool" where
  "engine_ok cfg ws p \<longleftrightarrow> pipe_inv p \<and> p_cfg p = cfg \<and> length (p_parts p) = nat (Partitions cfg)
     \<and> length ws = nat (Partitions cfg)
     \<and> (\<forall>i < length (p_parts p). q_cap (part_q p i) = V2_Types.QueueCapacity cfg)
     \<and> (p_stopped p \<longrightarrow> \<not> p_accepting p \<and> (\<forall>i < length (p_parts p). q_closed (part_q p i) \<and> q_items (part_q p i) = []))"

lemma engine_ok_kept:
  assumes "engine_ok cfg ws p" and "pipe_inv p'" and "kept p p'" and "length ws' = length ws"
  shows "engine_ok cfg ws' p'"
  using assms by (auto simp: engine_ok_def kept_def queue_kept_def)

lemma engine_ok_Stop:
  assumes ok: "engine_ok cfg ws p" and st: "Stop be env ws (p, b) = (out, ws', p', b')"
  shows "engine_ok cfg ws' p' \<and> p_stopped p'"
proof (cases "p_stopped p")
  case True
  then show ?thesis using ok st by (simp add: Stop_def)
next
  case False
  let ?p0 = "close_all (p\<lparr>p_stopped := True\<rparr>)"
  have "pipe_inv (p\<lparr>p_stopped := True\<rparr>)" using ok by (simp add: engine_ok_def pipe_inv_def)
  note c = close_all_inv [OF this]
  obtain p2 where j: "join_workers be env [0..<length (p_parts p)] ws (?p0, b) = (out, ws', p2, b')"
    and p': "p' = p2\<lparr>p_wal := snd (wal_Close (p_wal p2))\<rparr>"
    using st False by (auto simp: Stop_def split: prod.splits)
  have js: "\<forall>i \<in> set [0..<length (p_parts p)]. i < length (p_parts ?p0)" using c(4) by simp
  note d = join_workers_drained [OF c(1) distinct_upt js j]
  have k: "kept ?p0 p2" "length ws' = length ws" using join_workers_kept [OF c(1) js j] by simp_all
  have q: "part_q ?p0 i = CloseQueue (part_q p i)" if "i < length (p_parts p)" for i
    using that by (simp add: close_all_def)
  have "q_cap (part_q p' i) = q_cap (part_q p i) \<and> q_closed (part_q p' i) \<and> q_items (part_q p' i) = []"
    if "i < length (p_parts p)" for i
    using that k(1) d q [OF that] c(4) unfolding p' kept_def queue_kept_def by (simp add: CloseQueue_def)
  moreover have "pipe_inv p'" using d by (simp add: p' pipe_inv_def)
  moreover have "p_cfg p' = p_cfg p" "\<not> p_accepting p'" "p_stopped p'" "length (p_parts p') = length (p_parts p)"
    using k(1) by (auto simp: p' kept_def close_all_def)
  ultimately show ?thesis using ok k(2) by (simp add: engine_ok_def)
qed

lemma engine_step_ok:
  assumes ok: "engine_ok cfg ws p"
  shows "\<exists>ws' p' b'. engine_step be op (ws, p, b) = Some (ws', p', b') \<and> engine_ok cfg ws' p'
     \<and> (p_stopped p \<or> is_EStop op \<longrightarrow> p_stopped p')"
proof -
  have inv: "pipe_inv p" using ok by (simp add: engine_ok_def)
  have keep: "engine_ok cfg ws' p' \<and> (p_stopped p \<longrightarrow> p_stopped p')" if "pipe_inv p'" "kept p p'" "length ws' = length ws" for ws' p'
    using engine_ok_kept [OF ok that] that(2) by (simp add: kept_def)
  show ?thesis
  proof (cases op)
    case (ESubmit env tx)
    obtain r p' where s: "Submit env tx p = Some (r, p')" "pipe_inv p'" "kept p p'" by (rule kept_submit [OF inv])
    then show ?thesis using keep ESubmit by simp
  next
    case (EWork i wk env)
    obtain r w p' b' where w: "worker_round be i wk env (ws ! i) (p, b) = (r, w, p', b')" by (metis surj_pair)
    show ?thesis
    proof (cases "i < length (p_parts p)")
      case True
      then show ?thesis using keep [OF worker_round_ok [OF inv True w], of "ws[i := w]"] w EWork by simp
    next
      case False
      then show ?thesis using ok EWork by simp
    qed
  next
    case (ERecover env)
    obtain r p' where "recoverTransactions None env p = Some (r, p')" "pipe_inv p'" "kept p p'"
      by (rule recoverTransactions_ok [OF inv])
    then show ?thesis using keep ERecover by (simp add: Recover_def)
  next
    case (ERecoverWithLedger l env)
    obtain r p' where "recoverTransactions l env p = Some (r, p')" "pipe_inv p'" "kept p p'"
      by (rule recoverTransactions_ok [OF inv])
    then show ?thesis using keep ok ERecoverWithLedger by (simp add: RecoverWithLedger_def)
  next
    case (EReplay it rd)
    have "pipe_inv (snd (ReplayUncommitted it rd p))" "kept p (snd (ReplayUncommitted it rd p))"
      using inv by (auto simp: ReplayUncommitted_def pipe_inv_def split: sum.splits)
    then show ?thesis using keep EReplay by simp
  next
    case (EStop env)
    obtain out ws' p' b' where "Stop be env ws (p, b) = (out, ws', p', b')" by (metis surj_pair)
    then show ?thesis using engine_ok_Stop [OF ok] EStop by fastforce
  qed
qed

lemma engine_run_ok:
  assumes "engine_ok cfg ws p"
  shows "\<exists>ws' p' b'. engine_run be ops (ws, p, b) = Some (ws', p', b') \<and> engine_ok cfg ws' p'
     \<and> (p_stopped p \<or> (\<exists>op \<in> set ops. is_EStop op) \<longrightarrow> p_stopped p')"
  using assms
proof (induction ops arbitrary: ws p b)
  case (Cons op ops)
  obtain ws1 p1 b1 where s: "engine_step be op (ws, p, b) = Some (ws1, p1, b1)" "engine_ok cfg ws1 p1"
      "p_stopped p \<or> is_EStop op \<longrightarrow> p_stopped p1"
    using engine_step_ok [OF Cons.prems] by metis
  then show ?case using Cons.IH [OF s(2), of b1] by auto
qed simp

lemma engine_ok_new:
  assumes "NewPipeline cfg os now = Inr p"
  shows "engine_ok cfg (replicate (nat (Partitions cfg)) worker0) p"
proof -
  have "q_cap (part_q p i) = V2_Types.QueueCapacity cfg" if "i < length (p_parts p)" for i
    using assms that
    by (auto simp: NewPipeline_def NewQueue_def Validate_None split: option.splits sum.splits if_splits)
  then show ?thesis using NewPipeline_inv(1,3,5,6) [OF assms] by (simp add: engine_ok_def)
qed

subsection \<open>Properties\<close>

text \<open>
  C14 The engine never panics and never leaves its type: whatever configuration it was built from,
  every sequence of submissions, worker rounds, recoveries with or without a ledger, replays and stops,
  one after another and whatever the context, the clock, the log file, the ledger and the backend do,
  runs to its end. The state is then well formed, with the configuration it was built from, as many
  partitions and workers as configured, and no queue above the configured capacity; and if Stop was
  among the operations, the engine refuses submissions and every queue is closed and empty, also after
  a later recovery.
\<close>

theorem engine_stays_well_typed:
  assumes "NewPipeline cfg os now = Inr p"
  shows "\<exists>ws' p' b'. engine_run be ops (replicate (nat (Partitions cfg)) worker0, p, b) = Some (ws', p', b')
     \<and> pipe_inv p' \<and> p_cfg p' = cfg \<and> length (p_parts p') = nat (Partitions cfg) \<and> length ws' = nat (Partitions cfg)
     \<and> (\<forall>i < nat (Partitions cfg). int (length (q_items (part_q p' i))) \<le> V2_Types.QueueCapacity cfg)
     \<and> ((\<exists>op \<in> set ops. is_EStop op) \<longrightarrow> \<not> p_accepting p'
          \<and> (\<forall>i < nat (Partitions cfg). q_closed (part_q p' i) \<and> q_items (part_q p' i) = []))"
proof -
  obtain ws' p' b' where r: "engine_run be ops (replicate (nat (Partitions cfg)) worker0, p, b) = Some (ws', p', b')"
      "engine_ok cfg ws' p'" "(\<exists>op \<in> set ops. is_EStop op) \<longrightarrow> p_stopped p'"
    using engine_run_ok [OF engine_ok_new [OF assms]] by metis
  have "int (length (q_items (part_q p' i))) \<le> V2_Types.QueueCapacity cfg" if "i < nat (Partitions cfg)" for i
    using that r(2) by (auto simp: engine_ok_def pipe_inv_def queue_inv_def)
  then show ?thesis using r by (auto simp: engine_ok_def)
qed

theorem engine_stays_well_typed_witness:
  "\<exists>ws' p' b'. engine_run None [ESubmit env0 tx_a, EStop (\<lambda>_. fenv0), ERecover renv0, ESubmit env0 tx_b]
       (replicate (nat (Partitions cfg1)) worker0, pipe1, ()) = Some (ws', p', b')
     \<and> pipe_inv p' \<and> p_cfg p' = cfg1 \<and> \<not> p_accepting p' \<and> q_items (part_q p' 0) = []"
  using engine_stays_well_typed [OF pipe1_new, of None
      "[ESubmit env0 tx_a, EStop (\<lambda>_. fenv0), ERecover renv0, ESubmit env0 tx_b]" "()"]
  by (fastforce simp: cfg1_def)

end
