(* ===== verification/Ring_Buffer.thy ===== *)
theory Ring_Buffer
  imports V2_Queue
begin

text \<open>
  The bounded queue of \<^verbatim>\<open>pkg/router/ringbuffer.go\<close>, the second instance of the contract
  \<open>bounded_fifo\<close>. Every operation holds the mutex of the buffer, so each is one step.
  Construction with a capacity that is not a power of two panics, written as the result
  \<open>None\<close>.
\<close>

unbundle bit_operations_syntax

datatype buffer_err = ErrBufferFull | ErrBufferEmpty

record TransactionPayload =
  tp_TxID :: string
  tp_Namespace :: string
  tp_Payload :: bytes
  tp_Key :: string

record RingBuffer =
  rb_items :: "TransactionPayload list"
  rb_capacity :: u64

definition NewRingBuffer :: "u64 \<Rightarrow> RingBuffer option" where
  "NewRingBuffer capacity =
     (if capacity = 0 \<or> capacity AND (capacity - 1) \<noteq> 0 then None
      else Some \<lparr>rb_items = [], rb_capacity = capacity\<rparr>)"

definition rb_Push :: "TransactionPayload \<Rightarrow> RingBuffer \<Rightarrow> buffer_err + RingBuffer" where
  "rb_Push tx rb =
     (if (of_nat (length (rb_items rb)) :: u64) \<ge> rb_capacity rb then Inl ErrBufferFull
      else Inr (rb\<lparr>rb_items := rb_items rb @ [tx]\<rparr>))"

text \<open>
  The conversion \<^verbatim>\<open>int(maxBatch)\<close> reads the bits as a signed number, so 0 and every value of
  2^63 and above ask for the whole buffer.
\<close>

definition rb_PopBatch ::
  "u64 \<Rightarrow> RingBuffer \<Rightarrow> (buffer_err + TransactionPayload list) \<times> RingBuffer" where
  "rb_PopBatch maxBatch rb =
     (if rb_items rb = [] then (Inl ErrBufferEmpty, rb)
      else let n0 = sint maxBatch;
               n = (if n0 \<le> 0 \<or> n0 > int (length (rb_items rb)) then length (rb_items rb) else nat n0)
           in (Inr (take n (rb_items rb)), rb\<lparr>rb_items := drop n (rb_items rb)\<rparr>))"

definition rb_Length :: "RingBuffer \<Rightarrow> u64" where
  "rb_Length rb = of_nat (length (rb_items rb))"

subsection \<open>The buffer meets the contract of a bounded queue\<close>

text \<open>A Go slice is shorter than 2^63 elements, so a capacity of 2^63 is never reached.\<close>

definition ring_inv :: "RingBuffer \<Rightarrow> bool" where
  "ring_inv rb \<longleftrightarrow> length (rb_items rb) \<le> unat (rb_capacity rb)"

definition rb_pop_items :: "u64 \<Rightarrow> RingBuffer \<Rightarrow> TransactionPayload list \<times> RingBuffer" where
  "rb_pop_items n rb =
     (case rb_PopBatch n rb of (Inl e, rb') \<Rightarrow> ([], rb') | (Inr xs, rb') \<Rightarrow> (xs, rb'))"

lemma ring_inv_New [inv_intros]: "NewRingBuffer c = Some rb \<Longrightarrow> ring_inv rb"
  by (auto simp: NewRingBuffer_def ring_inv_def split: if_splits)

lemma ring_len_word:
  assumes "ring_inv rb"
  shows "(of_nat (length (rb_items rb)) :: u64) \<ge> rb_capacity rb \<longleftrightarrow> length (rb_items rb) = unat (rb_capacity rb)"
proof -
  have "length (rb_items rb) < 2 ^ 64"
    using assms unat_u64_less [of "rb_capacity rb"] by (simp add: ring_inv_def)
  then have "unat (of_nat (length (rb_items rb)) :: u64) = length (rb_items rb)"
    by (rule unat_of_nat_u64)
  then show ?thesis using assms by (auto simp: word_le_nat_alt ring_inv_def)
qed

lemma rb_Push_Inr:
  "ring_inv rb \<Longrightarrow> rb_Push tx rb = Inr rb' \<longleftrightarrow> length (rb_items rb) < unat (rb_capacity rb)
     \<and> rb' = rb\<lparr>rb_items := rb_items rb @ [tx]\<rparr>"
  by (auto simp: rb_Push_def ring_len_word ring_inv_def)

lemma rb_pop_items_eq:
  "rb_pop_items n rb = (xs, rb') \<Longrightarrow> xs @ rb_items rb' = rb_items rb \<and> rb_capacity rb' = rb_capacity rb"
  by (auto simp: rb_pop_items_def rb_PopBatch_def Let_def split: if_splits)

interpretation ring: bounded_fifo rb_items "\<lambda>rb. unat (rb_capacity rb)" ring_inv rb_Push rb_pop_items
proof
  show "ring_inv q \<Longrightarrow> length (rb_items q) \<le> unat (rb_capacity q)" for q
    by (simp add: ring_inv_def)
  show "ring_inv q \<Longrightarrow> rb_Push x q = Inr q'
      \<Longrightarrow> ring_inv q' \<and> rb_items q' = rb_items q @ [x] \<and> unat (rb_capacity q') = unat (rb_capacity q)"
    for q x q'
    by (auto simp: rb_Push_Inr ring_inv_def)
  show "ring_inv q \<Longrightarrow> rb_pop_items n q = (xs, q')
      \<Longrightarrow> ring_inv q' \<and> xs @ rb_items q' = rb_items q \<and> unat (rb_capacity q') = unat (rb_capacity q)"
    for q n xs q'
    using rb_pop_items_eq [of n q xs q'] by (auto simp: ring_inv_def dest: arg_cong [of _ _ length])
qed

subsection \<open>Properties\<close>

text \<open>
  A ring buffer created with a power of two hands out what it accepted, in that order: over every
  sequence of pushes and batch pops the popped payloads followed by the buffered ones are the
  accepted ones, the length it reports is their number and at most the capacity, and a push is
  refused exactly when the buffer holds that many.
\<close>

theorem ring_run_lossless:
  assumes "NewRingBuffer c = Some rb" and "fifo_run rb_Push rb_pop_items ops rb = (acc, out, rb')"
  shows "out @ rb_items rb' = acc \<and> unat (rb_Length rb') = length (rb_items rb') \<and> rb_Length rb' \<le> c
     \<and> (rb_Push tx rb' = Inl ErrBufferFull \<longleftrightarrow> rb_Length rb' = c)"
proof -
  have rb: "ring_inv rb" "rb_items rb = []" "rb_capacity rb = c"
    using assms(1) ring_inv_New by (auto simp: NewRingBuffer_def split: if_splits)
  have r: "ring_inv rb'" "out @ rb_items rb' = acc" "rb_capacity rb' = c"
    using ring.run_lossless [OF rb(1) assms(2)] rb by (auto simp: word_unat_eq_iff)
  have "length (rb_items rb') < 2 ^ 64"
    using r(1) unat_u64_less [of "rb_capacity rb'"] by (simp add: ring_inv_def)
  then have len: "unat (rb_Length rb') = length (rb_items rb')"
    by (simp add: rb_Length_def unat_of_nat_u64)
  moreover have "rb_Push tx rb' = Inl ErrBufferFull \<longleftrightarrow> length (rb_items rb') = unat c"
    using ring_len_word [OF r(1)] r(3) by (simp add: rb_Push_def)
  ultimately show ?thesis
    using r by (simp add: word_le_nat_alt word_unat_eq_iff ring_inv_def)
qed

theorem ring_run_lossless_witness:
  "\<exists>rb acc out rb' tx. NewRingBuffer 2 = Some rb
     \<and> fifo_run rb_Push rb_pop_items [FPush tx, FPush tx, FPush tx, FPop 1, FPush tx] rb = (acc, out, rb')
     \<and> out @ rb_items rb' = acc \<and> rb_Length rb' \<le> 2
     \<and> (rb_Push tx rb' = Inl ErrBufferFull \<longleftrightarrow> rb_Length rb' = 2)"
proof -
  obtain rb where rb: "NewRingBuffer 2 = Some rb" by (simp add: NewRingBuffer_def)
  fix tx
  obtain acc out rb' where r: "fifo_run rb_Push rb_pop_items
      [FPush tx, FPush tx, FPush tx, FPop 1, FPush tx] rb = (acc, out, rb')"
    by (metis prod_cases3)
  from rb r ring_run_lossless [OF rb r, of tx] show ?thesis by blast
qed

end
