(* ===== verification/State_Engine.thy ===== *)
theory State_Engine
  imports HED_Prelude
begin

text \<open>
  The storage contract of \<^verbatim>\<open>pkg/plugin/state.go\<close> and its implementation
  \<^verbatim>\<open>plugins/memory\<close>. A Go interface value is a record of its methods over a state
  \<open>'db\<close>; a method that may write returns the error, if any, and the state afterwards. What a
  client may rely on is the locale \<open>state_engine\<close>, which the in-memory engine interprets.
\<close>

subsection \<open>The interface\<close>

record 'db StateEngine =
  se_Name :: string
  se_Init :: "(string, string) gomap \<Rightarrow> 'db \<Rightarrow> string option \<times> 'db"
  se_GetState :: "string \<Rightarrow> string \<Rightarrow> 'db \<Rightarrow> string + bytes option"
  se_PutState :: "string \<Rightarrow> string \<Rightarrow> bytes option \<Rightarrow> 'db \<Rightarrow> string option \<times> 'db"
  se_BatchWrite :: "string \<Rightarrow> (string, bytes option) gomap \<Rightarrow> 'db \<Rightarrow> string option \<times> 'db"
  se_Close :: "'db \<Rightarrow> string option \<times> 'db"

subsection \<open>The registry of engines\<close>

record 'db Registry =
  reg_plugins :: "(string, 'db StateEngine) gomap"

definition NewRegistry :: "'db Registry" where
  "NewRegistry = \<lparr>reg_plugins = []\<rparr>"

definition Register :: "'db StateEngine \<Rightarrow> 'db Registry \<Rightarrow> 'db Registry" where
  "Register engine r = r\<lparr>reg_plugins := AList.update (se_Name engine) engine (reg_plugins r)\<rparr>"

definition Registry_Get :: "string \<Rightarrow> 'db Registry \<Rightarrow> string + 'db StateEngine" where
  "Registry_Get name r =
     (case map_of (reg_plugins r) name of
        None \<Rightarrow> Inl (''plugin '' @ name @ '' not found'')
      | Some engine \<Rightarrow> Inr engine)"

text \<open>The order of the names is that of the runtime's iteration over the map.\<close>

definition Registry_List :: "'db Registry \<Rightarrow> string list" where
  "Registry_List r = map fst (reg_plugins r)"

subsection \<open>The in-memory engine\<close>

text \<open>
  A \<^verbatim>\<open>[]byte\<close> that may be nil is a \<open>bytes option\<close>; reading an absent key of the map
  gives nil.
\<close>

record MemoryEngine =
  me_store :: "(string, bytes option) gomap"

definition mem_key :: "string \<Rightarrow> string \<Rightarrow> string" where
  "mem_key channelID key = channelID @ '':'' @ key"

definition New_Memory :: MemoryEngine where
  "New_Memory = \<lparr>me_store = []\<rparr>"

definition mem_Name :: string where
  "mem_Name = ''In-Memory RAM (KeyDB)''"

definition mem_Init :: "(string, string) gomap \<Rightarrow> MemoryEngine \<Rightarrow> string option \<times> MemoryEngine" where
  "mem_Init cfg m = (None, m)"

definition mem_GetState :: "string \<Rightarrow> string \<Rightarrow> MemoryEngine \<Rightarrow> string + bytes option" where
  "mem_GetState channelID key m =
     Inr (case map_of (me_store m) (mem_key channelID key) of None \<Rightarrow> None | Some v \<Rightarrow> v)"

definition mem_PutState ::
  "string \<Rightarrow> string \<Rightarrow> bytes option \<Rightarrow> MemoryEngine \<Rightarrow> string option \<times> MemoryEngine" where
  "mem_PutState channelID key value m =
     (None, m\<lparr>me_store := AList.update (mem_key channelID key) value (me_store m)\<rparr>)"

fun mem_write_all ::
  "string \<Rightarrow> (string, bytes option) gomap \<Rightarrow> (string, bytes option) gomap \<Rightarrow> (string, bytes option) gomap" where
  "mem_write_all channelID [] st = st"
| "mem_write_all channelID ((k, v) # ups) st =
     mem_write_all channelID ups (AList.update (mem_key channelID k) v st)"

definition mem_BatchWrite ::
  "string \<Rightarrow> (string, bytes option) gomap \<Rightarrow> MemoryEngine \<Rightarrow> string option \<times> MemoryEngine" where
  "mem_BatchWrite channelID updates m =
     (None, m\<lparr>me_store := mem_write_all channelID updates (me_store m)\<rparr>)"

definition mem_Close :: "MemoryEngine \<Rightarrow> string option \<times> MemoryEngine" where
  "mem_Close m = (None, m)"

definition Memory :: "MemoryEngine StateEngine" where
  "Memory = \<lparr>se_Name = mem_Name, se_Init = mem_Init, se_GetState = mem_GetState,
     se_PutState = mem_PutState, se_BatchWrite = mem_BatchWrite, se_Close = mem_Close\<rparr>"

subsection \<open>The contract of an engine\<close>

text \<open>
  The state seen through the engine is a map from addresses to values; \<open>addr\<close> says which cell
  a channel and a key name. A write that reports success sets its cell and no other.
\<close>

fun write_cells :: "('k \<Rightarrow> 'a) \<Rightarrow> ('k \<times> 'v) list \<Rightarrow> ('a \<Rightarrow> 'v) \<Rightarrow> 'a \<Rightarrow> 'v" where
  "write_cells a [] f = f"
| "write_cells a ((k, v) # ups) f = write_cells a ups (f(a k := v))"

lemma write_cells_other: "c \<notin> a ` gm_keys ups \<Longrightarrow> write_cells a ups f c = f c"
  by (induction ups arbitrary: f) auto

text \<open>The writes of one map do not depend on the order in which the runtime visits it.\<close>

lemma write_cells_at:
  assumes "inj a" and "gm_ok ups"
  shows "write_cells a ups f (a k) = (case map_of ups k of None \<Rightarrow> f (a k) | Some v \<Rightarrow> v)"
  using assms(2)
proof (induction ups arbitrary: f)
  case Nil
  then show ?case by simp
next
  case (Cons kv ups)
  obtain k' v' where kv: "kv = (k', v')" by force
  from Cons.prems kv have k': "k' \<notin> gm_keys ups" "gm_ok ups" by (auto simp: gm_ok_def)
  have "a k' \<notin> a ` gm_keys ups" using assms(1) k'(1) by (auto dest: injD)
  moreover have "map_of ups k' = None" using k'(1) by (simp add: map_of_eq_None_iff)
  moreover have "a k = a k' \<longleftrightarrow> k = k'" using assms(1) by (auto dest: injD)
  ultimately show ?case
    using Cons.IH [OF k'(2)] by (cases "k = k'") (auto simp: kv write_cells_other split: option.splits)
qed

lemma write_cells_order:
  assumes "inj a" and "gm_ok ups" and "gm_ok ups'" and "map_of ups = map_of ups'"
  shows "write_cells a ups f = write_cells a ups' f"
proof
  fix c
  have keys: "gm_keys ups = gm_keys ups'" using assms(4) by (metis dom_map_of_conv_image_fst)
  show "write_cells a ups f c = write_cells a ups' f c"
  proof (cases "c \<in> range a")
    case True
    then show ?thesis using assms by (auto simp: write_cells_at)
  next
    case False
    then show ?thesis using keys by (subst (1 2) write_cells_other) auto
  qed
qed

locale state_engine =
  fixes E :: "'db StateEngine"
    and addr :: "string \<Rightarrow> string \<Rightarrow> 'a"
    and view :: "'db \<Rightarrow> 'a \<Rightarrow> bytes option"
  assumes get_ok: "se_GetState E ch k db = Inr v \<Longrightarrow> v = view db (addr ch k)"
    and put_ok: "se_PutState E ch k v db = (None, db') \<Longrightarrow> view db' = (view db)(addr ch k := v)"
    and batch_ok: "se_BatchWrite E ch ups db = (None, db') \<Longrightarrow> view db' = write_cells (addr ch) ups (view db)"
    and addr_inj: "inj (addr ch)"
begin

lemma put_get:
  "\<lbrakk>se_PutState E ch k v db = (None, db'); se_GetState E ch j db' = Inr w\<rbrakk>
    \<Longrightarrow> w = (if j = k then v else view db (addr ch j))"
  using put_ok get_ok addr_inj by (fastforce dest: injD)

text \<open>A batch is the same as its puts, one by one, in any order of the map.\<close>

lemma batch_get:
  "\<lbrakk>gm_ok ups; se_BatchWrite E ch ups db = (None, db'); se_GetState E ch j db' = Inr w\<rbrakk>
    \<Longrightarrow> w = (case map_of ups j of None \<Rightarrow> view db (addr ch j) | Some v \<Rightarrow> v)"
  using get_ok [of ch j db' w] batch_ok [of ch ups db db'] addr_inj [of ch]
  by (simp add: write_cells_at)

lemma batch_order:
  "\<lbrakk>gm_ok ups; gm_ok ups'; map_of ups = map_of ups';
    se_BatchWrite E ch ups db = (None, db1); se_BatchWrite E ch ups' db = (None, db2)\<rbrakk>
    \<Longrightarrow> view db1 = view db2"
  using batch_ok addr_inj by (metis write_cells_order)

end

definition mem_view :: "MemoryEngine \<Rightarrow> string \<Rightarrow> bytes option" where
  "mem_view m a = (case map_of (me_store m) a of None \<Rightarrow> None | Some v \<Rightarrow> v)"

lemma mem_view_update:
  "mem_view (m\<lparr>me_store := AList.update a v st\<rparr>) = (mem_view (m\<lparr>me_store := st\<rparr>))(a := v)"
  by (auto simp: mem_view_def gomap_simps)

lemma mem_view_write_all:
  "mem_view (m\<lparr>me_store := mem_write_all ch ups st\<rparr>)
    = write_cells (mem_key ch) ups (mem_view (m\<lparr>me_store := st\<rparr>))"
  by (induction ch ups st rule: mem_write_all.induct) (simp_all del: fun_upd_apply add: mem_view_update)

lemma mem_key_inj: "inj (mem_key ch)"
  by (auto simp: inj_def mem_key_def)

interpretation mem: state_engine Memory mem_key mem_view
proof
  show "se_GetState Memory ch k db = Inr v \<Longrightarrow> v = mem_view db (mem_key ch k)" for ch k db v
    by (simp add: Memory_def mem_GetState_def mem_view_def)
  show "se_PutState Memory ch k v db = (None, db')
      \<Longrightarrow> mem_view db' = (mem_view db)(mem_key ch k := v)" for ch k v db db'
    using mem_view_update [where m = db and a = "mem_key ch k" and v = v and st = "me_store db"]
    by (auto simp: Memory_def mem_PutState_def)
  show "se_BatchWrite Memory ch ups db = (None, db')
      \<Longrightarrow> mem_view db' = write_cells (mem_key ch) ups (mem_view db)" for ch ups db db'
    using mem_view_write_all [where m = db and ch = ch and ups = ups and st = "me_store db"]
    by (auto simp: Memory_def mem_BatchWrite_def)
  show "inj (mem_key ch)" for ch by (rule mem_key_inj)
qed

lemma mem_never_fails:
  "fst (se_PutState Memory ch k v db) = None" "fst (se_BatchWrite Memory ch ups db) = None"
  by (simp_all add: Memory_def mem_PutState_def mem_BatchWrite_def)

lemma Register_Get:
  "Registry_Get n (Register e r) = (if n = se_Name e then Inr e else Registry_Get n r)"
  by (simp add: Registry_Get_def Register_def gomap_simps)

lemma Register_List:
  "set (Registry_List (Register e r)) = insert (se_Name e) (set (Registry_List r))"
  by (simp add: Registry_List_def Register_def gomap_simps)

subsection \<open>Properties\<close>

text \<open>
  The in-memory engine stores what it is given: after a batch of updates of one channel, whatever
  the order in which the runtime ranges over the map, a read of a key of that channel returns the
  value of the batch for it, or what it returned before when the batch does not name it.
\<close>

theorem memory_batch_reads_back:
  assumes "gm_ok ups" and "se_BatchWrite Memory ch ups m = (e, m')"
  shows "e = None
    \<and> se_GetState Memory ch k m' = (case map_of ups k of Some v \<Rightarrow> Inr v | None \<Rightarrow> se_GetState Memory ch k m)"
proof -
  have e: "e = None" using assms(2) mem_never_fails(2) [of ch ups m] by simp
  obtain w where w: "se_GetState Memory ch k m' = Inr w" by (simp add: Memory_def mem_GetState_def)
  obtain w0 where w0: "se_GetState Memory ch k m = Inr w0" by (simp add: Memory_def mem_GetState_def)
  from mem.batch_get [OF assms(1) assms(2) [unfolded e] w] mem.get_ok [OF w0] e w w0 show ?thesis
    by (auto split: option.splits)
qed

theorem memory_batch_reads_back_witness:
  "\<exists>m'. gm_ok [(''a'', Some ''1''), (''b'', None)]
     \<and> se_BatchWrite Memory ''ch'' [(''a'', Some ''1''), (''b'', None)] New_Memory = (None, m')
     \<and> se_GetState Memory ''ch'' ''a'' m' = Inr (Some ''1'')"
proof -
  have ok: "gm_ok [(''a'', Some ''1''), (''b'', None :: bytes option)]" by (simp add: gm_ok_def)
  obtain e m' where b: "se_BatchWrite Memory ''ch'' [(''a'', Some ''1''), (''b'', None)] New_Memory = (e, m')"
    by force
  from memory_batch_reads_back [OF ok b, of "''a''"] ok b show ?thesis by auto
qed

end
