(* ===== verification/Sha256.thy ===== *)
theory Sha256
  imports HED_Prelude
begin

text \<open>
  The parts of \<^verbatim>\<open>crypto/sha256\<close> and \<^verbatim>\<open>encoding/hex\<close> the program calls: the SHA-256
  digest of a byte string (FIPS 180-4) and lower-case hexadecimal printing.
\<close>

unbundle bit_operations_syntax

text \<open>The initial hash value and the round constants, in decimal.\<close>

definition sha_H0 :: "u32 list" where
  "sha_H0 =
    [1779033703, 3144134277, 1013904242, 2773480762, 1359893119, 2600822924,
     528734635, 1541459225]"

definition sha_K :: "u32 list" where
  "sha_K =
    [1116352408, 1899447441, 3049323471, 3921009573, 961987163, 1508970993,
     2453635748, 2870763221, 3624381080, 310598401, 607225278, 1426881987,
     1925078388, 2162078206, 2614888103, 3248222580, 3835390401, 4022224774,
     264347078, 604807628, 770255983, 1249150122, 1555081692, 1996064986,
     2554220882, 2821834349, 2952996808, 3210313671, 3336571891, 3584528711,
     113926993, 338241895, 666307205, 773529912, 1294757372, 1396182291,
     1695183700, 1986661051, 2177026350, 2456956037, 2730485921, 2820302411,
     3259730800, 3345764771, 3516065817, 3600352804, 4094571909, 275423344,
     430227734, 506948616, 659060556, 883997877, 958139571, 1322822218,
     1537002063, 1747873779, 1955562222, 2024104815, 2227730452, 2361852424,
     2428436474, 2756734187, 3204031479, 3329325298]"

text \<open>Big-endian words and bytes.\<close>

definition be_word :: "bytes \<Rightarrow> u32" where
  "be_word bs = foldl (\<lambda>w b. push_bit 8 w OR of_char b) 0 bs"

definition be_byte :: "nat \<Rightarrow> 'a::len word \<Rightarrow> char" where
  "be_byte i w = char_of (uint (drop_bit (8 * i) w) mod 256)"

definition word_bytes :: "u32 \<Rightarrow> bytes" where
  "word_bytes w = [be_byte 3 w, be_byte 2 w, be_byte 1 w, be_byte 0 w]"

definition dword_bytes :: "u64 \<Rightarrow> bytes" where
  "dword_bytes w = map (\<lambda>i. be_byte i w) [7, 6, 5, 4, 3, 2, 1, 0]"

fun group :: "nat \<Rightarrow> 'a list \<Rightarrow> 'a list list" where
  "group n [] = []"
| "group n (x # xs) = (if n = 0 then [x # xs] else take n (x # xs) # group n (drop n (x # xs)))"

text \<open>The message, the bit 1, zeros up to 56 bytes modulo 64, and the length in bits.\<close>

definition sha_pad :: "bytes \<Rightarrow> bytes" where
  "sha_pad m = m @ [char_of (0x80 :: nat)] @ replicate ((119 - length m mod 64) mod 64) (char_of (0 :: nat))
     @ dword_bytes (of_nat (8 * length m))"

fun sha_extend :: "nat \<Rightarrow> u32 list \<Rightarrow> u32 list" where
  "sha_extend 0 w = w"
| "sha_extend (Suc k) w =
     (let t = length w; w15 = w ! (t - 15); w2 = w ! (t - 2);
          s0 = word_rotr 7 w15 XOR word_rotr 18 w15 XOR drop_bit 3 w15;
          s1 = word_rotr 17 w2 XOR word_rotr 19 w2 XOR drop_bit 10 w2
      in sha_extend k (w @ [w ! (t - 16) + s0 + w ! (t - 7) + s1]))"

fun sha_round :: "u32 list \<Rightarrow> u32 \<times> u32 \<Rightarrow> u32 list" where
  "sha_round [a, b, c, d, e, f, g, h] (k, w) =
     (let s1 = word_rotr 6 e XOR word_rotr 11 e XOR word_rotr 25 e;
          ch = (e AND f) XOR (NOT e AND g);
          t1 = h + s1 + ch + k + w;
          s0 = word_rotr 2 a XOR word_rotr 13 a XOR word_rotr 22 a;
          maj = (a AND b) XOR (a AND c) XOR (b AND c);
          t2 = s0 + maj
      in [t1 + t2, a, b, c, d + t1, e, f, g])"
| "sha_round s _ = s"

definition sha_block :: "u32 list \<Rightarrow> bytes \<Rightarrow> u32 list" where
  "sha_block hs block =
     map2 (+) hs (foldl sha_round hs (zip sha_K (sha_extend 48 (map be_word (group 4 block)))))"

definition sha256_Sum :: "bytes \<Rightarrow> bytes" where
  "sha256_Sum m = concat (map word_bytes (foldl sha_block sha_H0 (group 64 (sha_pad m))))"

definition hex_digit :: "nat \<Rightarrow> char" where
  "hex_digit d = (if d < 10 then char_of (48 + d) else char_of (87 + d))"

definition hex_encode :: "bytes \<Rightarrow> string" where
  "hex_encode bs = concat (map (\<lambda>b. [hex_digit (of_char b div 16), hex_digit (of_char b mod 16)]) bs)"

text \<open>The digest has 32 bytes whatever the message, and its hexadecimal form 64 characters.\<close>

lemma sha_round_length: "length s = 8 \<Longrightarrow> length (sha_round s kw) = 8"
  by (induction s kw rule: sha_round.induct) (simp_all add: Let_def)

lemma sha_rounds_length: "length s = 8 \<Longrightarrow> length (foldl sha_round s kws) = 8"
  by (induction kws arbitrary: s) (simp_all add: sha_round_length)

lemma sha_blocks_length: "length hs = 8 \<Longrightarrow> length (foldl sha_block hs bs) = 8"
  by (induction bs arbitrary: hs) (simp_all add: sha_block_def sha_rounds_length)

lemma word_bytes_concat_length: "length (concat (map word_bytes ws)) = 4 * length ws"
  by (induction ws) (simp_all add: word_bytes_def)

lemma sha256_length: "length (sha256_Sum m) = 32"
proof -
  have "length (foldl sha_block sha_H0 bs) = 8" for bs
    by (rule sha_blocks_length) (simp add: sha_H0_def)
  then show ?thesis by (simp add: sha256_Sum_def word_bytes_concat_length)
qed

lemma hex_encode_length: "length (hex_encode bs) = 2 * length bs"
  by (induction bs) (simp_all add: hex_encode_def)

lemma hex_digit_inj: "a < 16 \<Longrightarrow> b < 16 \<Longrightarrow> hex_digit a = hex_digit b \<Longrightarrow> a = b"
  by (auto simp: hex_digit_def split: if_splits dest: arg_cong [of _ _ "of_char :: char \<Rightarrow> nat"])

lemma hex_encode_inj: "hex_encode a = hex_encode b \<longleftrightarrow> a = b"
proof (induction a arbitrary: b)
  case Nil
  then show ?case by (cases b) (simp_all add: hex_encode_def)
next
  case (Cons x xs)
  show ?case
  proof (cases b)
    case Nil
    then show ?thesis by (simp add: hex_encode_def)
  next
    case (Cons y ys)
    have lt: "(of_char c :: nat) div 16 < 16" "(of_char c :: nat) mod 16 < 16" for c
      using of_char_of [of "of_char c :: nat"] by (simp_all add: less_mult_imp_div_less)
    have "x = y" if "hex_digit (of_char x div 16) = hex_digit (of_char y div 16)"
      "hex_digit (of_char x mod 16) = hex_digit (of_char y mod 16)"
      using that lt hex_digit_inj by (metis div_mult_mod_eq of_char_eq_iff)
    then show ?thesis
      using Cons.IH [of ys] by (auto simp: Cons hex_encode_def)
  qed
qed

end
