(* ===== verification/Gateway_Router.thy ===== *)
theory Gateway_Router
  imports State_Engine HED_Hash Sha256
begin

text \<open>
  The cross-shard transfer of \<^verbatim>\<open>pkg/router/router.go\<close>: routing of accounts to shards, the lock
  phase that issues a proof and the claim phase that consumes it. The clock readings are arguments.
  A panic (the division by zero shards) is \<open>None\<close>. The claim phase reads, writes and deletes
  without a lock between, so it is given twice: whole, and as the three steps another claim may
  come between.
\<close>

record ProofOfLock =
  ProofID :: string
  FromAccount :: string
  FromShard :: string
  ToShard :: string
  Amount :: i64
  Timestamp :: time

record 'db GatewayRouter =
  totalShards :: int
  gr_engine :: "'db StateEngine"
  gr_db :: 'db
  proofStore :: "(string, ProofOfLock) gomap"

definition NewGatewayRouter :: "int \<Rightarrow> 'db StateEngine \<Rightarrow> 'db \<Rightarrow> 'db GatewayRouter" where
  "NewGatewayRouter shards e db =
     \<lparr>totalShards = shards, gr_engine = e, gr_db = db, proofStore = []\<rparr>"

definition RouteToShard :: "'db GatewayRouter \<Rightarrow> string \<Rightarrow> string option" where
  "RouteToShard r accountID =
     (let n = word_of_int (totalShards r) :: u32
      in if n = 0 then None
         else Some (''shard_channel_'' @ show_pad 2 (unat (fnv32a accountID mod n))))"

subsection \<open>Phase 1\<close>

text \<open>The arguments \<open>t1\<close>, \<open>t2\<close> and \<open>t3\<close> are the three readings of the clock.\<close>

definition lock_key :: "string \<Rightarrow> time \<Rightarrow> string" where
  "lock_key fromAccount t = ''lock_'' @ fromAccount @ ''_'' @ show_int t"

definition proof_id :: "string \<Rightarrow> string \<Rightarrow> string \<Rightarrow> i64 \<Rightarrow> time \<Rightarrow> string" where
  "proof_id fromAccount fromShard toShard amount t =
     hex_encode (take 16 (sha256_Sum (fromAccount @ '':'' @ fromShard @ '':'' @ toShard @ '':''
       @ show_int (sint amount) @ '':'' @ show_int t)))"

definition Phase1_LockFunds ::
  "string \<Rightarrow> i64 \<Rightarrow> string \<Rightarrow> time \<times> time \<times> time \<Rightarrow> 'db GatewayRouter
   \<Rightarrow> ((string + ProofOfLock) \<times> 'db GatewayRouter) option" where
  "Phase1_LockFunds fromAccount amount toShard ts r =
     (case ts of (t1, t2, t3) \<Rightarrow>
      (case RouteToShard r fromAccount of
        None \<Rightarrow> None
      | Some fromShard \<Rightarrow>
          (case se_PutState (gr_engine r) fromShard (lock_key fromAccount t1)
                  (Some (''-'' @ show_int (sint amount))) (gr_db r) of
             (Some e, db) \<Rightarrow> Some (Inl (''phase 1 lock failed: '' @ e), r\<lparr>gr_db := db\<rparr>)
           | (None, db) \<Rightarrow>
               (let pid = proof_id fromAccount fromShard toShard amount t2;
                    pr = \<lparr>ProofID = pid, FromAccount = fromAccount, FromShard = fromShard,
                          ToShard = toShard, Amount = amount, Timestamp = t3\<rparr>
                in Some (Inr pr, r\<lparr>gr_db := db, proofStore := AList.update pid pr (proofStore r)\<rparr>)))))"

subsection \<open>Phase 2\<close>

definition mint_key :: "string \<Rightarrow> string \<Rightarrow> string" where
  "mint_key toAccount proofID = ''mint_'' @ toAccount @ ''_'' @ proofID"

text \<open>The checks up to the write: the proof that a claim goes on with, or its error.\<close>

definition claim_load :: "string \<Rightarrow> string \<Rightarrow> 'db GatewayRouter \<Rightarrow> (string + ProofOfLock) option" where
  "claim_load proofID toAccount r =
     (case map_of (proofStore r) proofID of
        None \<Rightarrow> Some (Inl (''invalid or non-existent Proof-of-Lock: '' @ proofID))
      | Some pr \<Rightarrow>
          (case RouteToShard r toAccount of
             None \<Rightarrow> None
           | Some expectedDestShard \<Rightarrow>
               if ToShard pr \<noteq> expectedDestShard
               then Some (Inl (''proof destination mismatch: expected '' @ expectedDestShard
                               @ '', got '' @ ToShard pr))
               else Some (Inr pr)))"

definition claim_mint ::
  "string \<Rightarrow> string \<Rightarrow> ProofOfLock \<Rightarrow> 'db GatewayRouter \<Rightarrow> string option \<times> 'db GatewayRouter" where
  "claim_mint proofID toAccount pr r =
     (case se_PutState (gr_engine r) (ToShard pr) (mint_key toAccount proofID)
             (Some (''+'' @ show_int (sint (Amount pr)))) (gr_db r) of
        (Some e, db) \<Rightarrow> (Some (''phase 2 mint failed: '' @ e), r\<lparr>gr_db := db\<rparr>)
      | (None, db) \<Rightarrow> (None, r\<lparr>gr_db := db\<rparr>))"

definition claim_delete :: "string \<Rightarrow> 'db GatewayRouter \<Rightarrow> 'db GatewayRouter" where
  "claim_delete proofID r = r\<lparr>proofStore := AList.delete proofID (proofStore r)\<rparr>"

definition Phase2_ClaimFunds ::
  "string \<Rightarrow> string \<Rightarrow> 'db GatewayRouter \<Rightarrow> (string option \<times> 'db GatewayRouter) option" where
  "Phase2_ClaimFunds proofID toAccount r =
     (case claim_load proofID toAccount r of
        None \<Rightarrow> None
      | Some (Inl e) \<Rightarrow> Some (Some e, r)
      | Some (Inr pr) \<Rightarrow>
          (case claim_mint proofID toAccount pr r of
             (Some e, r') \<Rightarrow> Some (Some e, r')
           | (None, r') \<Rightarrow> Some (None, claim_delete proofID r')))"

subsection \<open>Claims step by step\<close>

text \<open>
  The synchronisation points of one claim: the load from the concurrent map, the write to the
  engine and the delete. Between them the steps of other goroutines run.
\<close>

datatype claim_pc = CLoad | CMint ProofOfLock | CDelete | CDone "string option" | CPanic

definition claim_step ::
  "string \<Rightarrow> string \<Rightarrow> claim_pc \<times> 'db GatewayRouter \<Rightarrow> claim_pc \<times> 'db GatewayRouter" where
  "claim_step proofID toAccount s =
     (case s of (pc, r) \<Rightarrow>
      (case pc of
         CLoad \<Rightarrow> (case claim_load proofID toAccount r of
                     None \<Rightarrow> (CPanic, r)
                   | Some (Inl e) \<Rightarrow> (CDone (Some e), r)
                   | Some (Inr pr) \<Rightarrow> (CMint pr, r))
       | CMint pr \<Rightarrow> (case claim_mint proofID toAccount pr r of
                       (Some e, r') \<Rightarrow> (CDone (Some e), r')
                     | (None, r') \<Rightarrow> (CDelete, r'))
       | CDelete \<Rightarrow> (CDone None, claim_delete proofID r)
       | CDone e \<Rightarrow> (CDone e, r)
       | CPanic \<Rightarrow> (CPanic, r)))"

text \<open>Two claims of one proof under a schedule: \<open>True\<close> lets the first one step.\<close>

fun two_claims ::
  "string \<Rightarrow> string \<Rightarrow> string \<Rightarrow> bool list \<Rightarrow> claim_pc \<times> claim_pc \<times> 'db GatewayRouter
   \<Rightarrow> claim_pc \<times> claim_pc \<times> 'db GatewayRouter" where
  "two_claims p a b [] s = s"
| "two_claims p a b (True # sch) (c1, c2, r) =
     (case claim_step p a (c1, r) of (c1', r') \<Rightarrow> two_claims p a b sch (c1', c2, r'))"
| "two_claims p a b (False # sch) (c1, c2, r) =
     (case claim_step p b (c2, r) of (c2', r') \<Rightarrow> two_claims p a b sch (c1, c2', r'))"

lemma claim_alone_refines:
  "Phase2_ClaimFunds p a r = (case (claim_step p a ^^ 3) (CLoad, r) of
      (CDone e, r') \<Rightarrow> Some (e, r') | _ \<Rightarrow> None)"
  by (auto simp: Phase2_ClaimFunds_def claim_step_def numeral_3_eq_3 split: option.splits sum.splits prod.splits)

subsection \<open>Runs of transfers\<close>

datatype gw_op = Lock string i64 string "time \<times> time \<times> time" | Claim string string

datatype gw_event = Locked ProofOfLock | Minted ProofOfLock string

text \<open>The events of a run: the proofs issued and the proofs claimed, a panic ends it.\<close>

fun gw_run :: "gw_op list \<Rightarrow> 'db GatewayRouter \<Rightarrow> gw_event list \<times> 'db GatewayRouter" where
  "gw_run [] r = ([], r)"
| "gw_run (Lock a n s ts # ops) r =
     (case Phase1_LockFunds a n s ts r of
        None \<Rightarrow> ([], r)
      | Some (Inl e, r') \<Rightarrow> gw_run ops r'
      | Some (Inr pr, r') \<Rightarrow> (case gw_run ops r' of (es, r'') \<Rightarrow> (Locked pr # es, r'')))"
| "gw_run (Claim p a # ops) r =
     (case Phase2_ClaimFunds p a r of
        None \<Rightarrow> ([], r)
      | Some (Some e, r') \<Rightarrow> gw_run ops r'
      | Some (None, r') \<Rightarrow>
          (case gw_run ops r' of (es, r'') \<Rightarrow> (Minted (the (map_of (proofStore r) p)) a # es, r'')))"

fun locked_proofs :: "gw_event list \<Rightarrow> ProofOfLock list" where
  "locked_proofs [] = []"
| "locked_proofs (Locked pr # es) = pr # locked_proofs es"
| "locked_proofs (Minted pr a # es) = locked_proofs es"

fun minted_proofs :: "gw_event list \<Rightarrow> ProofOfLock list" where
  "minted_proofs [] = []"
| "minted_proofs (Locked pr # es) = minted_proofs es"
| "minted_proofs (Minted pr a # es) = pr # minted_proofs es"

definition held_proofs :: "'db GatewayRouter \<Rightarrow> ProofOfLock multiset" where
  "held_proofs r = image_mset snd (mset (proofStore r))"

subsection \<open>Proofs are consumed as they are claimed\<close>

lemma gm_update_vals: "image_mset snd (mset (AList.update k v m)) \<subseteq># add_mset v (image_mset snd (mset m))"
proof (induction m)
  case Nil
  then show ?case by simp
next
  case (Cons kv m)
  then show ?case by (cases kv) (auto simp: add_mset_commute [of v])
qed

lemma gm_delete_vals_sub: "image_mset snd (mset (AList.delete k m)) \<subseteq># image_mset snd (mset m)"
  by (simp add: AList.delete_eq image_mset_subseteq_mono)

lemma gm_delete_vals:
  "map_of m k = Some v \<Longrightarrow>
     add_mset v (image_mset snd (mset (AList.delete k m))) \<subseteq># image_mset snd (mset m)"
proof (induction m)
  case Nil
  then show ?case by simp
next
  case (Cons kv m)
  then show ?case
    using gm_delete_vals_sub [of k m] by (cases kv) (auto simp: add_mset_commute [of v])
qed

lemma Phase1_held:
  "Phase1_LockFunds a n s ts r = Some (res, r') \<Longrightarrow>
     (case res of Inl e \<Rightarrow> held_proofs r' = held_proofs r
      | Inr pr \<Rightarrow> held_proofs r' \<subseteq># add_mset pr (held_proofs r))"
  by (auto simp: Phase1_LockFunds_def Let_def held_proofs_def gm_update_vals
      split: prod.splits option.splits)

lemma Phase2_held:
  "Phase2_ClaimFunds p a r = Some (res, r') \<Longrightarrow>
     (case res of Some e \<Rightarrow> held_proofs r' = held_proofs r
      | None \<Rightarrow> \<exists>pr. map_of (proofStore r) p = Some pr \<and> RouteToShard r a = Some (ToShard pr)
          \<and> add_mset pr (held_proofs r') \<subseteq># held_proofs r)"
  by (auto simp: Phase2_ClaimFunds_def claim_load_def claim_mint_def claim_delete_def held_proofs_def
      gm_delete_vals split: prod.splits option.splits if_splits sum.splits)

lemma routing_frame [frame_simps]:
  "Phase1_LockFunds a n s ts r = Some (res, r') \<Longrightarrow> totalShards r' = totalShards r"
  "Phase2_ClaimFunds p a r = Some (res2, r') \<Longrightarrow> totalShards r' = totalShards r"
  by (auto simp: Phase1_LockFunds_def Phase2_ClaimFunds_def claim_mint_def claim_delete_def Let_def
      split: prod.splits option.splits sum.splits)

lemma gw_run_Lock:
  assumes "gw_run (Lock a n s ts # ops) r = (es, r')"
  obtains (panic) "es = []" "r' = r"
  | (failed) e r1 where "Phase1_LockFunds a n s ts r = Some (Inl e, r1)" "gw_run ops r1 = (es, r')"
  | (ok) pr r1 es1 where "Phase1_LockFunds a n s ts r = Some (Inr pr, r1)" "gw_run ops r1 = (es1, r')"
      "es = Locked pr # es1"
  using assms by (auto split: option.splits prod.splits sum.splits)

lemma gw_run_Claim:
  assumes "gw_run (Claim p a # ops) r = (es, r')"
  obtains (panic) "es = []" "r' = r"
  | (failed) e r1 where "Phase2_ClaimFunds p a r = Some (Some e, r1)" "gw_run ops r1 = (es, r')"
  | (ok) r1 es1 where "Phase2_ClaimFunds p a r = Some (None, r1)" "gw_run ops r1 = (es1, r')"
      "es = Minted (the (map_of (proofStore r) p)) a # es1"
  using assms by (auto split: option.splits prod.splits)

lemma gw_run_held:
  "gw_run ops r = (es, r') \<Longrightarrow>
     mset (minted_proofs es) + held_proofs r' \<subseteq># mset (locked_proofs es) + held_proofs r"
proof (induction ops arbitrary: r es)
  case Nil
  then show ?case by simp
next
  case (Cons op ops)
  show ?case
  proof (cases op)
    case (Lock a n s ts)
    from Cons.prems [unfolded Lock] show ?thesis
    proof (cases rule: gw_run_Lock)
      case (ok pr r1 es1)
      have "mset (minted_proofs es1) + held_proofs r' \<subseteq># mset (locked_proofs es1) + held_proofs r1"
        using Cons.IH [OF ok(2)] .
      also have "\<dots> \<subseteq># mset (locked_proofs es1) + add_mset pr (held_proofs r)"
        using Phase1_held [OF ok(1)] by simp
      finally show ?thesis by (simp add: ok(3))
    next
      case (failed e r1)
      with Cons.IH [OF failed(2)] Phase1_held [OF failed(1)] show ?thesis by simp
    qed simp
  next
    case (Claim p a)
    from Cons.prems [unfolded Claim] show ?thesis
    proof (cases rule: gw_run_Claim)
      case (ok r1 es1)
      obtain pr where pr: "map_of (proofStore r) p = Some pr" "add_mset pr (held_proofs r1) \<subseteq># held_proofs r"
        using Phase2_held [OF ok(1)] by auto
      have "add_mset pr (mset (minted_proofs es1) + held_proofs r')
          \<subseteq># mset (locked_proofs es1) + add_mset pr (held_proofs r1)"
        using Cons.IH [OF ok(2)] by simp
      also have "\<dots> \<subseteq># mset (locked_proofs es1) + held_proofs r" using pr(2) by simp
      finally show ?thesis using pr(1) by (simp add: ok(3))
    next
      case (failed e r1)
      with Cons.IH [OF failed(2)] Phase2_held [OF failed(1)] show ?thesis by simp
    qed simp
  qed
qed

text \<open>A claim in a run goes to an account of the shard its proof names.\<close>

lemma gw_run_routed:
  "gw_run ops r = (es, r') \<Longrightarrow> Minted pr a \<in> set es \<Longrightarrow> RouteToShard r a = Some (ToShard pr)"
proof (induction ops arbitrary: r es)
  case Nil
  then show ?case by simp
next
  case (Cons op ops)
  have same: "totalShards r1 = totalShards r \<Longrightarrow> RouteToShard r1 a = RouteToShard r a" for r1
    by (simp add: RouteToShard_def)
  show ?case
  proof (cases op)
    case (Lock a' n s ts)
    from Cons.prems(1) [unfolded Lock] show ?thesis
    proof (cases rule: gw_run_Lock)
      case (ok pr' r1 es1)
      with Cons.IH [OF ok(2)] Cons.prems(2) same [of r1] routing_frame(1) [OF ok(1)] show ?thesis by auto
    next
      case (failed e r1)
      with Cons.IH [OF failed(2)] Cons.prems(2) same [of r1] routing_frame(1) [OF failed(1)]
      show ?thesis by auto
    qed (use Cons.prems in simp)
  next
    case (Claim p a')
    from Cons.prems(1) [unfolded Claim] show ?thesis
    proof (cases rule: gw_run_Claim)
      case (ok r1 es1)
      with Cons.IH [OF ok(2)] Cons.prems(2) same [of r1] routing_frame(2) [OF ok(1)]
        Phase2_held [OF ok(1)] show ?thesis by auto
    next
      case (failed e r1)
      with Cons.IH [OF failed(2)] Cons.prems(2) same [of r1] routing_frame(2) [OF failed(1)]
      show ?thesis by auto
    qed (use Cons.prems in simp)
  qed
qed

subsection \<open>Transfers on an engine that keeps its contract\<close>

context state_engine
begin

lemma claim_mint_view:
  assumes "claim_mint p a pr r = (None, r')" and "gr_engine r = E"
  shows "view (gr_db r') = (view (gr_db r))(addr (ToShard pr) (mint_key a p) := Some (''+'' @ show_int (sint (Amount pr))))
    \<and> gr_engine r' = E \<and> proofStore r' = proofStore r \<and> totalShards r' = totalShards r"
  using assms put_ok by (auto simp: claim_mint_def split: prod.splits option.splits)

text \<open>Two claims of one proof that both load it before either deletes it both mint.\<close>

lemma interleaved_claims_mint_twice:
  assumes "gr_engine r = E" and puts: "\<And>ch k v db. fst (se_PutState E ch k v db) = None"
    and "map_of (proofStore r) p = Some pr"
    and "RouteToShard r a = Some (ToShard pr)" and "RouteToShard r b = Some (ToShard pr)" and "a \<noteq> b"
    and run: "two_claims p a b [True, False, True, True, False, False] (CLoad, CLoad, r) = (c1, c2, r')"
  shows "c1 = CDone None \<and> c2 = CDone None
    \<and> view (gr_db r') (addr (ToShard pr) (mint_key a p)) = Some (''+'' @ show_int (sint (Amount pr)))
    \<and> view (gr_db r') (addr (ToShard pr) (mint_key b p)) = Some (''+'' @ show_int (sint (Amount pr)))"
proof -
  have load: "claim_load p c r = Some (Inr pr)" if "RouteToShard r c = Some (ToShard pr)" for c
    using assms(3) that by (simp add: claim_load_def)
  have mint: "\<exists>r2. claim_mint p c pr r1 = (None, r2)" if "gr_engine r1 = E" for c r1
    using puts [of "ToShard pr" "mint_key c p" "Some (''+'' @ show_int (sint (Amount pr)))" "gr_db r1"] that
    by (auto simp: claim_mint_def split: prod.splits option.splits)
  obtain r1 where r1: "claim_mint p a pr r = (None, r1)" using mint assms(1) by blast
  note v1 = claim_mint_view [OF r1 assms(1)]
  have e1: "gr_engine (claim_delete p r1) = E" "gr_db (claim_delete p r1) = gr_db r1"
    using v1 by (simp_all add: claim_delete_def)
  obtain r2 where r2: "claim_mint p b pr (claim_delete p r1) = (None, r2)" using mint e1 by blast
  note v2 = claim_mint_view [OF r2 e1(1)]
  have ab: "mint_key a p \<noteq> mint_key b p" using assms(6) by (simp add: mint_key_def)
  have fin: "c1 = CDone None" "c2 = CDone None" "r' = claim_delete p r2"
    using run load assms(4,5) r1 r2 by (auto simp: claim_step_def)
  have "view (gr_db r') = (view (gr_db r))(addr (ToShard pr) (mint_key a p) := Some (''+'' @ show_int (sint (Amount pr))),
      addr (ToShard pr) (mint_key b p) := Some (''+'' @ show_int (sint (Amount pr))))"
    using v1 v2 e1 fin by (simp add: claim_delete_def)
  then show ?thesis using fin ab addr_inj [of "ToShard pr"] by (auto dest: injD)
qed

end

subsection \<open>Properties\<close>



text \<open>
  Claims that run at the same time can mint one lock twice: on the in-memory engine, when two
  accounts of the destination shard claim one open proof and both load it before either has deleted
  it, both calls return without an error and both mint records with the full amount are stored.
\<close>

theorem concurrent_claims_mint_twice:
  assumes "gr_engine r = Memory" and "map_of (proofStore r) p = Some pr"
    and "RouteToShard r a = Some (ToShard pr)" and "RouteToShard r b = Some (ToShard pr)" and "a \<noteq> b"
  shows "\<exists>sch r'. two_claims p a b sch (CLoad, CLoad, r) = (CDone None, CDone None, r')
    \<and> mem_view (gr_db r') (mem_key (ToShard pr) (mint_key a p)) = Some (''+'' @ show_int (sint (Amount pr)))
    \<and> mem_view (gr_db r') (mem_key (ToShard pr) (mint_key b p)) = Some (''+'' @ show_int (sint (Amount pr)))"
proof -
  let ?s = "[True, False, True, True, False, False]"
  obtain c1 c2 r' where run: "two_claims p a b ?s (CLoad, CLoad, r) = (c1, c2, r')" by (metis prod_cases3)
  from mem.interleaved_claims_mint_twice [OF assms(1) mem_never_fails(1) assms(2-5) run] run
  show ?thesis by blast
qed

theorem concurrent_claims_mint_twice_witness:
  "\<exists>r pr sch r'. proofStore r = [(''p'', pr)] \<and> Amount pr = 5
    \<and> two_claims ''p'' ''a'' ''b'' sch (CLoad, CLoad, r) = (CDone None, CDone None, r')
    \<and> mem_view (gr_db r') (mem_key (ToShard pr) (mint_key ''a'' ''p'')) = Some (''+'' @ show_int (sint (Amount pr)))
    \<and> mem_view (gr_db r') (mem_key (ToShard pr) (mint_key ''b'' ''p'')) = Some (''+'' @ show_int (sint (Amount pr)))"
proof -
  let ?pr = "\<lparr>ProofID = ''p'', FromAccount = ''c'', FromShard = ''shard_channel_00'',
    ToShard = ''shard_channel_00'', Amount = 5, Timestamp = 1\<rparr>"
  let ?r = "(NewGatewayRouter 1 Memory New_Memory)\<lparr>proofStore := [(''p'', ?pr)]\<rparr>"
  have one: "w mod (1 :: u32) = 0" for w by (simp add: word_arith_nat_mod)
  have zero: "digit_char 0 = CHR ''0''" by code_simp
  have route: "RouteToShard ?r c = Some (ToShard ?pr)" for c
    by (simp add: RouteToShard_def NewGatewayRouter_def one show_pad_def show_nat.simps zero)
  have "gr_engine ?r = Memory" "map_of (proofStore ?r) ''p'' = Some ?pr" "proofStore ?r = [(''p'', ?pr)]"
    "Amount ?pr = 5" "''a'' \<noteq> ''b''"
    by (simp_all add: NewGatewayRouter_def)
  with concurrent_claims_mint_twice [OF this(1,2) route route this(5)] show ?thesis by blast
qed

end
