(* ===== verification/Plugin_Batch.thy ===== *)
theory Plugin_Batch
  imports HED_Prelude
begin

text \<open>
  The database engines of \<^verbatim>\<open>pkg/plugin/keydb.go\<close>, \<^verbatim>\<open>pkg/plugin/yugabyte.go\<close> and
  \<^verbatim>\<open>plugins/yugabyte\<close>. The client libraries are parameters: a record of the calls the
  engines make on a server state \<open>'srv\<close>. The command buffer of a go-redis pipeline is
  modelled from the vendored \<^verbatim>\<open>pipeline.go\<close>, because the retry loop depends on it. Logging,
  sleeping between attempts and timeouts of contexts leave no trace in these models. The contract
  of a server that adds increments is the locale \<open>incr_server\<close>.
\<close>

type_synonym 'k incr = "'k \<times> i64"

subsection \<open>Sending a map of increments in chunks\<close>

text \<open>
  The loop both engines have: skip zero increments, queue the others, send after every
  \<open>n\<close>th. The map is given in the order in which the runtime ranges over it. The result is
  the error that ends the loop, the number queued, the commands not yet sent and the server.
\<close>

fun chunk_loop ::
  "nat \<Rightarrow> ('k incr list \<Rightarrow> 'srv \<Rightarrow> string option \<times> 'srv) \<Rightarrow> (string \<Rightarrow> 'k) \<Rightarrow> (string, i64) gomap
   \<Rightarrow> nat \<Rightarrow> 'k incr list \<Rightarrow> 'srv \<Rightarrow> string option \<times> nat \<times> 'k incr list \<times> 'srv" where
  "chunk_loop n send full [] cnt cmds s = (None, cnt, cmds, s)"
| "chunk_loop n send full ((key, val) # ups) cnt cmds s =
     (if val = 0 then chunk_loop n send full ups cnt cmds s
      else let cmds' = cmds @ [(full key, val)]; cnt' = cnt + 1
           in if cnt' mod n = 0
              then (case send cmds' s of
                      (Some e, s') \<Rightarrow> (Some e, cnt', cmds', s')
                    | (None, s') \<Rightarrow> chunk_loop n send full ups cnt' [] s')
              else chunk_loop n send full ups cnt' cmds' s)"

definition wrap_error :: "string \<Rightarrow> string option \<times> 's \<Rightarrow> string option \<times> 's" where
  "wrap_error msg r = (map_option (\<lambda>e. msg @ '': '' @ e) (fst r), snd r)"

subsection \<open>KeyDB\<close>

datatype redis_reply = RedisNil | RedisVal bytes | RedisErr string

record 'srv RedisClient =
  rc_Ping :: "'srv \<Rightarrow> string option"
  rc_Get :: "string \<Rightarrow> 'srv \<Rightarrow> redis_reply"
  rc_Set :: "string \<Rightarrow> bytes \<Rightarrow> 'srv \<Rightarrow> string option \<times> 'srv"
  rc_exec :: "string incr list \<Rightarrow> 'srv \<Rightarrow> string option \<times> 'srv"
  rc_Close :: "'srv \<Rightarrow> string option"

record RedisOptions =
  ro_Addr :: string
  ro_PoolSize :: int
  ro_MinIdleConns :: int
  ro_ReadTimeout :: duration
  ro_WriteTimeout :: duration

record 'c KeyDBEngine =
  kd_client :: 'c
  kd_addr :: string

definition NewKeyDBEngine :: "(RedisOptions \<Rightarrow> 'c) \<Rightarrow> string \<Rightarrow> int \<Rightarrow> 'c KeyDBEngine" where
  "NewKeyDBEngine newClient addr poolSize =
     \<lparr>kd_client = newClient \<lparr>ro_Addr = addr, ro_PoolSize = poolSize, ro_MinIdleConns = 64,
        ro_ReadTimeout = 3 * Second, ro_WriteTimeout = 3 * Second\<rparr>, kd_addr = addr\<rparr>"

text \<open>The commands queued in a pipeline; \<^verbatim>\<open>Exec\<close> clears them before it sends them.\<close>

record Pipeliner =
  pl_cmds :: "string incr list"

definition Pipeline_new :: Pipeliner where
  "Pipeline_new = \<lparr>pl_cmds = []\<rparr>"

definition pipe_IncrBy :: "string \<Rightarrow> i64 \<Rightarrow> Pipeliner \<Rightarrow> Pipeliner" where
  "pipe_IncrBy key val p = p\<lparr>pl_cmds := pl_cmds p @ [(key, val)]\<rparr>"

definition pipe_Exec :: "'srv RedisClient \<Rightarrow> Pipeliner \<Rightarrow> 'srv \<Rightarrow> string option \<times> Pipeliner \<times> 'srv" where
  "pipe_Exec c p s =
     (if pl_cmds p = [] then (None, p, s)
      else case rc_exec c (pl_cmds p) s of (e, s') \<Rightarrow> (e, p\<lparr>pl_cmds := []\<rparr>, s'))"

fun exec_attempts ::
  "nat \<Rightarrow> 'srv RedisClient \<Rightarrow> Pipeliner \<Rightarrow> 'srv \<Rightarrow> string option \<times> Pipeliner \<times> 'srv" where
  "exec_attempts 0 c p s = (Some ''exceeded max pipeline retry attempts'', p, s)"
| "exec_attempts (Suc k) c p s =
     (case pipe_Exec c p s of
        (None, p', s') \<Rightarrow> (None, p', s')
      | (Some e, p', s') \<Rightarrow> exec_attempts k c p' s')"

definition execWithRetry :: "'srv RedisClient \<Rightarrow> Pipeliner \<Rightarrow> 'srv \<Rightarrow> string option \<times> Pipeliner \<times> 'srv" where
  "execWithRetry c p s = exec_attempts 3 c p s"

text \<open>A chunk: the commands queued with \<^verbatim>\<open>IncrBy\<close> on a new pipeline, executed with retries.\<close>

definition keydb_send :: "'srv RedisClient \<Rightarrow> string incr list \<Rightarrow> 'srv \<Rightarrow> string option \<times> 'srv" where
  "keydb_send c cmds s =
     (case execWithRetry c (fold (\<lambda>(k, v). pipe_IncrBy k v) cmds Pipeline_new) s of
        (e, p, s') \<Rightarrow> (e, s'))"

definition keydb_Name :: string where
  "keydb_Name = ''KeyDB-Production-Incr''"

definition keydb_Init :: "'srv RedisClient \<Rightarrow> 'srv \<Rightarrow> string option" where
  "keydb_Init c s = rc_Ping c s"

definition keydb_GetState :: "'srv RedisClient \<Rightarrow> string \<Rightarrow> string \<Rightarrow> 'srv \<Rightarrow> string + bytes option" where
  "keydb_GetState c channelID key s =
     (case rc_Get c (channelID @ '':'' @ key) s of
        RedisNil \<Rightarrow> Inr None
      | RedisVal v \<Rightarrow> Inr (Some v)
      | RedisErr e \<Rightarrow> Inl e)"

definition keydb_PutState ::
  "'srv RedisClient \<Rightarrow> string \<Rightarrow> string \<Rightarrow> bytes \<Rightarrow> 'srv \<Rightarrow> string option \<times> 'srv" where
  "keydb_PutState c channelID key value s = rc_Set c (channelID @ '':'' @ key) value s"

definition keydb_BatchWrite ::
  "'srv RedisClient \<Rightarrow> string \<Rightarrow> (string, i64) gomap \<Rightarrow> 'srv \<Rightarrow> string option \<times> 'srv" where
  "keydb_BatchWrite c channelID updates s =
     (if updates = [] then (None, s)
      else case chunk_loop 1000 (\<lambda>cs s. wrap_error ''pipeline chunk failed after retries'' (keydb_send c cs s))
                  (\<lambda>key. channelID @ '':'' @ key) updates 0 [] s of
             (Some e, cnt, cmds, s') \<Rightarrow> (Some e, s')
           | (None, cnt, cmds, s') \<Rightarrow>
               if cnt > 0 \<and> cnt mod 1000 \<noteq> 0
               then wrap_error ''final pipeline chunk failed after retries'' (keydb_send c cmds s')
               else (None, s'))"

definition keydb_Close :: "'srv RedisClient option \<Rightarrow> 'srv \<Rightarrow> string option" where
  "keydb_Close client s = (case client of Some c \<Rightarrow> rc_Close c s | None \<Rightarrow> None)"

subsection \<open>YugabyteDB, adding balances\<close>

text \<open>
  The calls on the connection pool: one statement without parameters, and a batch of UPSERT
  statements that add to the balance of a channel and account, sent together; a statement is its
  pair of keys and the increment.
\<close>

record 'srv YBPool =
  yb_Exec :: "string \<Rightarrow> 'srv \<Rightarrow> string option \<times> 'srv"
  yb_SendBatch :: "(string \<times> string) incr list \<Rightarrow> 'srv \<Rightarrow> string option \<times> 'srv"
  yb_PoolClose :: "'srv \<Rightarrow> 'srv"

record PoolConfig =
  pc_ConnString :: string
  pc_MaxConns :: int
  pc_MinConns :: int
  pc_MaxConnIdleTime :: duration
  pc_MaxConnLifetime :: duration

text \<open>Parsing of the connection string and opening of the pool are calls of pgx.\<close>

definition NewYugabyteEngine ::
  "(string \<Rightarrow> string + PoolConfig) \<Rightarrow> (PoolConfig \<Rightarrow> string + 'p) \<Rightarrow> string \<Rightarrow> string + 'p" where
  "NewYugabyteEngine parse newPool connString =
     (case parse connString of
        Inl e \<Rightarrow> Inl (''failed to parse connection config: '' @ e)
      | Inr config \<Rightarrow>
          (case newPool (config\<lparr>pc_MaxConns := 128, pc_MinConns := 32, pc_MaxConnIdleTime := 5 * Minute\<rparr>) of
             Inl e \<Rightarrow> Inl (''failed to create pgx pool: '' @ e)
           | Inr pool \<Rightarrow> Inr pool))"

text \<open>The text of an SQL statement is given with its white space collapsed.\<close>

definition yb_schema :: string where
  "yb_schema = ''CREATE TABLE IF NOT EXISTS channel_states (channel_id VARCHAR(64), account_id VARCHAR(64), balance BIGINT, PRIMARY KEY (channel_id, account_id));''"

definition yb_Name :: string where
  "yb_Name = ''YugabyteDB-Distributed-SQL''"

definition yb_Init :: "'srv YBPool \<Rightarrow> 'srv \<Rightarrow> string option \<times> 'srv" where
  "yb_Init pool s = yb_Exec pool yb_schema s"

fun send_attempts ::
  "nat \<Rightarrow> 'srv YBPool \<Rightarrow> (string \<times> string) incr list \<Rightarrow> 'srv \<Rightarrow> string option \<times> 'srv" where
  "send_attempts 0 pool batch s = (Some ''exceeded max Yugabyte batch retry attempts'', s)"
| "send_attempts (Suc k) pool batch s =
     (case yb_SendBatch pool batch s of
        (None, s') \<Rightarrow> (None, s')
      | (Some e, s') \<Rightarrow> send_attempts k pool batch s')"

definition sendBatchWithRetry ::
  "'srv YBPool \<Rightarrow> (string \<times> string) incr list \<Rightarrow> 'srv \<Rightarrow> string option \<times> 'srv" where
  "sendBatchWithRetry pool batch s = send_attempts 3 pool batch s"

definition yb_BatchWrite ::
  "'srv YBPool \<Rightarrow> string \<Rightarrow> (string, i64) gomap \<Rightarrow> 'srv \<Rightarrow> string option \<times> 'srv" where
  "yb_BatchWrite pool channelID updates s =
     (if updates = [] then (None, s)
      else case chunk_loop 500 (sendBatchWithRetry pool) (\<lambda>key. (channelID, key)) updates 0 [] s of
             (Some e, cnt, batch, s') \<Rightarrow> (Some e, s')
           | (None, cnt, batch, s') \<Rightarrow>
               if cnt > 0 \<and> cnt mod 500 \<noteq> 0 then sendBatchWithRetry pool batch s' else (None, s'))"

definition yb_Close :: "'srv YBPool option \<Rightarrow> 'srv \<Rightarrow> string option \<times> 'srv" where
  "yb_Close pool s = (case pool of Some p \<Rightarrow> (None, yb_PoolClose p s) | None \<Rightarrow> (None, s))"

subsection \<open>YugabyteDB, storing values\<close>

text \<open>
  The engine of \<^verbatim>\<open>plugins/yugabyte\<close> on a table from shard and key to value. Its pool runs the
  schema statement, single UPSERT statements and lookups, and batches whose results are read one by
  one: \<open>ss_SendBatch\<close> gives the error of each statement and the server afterwards.
\<close>

record 'srv SSPool =
  ss_Upsert :: "string \<times> string \<Rightarrow> bytes \<Rightarrow> 'srv \<Rightarrow> string option \<times> 'srv"
  ss_QueryRow :: "string \<times> string \<Rightarrow> 'srv \<Rightarrow> string + bytes option"
  ss_SendBatch :: "((string \<times> string) \<times> bytes) list \<Rightarrow> 'srv \<Rightarrow> string option list \<times> 'srv"

definition ss_schema :: string where
  "ss_schema = ''CREATE TABLE IF NOT EXISTS state_store (shard_id VARCHAR(64), state_key VARCHAR(256), state_val BYTEA, updated_at TIMESTAMP DEFAULT CURRENT_TIMESTAMP, PRIMARY KEY (shard_id, state_key));''"

definition ss_NewYugabyteEngine ::
  "(string \<Rightarrow> string + PoolConfig) \<Rightarrow> (PoolConfig \<Rightarrow> string + 'p) \<Rightarrow> ('p \<Rightarrow> string \<Rightarrow> 'srv \<Rightarrow> string option \<times> 'srv)
   \<Rightarrow> string \<Rightarrow> 'srv \<Rightarrow> (string + 'p) \<times> 'srv" where
  "ss_NewYugabyteEngine parse newPool exec connString s =
     (case parse connString of
        Inl e \<Rightarrow> (Inl (''invalid YugabyteDB config: '' @ e), s)
      | Inr config \<Rightarrow>
          (case newPool (config\<lparr>pc_MaxConns := 128, pc_MinConns := 32, pc_MaxConnIdleTime := 5 * Minute,
                   pc_MaxConnLifetime := 30 * Minute\<rparr>) of
             Inl e \<Rightarrow> (Inl (''unable to connect to YugabyteDB: '' @ e), s)
           | Inr pool \<Rightarrow>
               (case exec pool ss_schema s of
                  (Some e, s') \<Rightarrow> (Inl (''failed to initialize YugabyteDB schema: '' @ e), s')
                | (None, s') \<Rightarrow> (Inr pool, s'))))"

definition ss_Name :: string where
  "ss_Name = ''YugabyteDB (Distributed SQL)''"

definition ss_PutState :: "'srv SSPool \<Rightarrow> string \<Rightarrow> string \<Rightarrow> bytes \<Rightarrow> 'srv \<Rightarrow> string option \<times> 'srv" where
  "ss_PutState pool shard key value s = ss_Upsert pool (shard, key) value s"

definition ss_GetState :: "'srv SSPool \<Rightarrow> string \<Rightarrow> string \<Rightarrow> 'srv \<Rightarrow> string + bytes option" where
  "ss_GetState pool shard key s = ss_QueryRow pool (shard, key) s"

text \<open>The loop that reads the results stops at the first error and names its index.\<close>

fun first_failure :: "nat \<Rightarrow> nat \<Rightarrow> string option list \<Rightarrow> string option" where
  "first_failure i 0 rs = None"
| "first_failure i (Suc k) [] = Some (''batch write failed at item '' @ show_nat i @ '': no more results in batch'')"
| "first_failure i (Suc k) (None # rs) = first_failure (i + 1) k rs"
| "first_failure i (Suc k) (Some e # rs) = Some (''batch write failed at item '' @ show_nat i @ '': '' @ e)"

definition ss_BatchWrite ::
  "'srv SSPool \<Rightarrow> string \<Rightarrow> (string, bytes) gomap \<Rightarrow> 'srv \<Rightarrow> string option \<times> 'srv" where
  "ss_BatchWrite pool shard kvs s =
     (if kvs = [] then (None, s)
      else case ss_SendBatch pool (map (\<lambda>(k, v). ((shard, k), v)) kvs) s of
             (rs, s') \<Rightarrow> (first_failure 0 (length kvs) rs, s'))"

subsection \<open>The contract of a server that adds increments\<close>

definition added :: "'k incr list \<Rightarrow> 'k \<Rightarrow> i64" where
  "added cs k = sum_list (map snd (filter (\<lambda>c. fst c = k) cs))"

lemma added_simps [simp]:
  "added [] k = 0"
  "added ((j, v) # cs) k = (if j = k then v else 0) + added cs k"
  "added (cs @ ds) k = added cs k + added ds k"
  by (simp_all add: added_def)

text \<open>
  A send that reports success adds every increment. What a failed send leaves is not promised.
\<close>

locale incr_server =
  fixes send :: "'k incr list \<Rightarrow> 'srv \<Rightarrow> string option \<times> 'srv"
    and bal :: "'srv \<Rightarrow> 'k \<Rightarrow> i64"
  assumes send_ok: "send cs s = (None, s') \<Longrightarrow> bal s' k = bal s k + added cs k"
begin

lemma chunk_loop_adds:
  "chunk_loop n send full ups cnt cmds s = (None, cnt', cmds', s') \<Longrightarrow>
     bal s' k + added cmds' k = bal s k + added cmds k + added (map (\<lambda>(key, v). (full key, v)) ups) k"
proof (induction ups arbitrary: cnt cmds s)
  case Nil
  then show ?case by simp
next
  case (Cons u ups)
  obtain key v where u: "u = (key, v)" by force
  show ?case
  proof (cases "v \<noteq> 0 \<and> (cnt + 1) mod n = 0")
    case True
    obtain s1 where s1: "send (cmds @ [(full key, v)]) s = (None, s1)"
      "chunk_loop n send full ups (cnt + 1) [] s1 = (None, cnt', cmds', s')"
      using Cons.prems u True by (auto simp: Let_def split: prod.splits option.splits)
    from Cons.IH [OF s1(2)] send_ok [OF s1(1), of k] u show ?thesis by (simp add: algebra_simps)
  next
    case False
    then show ?thesis
      using Cons.IH [of cnt cmds s] Cons.IH [of "cnt + 1" "cmds @ [(full key, v)]" s] Cons.prems u
      by (auto simp: Let_def algebra_simps split: if_splits)
  qed
qed

end

lemma incr_server_wrap: "incr_server send bal \<Longrightarrow> incr_server (\<lambda>cs s. wrap_error m (send cs s)) bal"
  by (auto simp: incr_server_def wrap_error_def prod_eq_iff)

text \<open>A final partial chunk is sent only when there is one.\<close>

lemma chunk_loop_rest:
  "chunk_loop n send full ups cnt cmds s = (None, cnt', cmds', s') \<Longrightarrow> length cmds = cnt mod n \<Longrightarrow> 0 < n
    \<Longrightarrow> length cmds' = cnt' mod n"
proof (induction ups arbitrary: cnt cmds s)
  case Nil
  then show ?case by simp
next
  case (Cons u ups)
  obtain key v where u: "u = (key, v)" by force
  have len: "length (cmds @ [(full key, v)]) = (cnt + 1) mod n" if "(cnt + 1) mod n \<noteq> 0"
    using Cons.prems(2) that by (auto simp: mod_Suc split: if_splits)
  show ?case
    using Cons.prems u Cons.IH [of cnt cmds s] Cons.IH [of "cnt + 1" "[]"]
      Cons.IH [of "cnt + 1" "cmds @ [(full key, v)]" s] len
    by (auto simp: Let_def split: if_splits prod.splits option.splits)
qed

subsection \<open>KeyDB: what a retry sends\<close>

lemma queue_all: "pl_cmds (fold (\<lambda>(k, v). pipe_IncrBy k v) cmds p) = pl_cmds p @ cmds"
  by (induction cmds arbitrary: p) (auto simp: pipe_IncrBy_def)

text \<open>The second attempt finds the pipeline empty and reports success.\<close>

lemma keydb_send_eq:
  "keydb_send c cmds s = (None, if cmds = [] then s else snd (rc_exec c cmds s))"
proof -
  have q: "pl_cmds (fold (\<lambda>(k, v). pipe_IncrBy k v) cmds Pipeline_new) = cmds"
    by (simp add: queue_all Pipeline_new_def)
  have 3: "(3 :: nat) = Suc (Suc 1)" by simp
  show ?thesis
  proof (cases "cmds = []")
    case True
    then show ?thesis by (simp add: keydb_send_def execWithRetry_def 3 pipe_Exec_def Pipeline_new_def)
  next
    case False
    obtain e s' where ex: "rc_exec c cmds s = (e, s')" by force
    then show ?thesis
      using False q by (cases e) (simp_all add: keydb_send_def execWithRetry_def 3 pipe_Exec_def)
  qed
qed

text \<open>With sends that never report an error and keep what \<open>P\<close> says of the server, so does the loop.\<close>

lemma chunk_loop_safe:
  assumes "\<And>cs s. P s \<Longrightarrow> fst (send cs s) = None \<and> P (snd (send cs s))"
  shows "P s \<Longrightarrow> \<exists>cnt' cmds' s'. chunk_loop n send full ups cnt cmds s = (None, cnt', cmds', s') \<and> P s'"
proof (induction ups arbitrary: cnt cmds s)
  case Nil
  then show ?case by simp
next
  case (Cons u ups)
  obtain key v where u: "u = (key, v)" by force
  obtain s1 where s1: "send (cmds @ [(full key, v)]) s = (None, s1)" "P s1"
    using assms [OF Cons.prems] by (metis prod.collapse)
  show ?case
    using Cons.IH [OF Cons.prems] Cons.IH [OF s1(2)] s1(1) u by (simp add: Let_def)
qed

lemma keydb_batch_write_safe:
  assumes "\<And>cs x. P x \<Longrightarrow> P (snd (rc_exec c cs x))" and "P s"
  shows "fst (keydb_BatchWrite c ch ups s) = None \<and> P (snd (keydb_BatchWrite c ch ups s))"
proof -
  let ?send = "\<lambda>cs s. wrap_error ''pipeline chunk failed after retries'' (keydb_send c cs s)"
  have step: "fst (?send cs x) = None \<and> P (snd (?send cs x))" if "P x" for cs x
    using that assms(1) by (simp add: wrap_error_def keydb_send_eq)
  obtain cnt cmds s' where
    r: "chunk_loop 1000 ?send (\<lambda>key. ch @ '':'' @ key) ups 0 [] s = (None, cnt, cmds, s')" "P s'"
    using chunk_loop_safe [where P = P and send = ?send, OF step assms(2)] by blast
  then show ?thesis
    using assms by (simp add: keydb_BatchWrite_def wrap_error_def keydb_send_eq)
qed

lemma keydb_batch_write_nil: "fst (keydb_BatchWrite c ch ups s) = None"
  using keydb_batch_write_safe [of "\<lambda>x. True" c s ch ups] by simp

subsection \<open>Clients and pools that keep the contract of a server\<close>

text \<open>
  INCRBY pipelines that report success have added every increment, and never fail; a batch of
  UPSERT statements is one implicit transaction, so a batch that fails has added nothing.
\<close>

lemma keydb_incr_server:
  assumes "\<And>cs s k. fst (rc_exec c cs s) = None \<and> bal (snd (rc_exec c cs s)) k = bal s k + added cs k"
  shows "incr_server (keydb_send c) bal"
proof
  show "keydb_send c cs s = (None, s') \<Longrightarrow> bal s' k = bal s k + added cs k" for cs s s' k
    using assms [of cs s k] by (auto simp: keydb_send_eq)
qed

lemma send_attempts_adds:
  assumes "\<And>cs s s' k. yb_SendBatch pool cs s = (None, s') \<Longrightarrow> bal s' k = bal s k + added cs k"
    and "\<And>cs s s' e k. yb_SendBatch pool cs s = (Some e, s') \<Longrightarrow> bal s' k = bal s k"
  shows "send_attempts n pool cs s = (None, s') \<Longrightarrow> bal s' k = bal s k + added cs k"
proof (induction n arbitrary: s)
  case 0
  then show ?case by simp
next
  case (Suc n)
  then show ?case
    using assms by (auto split: prod.splits option.splits)
qed

lemma yb_incr_server:
  assumes "\<And>cs s s' k. yb_SendBatch pool cs s = (None, s') \<Longrightarrow> bal s' k = bal s k + added cs k"
    and "\<And>cs s s' e k. yb_SendBatch pool cs s = (Some e, s') \<Longrightarrow> bal s' k = bal s k"
  shows "incr_server (sendBatchWithRetry pool) bal"
proof
  show "sendBatchWithRetry pool cs s = (None, s') \<Longrightarrow> bal s' k = bal s k + added cs k" for cs s s' k
    unfolding sendBatchWithRetry_def by (rule send_attempts_adds [OF assms])
qed

text \<open>
  A KeyDB server as a map from keys to integers, and a table of balances with an outage counter:
  the pool fails, leaving the table alone, while the counter is positive.
\<close>

type_synonym kv = "(string, i64) gomap"

definition kv_bal :: "('k, i64) gomap \<Rightarrow> 'k \<Rightarrow> i64" where
  "kv_bal s k = (case map_of s k of None \<Rightarrow> 0 | Some v \<Rightarrow> v)"

fun kv_incr :: "'k incr list \<Rightarrow> ('k, i64) gomap \<Rightarrow> ('k, i64) gomap" where
  "kv_incr [] s = s"
| "kv_incr ((k, v) # cs) s = kv_incr cs (AList.update k (kv_bal s k + v) s)"

lemma kv_bal_incr: "kv_bal (kv_incr cs s) k = kv_bal s k + added cs k"
proof (induction cs s rule: kv_incr.induct)
  case (1 s)
  then show ?case by simp
next
  case (2 j v cs s)
  have "kv_bal (AList.update j (kv_bal s j + v) s) k = (if j = k then kv_bal s j + v else kv_bal s k)"
    by (simp add: kv_bal_def gm_lookup_update)
  with 2 show ?case by simp
qed

definition kv_client :: "kv RedisClient" where
  "kv_client = \<lparr>rc_Ping = \<lambda>s. None,
     rc_Get = \<lambda>k s. (case map_of s k of None \<Rightarrow> RedisNil | Some v \<Rightarrow> RedisVal (show_int (sint v))),
     rc_Set = \<lambda>k v s. (None, s), rc_exec = \<lambda>cs s. (None, kv_incr cs s), rc_Close = \<lambda>s. None\<rparr>"

definition table_pool :: "(nat \<times> (string \<times> string, i64) gomap) YBPool" where
  "table_pool = \<lparr>yb_Exec = \<lambda>q s. (None, s),
     yb_SendBatch = \<lambda>cs s. (case s of (0, t) \<Rightarrow> (None, (0, kv_incr cs t))
                            | (Suc n, t) \<Rightarrow> (Some ''connection reset'', (n, t))),
     yb_PoolClose = \<lambda>s. s\<rparr>"

lemma kv_law:
  "fst (rc_exec kv_client cs s) = None \<and> kv_bal (snd (rc_exec kv_client cs s)) k = kv_bal s k + added cs k"
  by (simp add: kv_client_def kv_bal_incr)

interpretation kd: incr_server "keydb_send kv_client" kv_bal
  by (rule keydb_incr_server) (simp add: kv_client_def kv_bal_incr)

lemma table_pool_laws:
  "yb_SendBatch table_pool cs s = (None, s') \<Longrightarrow> kv_bal (snd s') k = kv_bal (snd s) k + added cs k"
  "yb_SendBatch table_pool cs s = (Some e, s') \<Longrightarrow> kv_bal (snd s') k = kv_bal (snd s) k"
  by (auto simp: table_pool_def kv_bal_incr split: nat.splits prod.splits)

interpretation yb: incr_server "sendBatchWithRetry table_pool" "\<lambda>s. kv_bal (snd s)"
  by (rule yb_incr_server) (fact table_pool_laws)+

lemma added_full:
  assumes "inj full" and "gm_ok ups"
  shows "added (map (\<lambda>(key, v). (full key, v)) ups) (full k) = (case map_of ups k of None \<Rightarrow> 0 | Some v \<Rightarrow> v)"
  using assms(2)
proof (induction ups)
  case Nil
  then show ?case by simp
next
  case (Cons u ups)
  obtain key v where u: "u = (key, v)" by force
  have "full key = full k \<longleftrightarrow> key = k" using assms(1) by (auto dest: injD)
  moreover have "map_of ups key = None" using Cons.prems u by (auto simp: gm_ok_def map_of_eq_None_iff)
  ultimately show ?case using Cons u by (auto simp: gm_ok_def)
qed

lemma added_not_full: "k \<notin> range full \<Longrightarrow> added (map (\<lambda>(key, v). (full key, v)) ups) k = 0"
  by (induction ups) auto

subsection \<open>Properties\<close>

text \<open>
  C39 A KeyDB batch write never reports a failure: the retry loop runs a pipeline whose commands the
  first attempt has already taken out, so every later attempt sends nothing and succeeds. Whatever
  the client does, the result is nil; and if every execution fails and leaves the server as it was,
  the updates are lost and the result is still nil.
\<close>

theorem keydb_batch_write_hides_failure:
  shows "fst (keydb_BatchWrite c ch ups s) = None
    \<and> ((\<forall>cs s. snd (rc_exec c cs s) = s) \<longrightarrow> keydb_BatchWrite c ch ups s = (None, s))"
  using keydb_batch_write_nil [of c ch ups s] keydb_batch_write_safe [of "\<lambda>x. x = s" c s ch ups]
  by (auto simp: prod_eq_iff)

text \<open>A client whose every execution fails.\<close>

definition down_client :: "nat RedisClient" where
  "down_client = \<lparr>rc_Ping = \<lambda>s. Some ''refused'', rc_Get = \<lambda>k s. RedisErr ''refused'',
     rc_Set = \<lambda>k v s. (Some ''refused'', s), rc_exec = \<lambda>cs s. (Some ''refused'', s), rc_Close = \<lambda>s. None\<rparr>"

theorem keydb_batch_write_hides_failure_witness:
  "rc_exec down_client [(''ch:a'', 5)] 7 = (Some ''refused'', 7)
    \<and> keydb_BatchWrite down_client ''ch'' [(''a'', 5)] 7 = (None, 7)"
  using keydb_batch_write_hides_failure [of down_client "''ch''" "[(''a'', 5)]" 7]
  by (simp add: down_client_def)



end
