(* ===== verification/Delta_Engine.thy ===== *)
theory Delta_Engine
  imports Plugin_Batch HED_Hash
begin

text \<open>
  The in-memory delta engine of \<^verbatim>\<open>pkg/delta/engine.go\<close>. The cells the maps point to are a
  heap of integers indexed by address, because an update fetches its pointer under the shard's
  lock and adds to the cell after releasing it; \<open>ApplyDelta\<close> is the composition of its three
  atomic steps. \<open>FlushToDB\<close> takes the order in which the runtime ranges over the batch as an
  argument. The engine's database is the KeyDB engine.
\<close>

definition numShards :: nat where
  "numShards = 256"

record DeltaEngine =
  de_shards :: "(string, nat) gomap list"
  de_heap :: "i64 list"
  de_txCount :: u64

definition New_Delta :: DeltaEngine where
  "New_Delta = \<lparr>de_shards = replicate numShards [], de_heap = [], de_txCount = 0\<rparr>"

definition getShard :: "string \<Rightarrow> nat" where
  "getShard key = unat (fnv32a key mod 256)"

subsection \<open>ApplyDelta\<close>

text \<open>Under the lock: the pointer of the key, allocated when there is none.\<close>

definition delta_ptr :: "string \<Rightarrow> DeltaEngine \<Rightarrow> nat \<times> DeltaEngine" where
  "delta_ptr key d =
     (let i = getShard key
      in case map_of (de_shards d ! i) key of
           Some p \<Rightarrow> (p, d)
         | None \<Rightarrow> (length (de_heap d),
             d\<lparr>de_shards := (de_shards d)[i := AList.update key (length (de_heap d)) (de_shards d ! i)],
               de_heap := de_heap d @ [0]\<rparr>))"

definition delta_add :: "nat \<Rightarrow> i64 \<Rightarrow> DeltaEngine \<Rightarrow> DeltaEngine" where
  "delta_add p v d = d\<lparr>de_heap := (de_heap d)[p := de_heap d ! p + v]\<rparr>"

definition delta_count :: "DeltaEngine \<Rightarrow> DeltaEngine" where
  "delta_count d = d\<lparr>de_txCount := de_txCount d + 1\<rparr>"

text \<open>The channel is an argument the code does not use.\<close>

definition ApplyDelta :: "string \<Rightarrow> string \<Rightarrow> i64 \<Rightarrow> DeltaEngine \<Rightarrow> DeltaEngine" where
  "ApplyDelta channelID key deltaValue d =
     (if deltaValue = 0 then d
      else case delta_ptr key d of (p, d') \<Rightarrow> delta_count (delta_add p deltaValue d'))"

subsection \<open>FlushToDB\<close>

definition swap_shard :: "nat \<Rightarrow> DeltaEngine \<Rightarrow> (string, nat) gomap \<times> DeltaEngine" where
  "swap_shard i d = (de_shards d ! i, d\<lparr>de_shards := (de_shards d)[i := []]\<rparr>)"

fun collect :: "(string, nat) gomap \<Rightarrow> i64 list \<Rightarrow> (string, i64) gomap \<Rightarrow> (string, i64) gomap" where
  "collect [] heap batch = batch"
| "collect ((key, p) # snapshot) heap batch =
     collect snapshot heap (if heap ! p \<noteq> 0 then AList.update key (heap ! p) batch else batch)"

fun flush_shards :: "nat list \<Rightarrow> (string, i64) gomap \<Rightarrow> DeltaEngine \<Rightarrow> (string, i64) gomap \<times> DeltaEngine" where
  "flush_shards [] batch d = (batch, d)"
| "flush_shards (i # is) batch d =
     (case swap_shard i d of (snapshot, d') \<Rightarrow> flush_shards is (collect snapshot (de_heap d') batch) d')"

definition FlushToDB ::
  "'srv RedisClient \<Rightarrow> ((string, i64) gomap \<Rightarrow> (string, i64) gomap) \<Rightarrow> string \<Rightarrow> DeltaEngine \<Rightarrow> 'srv
   \<Rightarrow> string option \<times> DeltaEngine \<times> 'srv" where
  "FlushToDB c ord channelID d s =
     (case flush_shards [0..<numShards] [] d of
        (batch, d') \<Rightarrow>
          if length batch = 0 then (None, d', s)
          else case keydb_BatchWrite c channelID (ord batch) s of (e, s') \<Rightarrow> (e, d', s'))"

definition GetTxCount :: "DeltaEngine \<Rightarrow> u64" where
  "GetTxCount d = de_txCount d"

definition ResetTxCount :: "DeltaEngine \<Rightarrow> DeltaEngine" where
  "ResetTxCount d = d\<lparr>de_txCount := 0\<rparr>"

subsection \<open>The invariant and the pending balance\<close>

text \<open>
  Every key lives in its own shard, every pointer is an address, and no two keys share one. The
  pending balance of a key is the content of its cell, zero when it has none.
\<close>

definition cell :: "DeltaEngine \<Rightarrow> string \<Rightarrow> nat option" where
  "cell d key = map_of (de_shards d ! getShard key) key"

definition delta_inv :: "DeltaEngine \<Rightarrow> bool" where
  "delta_inv d \<longleftrightarrow> length (de_shards d) = numShards
     \<and> (\<forall>i < numShards. gm_ok (de_shards d ! i) \<and> (\<forall>k \<in> gm_keys (de_shards d ! i). getShard k = i))
     \<and> (\<forall>k p. cell d k = Some p \<longrightarrow> p < length (de_heap d))
     \<and> (\<forall>k k' p. cell d k = Some p \<longrightarrow> cell d k' = Some p \<longrightarrow> k = k')"

definition pending :: "DeltaEngine \<Rightarrow> string \<Rightarrow> i64" where
  "pending d key = (case cell d key of Some p \<Rightarrow> de_heap d ! p | None \<Rightarrow> 0)"

lemma getShard_less: "getShard key < numShards"
  by (simp add: getShard_def numShards_def unat_mod_distrib)

lemma delta_inv_New [inv_intros]: "delta_inv New_Delta"
  using getShard_less by (auto simp: delta_inv_def New_Delta_def cell_def)

text \<open>A new cell for a key that has none.\<close>

lemma new_cell_shards:
  assumes "delta_inv d" and "j < numShards"
    and "d' = d\<lparr>de_shards := (de_shards d)[getShard key := AList.update key h (de_shards d ! getShard key)], de_heap := de_heap d @ [0]\<rparr>"
  shows "gm_ok (de_shards d' ! j) \<and> (\<forall>k \<in> gm_keys (de_shards d' ! j). getShard k = j)"
proof (cases "j = getShard key")
  case True
  note inv = assms(1) [unfolded delta_inv_def]
  have m: "de_shards d' ! j = AList.update key h (de_shards d ! j)" using True inv getShard_less by (simp add: assms(3))
  have "gm_ok (de_shards d ! j)" using inv assms(2) by blast
  then have "gm_ok (AList.update key h (de_shards d ! j))" by (rule gm_ok_update)
  moreover have "\<forall>k \<in> gm_keys (AList.update key h (de_shards d ! j)). getShard k = j"
    using inv assms(2) True by (simp only: gm_keys_update) blast
  ultimately show ?thesis unfolding m by blast
next
  case False
  then show ?thesis using assms by (simp add: delta_inv_def)
qed

lemma delta_ptr_inv:
  assumes "delta_inv d" and "delta_ptr key d = (p, d')"
  shows "delta_inv d' \<and> cell d' key = Some p \<and> pending d' = pending d \<and> de_txCount d' = de_txCount d"
proof (cases "cell d key")
  case (Some q)
  with assms show ?thesis by (simp add: delta_ptr_def cell_def)
next
  case None
  let ?i = "getShard key" and ?h = "length (de_heap d)"
  note inv = assms(1) [unfolded delta_inv_def]
  have i: "?i < length (de_shards d)" using inv getShard_less by simp
  have d': "p = ?h"
      "d' = d\<lparr>de_shards := (de_shards d)[?i := AList.update key ?h (de_shards d ! ?i)], de_heap := de_heap d @ [0]\<rparr>"
    using assms(2) None by (auto simp: delta_ptr_def cell_def Let_def)
  have look: "cell d' k = (if k = key then Some ?h else cell d k)" for k
    using i by (auto simp: d' cell_def nth_list_update gm_lookup_update)
  have old: "q < ?h" if "cell d k = Some q" for k q using inv that by blast
  have uniq: "cell d k = Some q \<Longrightarrow> cell d k' = Some q \<Longrightarrow> k = k'" for k q k' using inv by blast
  have "cell d' k = Some q \<Longrightarrow> q < length (de_heap d')" for k q
    using old [of k q] look [of k] by (cases "k = key") (auto simp: d')
  moreover have "k = k'" if "cell d' k = Some q" "cell d' k' = Some q" for k k' q
  proof (cases "k = key \<or> k' = key")
    case True
    then have "q = ?h" using that look by auto
    then show ?thesis using that look old [of k q] old [of k' q] by (metis less_irrefl)
  qed (use that uniq look in metis)
  moreover have "length (de_shards d') = numShards" using inv by (simp add: d')
  ultimately have "delta_inv d'" using new_cell_shards [OF assms(1) _ d'(2)] unfolding delta_inv_def by blast
  moreover have "pending d' k = pending d k" for k
    using old [of k] None look [of k] by (cases "k = key"; cases "cell d k") (simp_all add: pending_def d' nth_append)
  ultimately show ?thesis using look [of key] by (auto simp: d')
qed

lemma delta_add_inv:
  assumes "delta_inv d" and "cell d key = Some p"
  shows "delta_inv (delta_count (delta_add p v d))"
    and "pending (delta_count (delta_add p v d)) = (pending d)(key := pending d key + v)"
proof -
  have c: "cell (delta_count (delta_add p v d)) = cell d"
    by (simp add: cell_def delta_count_def delta_add_def fun_eq_iff)
  show "delta_inv (delta_count (delta_add p v d))"
    using assms(1) by (simp add: delta_inv_def c) (simp add: delta_count_def delta_add_def)
  have p: "p < length (de_heap d)" using assms by (simp add: delta_inv_def)
  have other: "q \<noteq> p" if "k \<noteq> key" "cell d k = Some q" for k q
    using assms that unfolding delta_inv_def by blast
  have heap: "de_heap (delta_count (delta_add p v d)) = (de_heap d)[p := de_heap d ! p + v]"
    by (simp add: delta_count_def delta_add_def)
  have "pending (delta_count (delta_add p v d)) k = ((pending d)(key := pending d key + v)) k" for k
    using assms(2) p other [of k] unfolding pending_def c heap
    by (cases "k = key"; cases "cell d k") simp_all
  then show "pending (delta_count (delta_add p v d)) = (pending d)(key := pending d key + v)" by blast
qed

lemma ApplyDelta_effect:
  assumes "delta_inv d"
  shows "delta_inv (ApplyDelta ch key v d)"
    and "pending (ApplyDelta ch key v d) = (pending d)(key := pending d key + v)"
    and "de_txCount (ApplyDelta ch key v d) = de_txCount d + (if v = 0 then 0 else 1)"
proof -
  obtain p d' where p: "delta_ptr key d = (p, d')" by force
  note pi = delta_ptr_inv [OF assms p]
  show "delta_inv (ApplyDelta ch key v d)"
    using assms p pi delta_add_inv(1) [of d' key p v] by (simp add: ApplyDelta_def)
  show "pending (ApplyDelta ch key v d) = (pending d)(key := pending d key + v)"
    using p pi delta_add_inv(2) [of d' key p v] by (simp add: ApplyDelta_def)
  show "de_txCount (ApplyDelta ch key v d) = de_txCount d + (if v = 0 then 0 else 1)"
    using p pi by (simp add: ApplyDelta_def delta_count_def delta_add_def)
qed

subsection \<open>What a flush collects\<close>

definition batch_val :: "(string, i64) gomap \<Rightarrow> string \<Rightarrow> i64" where
  "batch_val batch k = (case map_of batch k of Some v \<Rightarrow> v | None \<Rightarrow> 0)"

lemma collect_val:
  assumes "gm_ok snap" and "\<And>k. k \<in> gm_keys snap \<Longrightarrow> map_of batch k = None"
  shows "batch_val (collect snap h batch) k
    = (case map_of snap k of Some p \<Rightarrow> h ! p | None \<Rightarrow> batch_val batch k)"
  using assms
proof (induction snap h batch rule: collect.induct)
  case (1 h batch)
  then show ?case by simp
next
  case (2 key p snap h batch)
  let ?b = "if h ! p \<noteq> 0 then AList.update key (h ! p) batch else batch"
  have key: "key \<notin> gm_keys snap" "gm_ok snap" "map_of snap key = None"
    using 2(2) by (auto simp: gm_ok_def map_of_eq_None_iff)
  have "map_of ?b k = None" if "k \<in> gm_keys snap" for k
    using 2(3) [of k] that key(1) by (auto simp: gm_lookup_update)
  from 2(1) [OF key(2) this] 2(3) [of key] key(3) show ?case
    by (auto simp: batch_val_def gm_lookup_update split: option.splits)
qed

lemma collect_ok: "gm_ok batch \<Longrightarrow> gm_ok (collect snap h batch)"
  by (induction snap h batch rule: collect.induct) (simp_all add: gm_ok_update)

lemma collect_keys: "gm_keys (collect snap h batch) \<subseteq> gm_keys snap \<union> gm_keys batch"
proof (induction snap h batch rule: collect.induct)
  case (1 h batch)
  then show ?case by simp
next
  case (2 key p snap h batch)
  then show ?case by (auto simp: gm_keys_update split: if_splits)
qed

lemma swap_shard_inv:
  assumes "delta_inv d" and "i < numShards" and "swap_shard i d = (snap, d')"
  shows "delta_inv d' \<and> gm_ok snap \<and> (\<forall>k \<in> gm_keys snap. getShard k = i)
    \<and> (\<forall>k. getShard k = i \<longrightarrow> map_of snap k = cell d k)
    \<and> (\<forall>k. cell d' k = (if getShard k = i then None else cell d k))
    \<and> de_heap d' = de_heap d \<and> de_txCount d' = de_txCount d"
proof -
  note inv = assms(1) [unfolded delta_inv_def]
  have d': "snap = de_shards d ! i" "d' = d\<lparr>de_shards := (de_shards d)[i := []]\<rparr>"
    using assms(3) by (simp_all add: swap_shard_def)
  have c: "cell d' k = (if getShard k = i then None else cell d k)" for k
    using assms(2) inv by (auto simp: d' cell_def nth_list_update)
  have "delta_inv d'"
    unfolding delta_inv_def c using inv assms(2) by (auto simp: d' nth_list_update split: if_splits)
  then show ?thesis using inv assms(2) c by (auto simp: d' cell_def)
qed

text \<open>Collecting the snapshot of one shard into a batch that has none of its keys.\<close>

lemma collect_shard:
  assumes d: "delta_inv d" and i: "i < numShards" and sw: "swap_shard i d = (snap, d1)"
    and b: "\<forall>k \<in> gm_keys batch. getShard k \<noteq> i"
  shows "batch_val (collect snap (de_heap d1) batch) k = (if getShard k = i then pending d k else batch_val batch k)"
    and "k \<in> gm_keys (collect snap (de_heap d1) batch) \<Longrightarrow> getShard k = i \<or> k \<in> gm_keys batch"
    and "getShard k \<noteq> i \<Longrightarrow> pending d1 k = pending d k"
proof -
  note S = swap_shard_inv [OF d i sw]
  have fr: "map_of batch k = None" if "getShard k = i" for k using b that by (auto simp: map_of_eq_None_iff)
  have val: "batch_val (collect snap (de_heap d1) batch) k
      = (case map_of snap k of Some p \<Rightarrow> de_heap d ! p | None \<Rightarrow> batch_val batch k)" for k
    using collect_val [of snap batch] fr S by simp
  have out: "map_of snap k = None" if "getShard k \<noteq> i" for k using S that by (auto simp: map_of_eq_None_iff)
  show "batch_val (collect snap (de_heap d1) batch) k = (if getShard k = i then pending d k else batch_val batch k)"
    using val [of k] out [of k] fr [of k] S by (auto simp: pending_def batch_val_def split: option.split)
  show "k \<in> gm_keys (collect snap (de_heap d1) batch) \<Longrightarrow> getShard k = i \<or> k \<in> gm_keys batch"
    using subsetD [OF collect_keys, of k snap "de_heap d1" batch] S by blast
  show "getShard k \<noteq> i \<Longrightarrow> pending d1 k = pending d k" using S by (auto simp: pending_def split: option.splits)
qed

lemma flush_shards_effect:
  assumes "delta_inv d" and "set is \<subseteq> {..<numShards}" and "distinct is" and "gm_ok batch"
    and "\<And>k. k \<in> gm_keys batch \<Longrightarrow> getShard k \<notin> set is"
    and "flush_shards is batch d = (batch', d')"
  shows "delta_inv d' \<and> gm_ok batch' \<and> de_heap d' = de_heap d \<and> de_txCount d' = de_txCount d
    \<and> (\<forall>k. cell d' k = (if getShard k \<in> set is then None else cell d k))
    \<and> (\<forall>k. batch_val batch' k = (if getShard k \<in> set is then pending d k else batch_val batch k))"
  using assms
proof (induction "is" arbitrary: batch d)
  case Nil
  then show ?case by simp
next
  case (Cons i "is")
  obtain snap d1 where sw: "swap_shard i d = (snap, d1)" by force
  let ?b = "collect snap (de_heap d1) batch"
  have i: "i < numShards" "i \<notin> set is" "\<forall>k \<in> gm_keys batch. getShard k \<noteq> i" using Cons.prems by auto
  note S = swap_shard_inv [OF Cons.prems(1) i(1) sw] and C = collect_shard [OF Cons.prems(1) i(1) sw i(3)]
  have IH: "delta_inv d' \<and> gm_ok batch' \<and> de_heap d' = de_heap d1 \<and> de_txCount d' = de_txCount d1
    \<and> (\<forall>k. cell d' k = (if getShard k \<in> set is then None else cell d1 k))
    \<and> (\<forall>k. batch_val batch' k = (if getShard k \<in> set is then pending d1 k else batch_val ?b k))"
  proof (rule Cons.IH)
    show "delta_inv d1" using S by blast
    show "set is \<subseteq> {..<numShards}" and "distinct is" using Cons.prems(2,3) by auto
    show "gm_ok ?b" using Cons.prems(4) by (rule collect_ok)
    show "flush_shards is ?b d1 = (batch', d')" using Cons.prems(6) sw by simp
    show "getShard k \<notin> set is" if "k \<in> gm_keys ?b" for k using C(2) [OF that] Cons.prems(5) [of k] i(2) by auto
  qed
  have "batch_val batch' k = (if getShard k \<in> set (i # is) then pending d k else batch_val batch k)" for k
    using IH C(1,3) [of k] i(2) by (cases "getShard k = i") auto
  with IH S show ?case by auto
qed

lemma flush_all:
  assumes "delta_inv d" and "flush_shards [0..<numShards] [] d = (batch, d')"
  shows "delta_inv d'" and "gm_ok batch" and "cell d' k = None" and "batch_val batch k = pending d k"
    and "de_heap d' = de_heap d" and "de_txCount d' = de_txCount d"
proof -
  have "delta_inv d' \<and> gm_ok batch \<and> de_heap d' = de_heap d \<and> de_txCount d' = de_txCount d
    \<and> (\<forall>k. cell d' k = (if getShard k \<in> set [0..<numShards] then None else cell d k))
    \<and> (\<forall>k. batch_val batch k = (if getShard k \<in> set [0..<numShards] then pending d k else batch_val [] k))"
    by (rule flush_shards_effect [OF assms(1) _ _ _ _ assms(2)]) auto
  then show "delta_inv d'" and "gm_ok batch" and "cell d' k = None" and "batch_val batch k = pending d k"
    and "de_heap d' = de_heap d" and "de_txCount d' = de_txCount d"
    using getShard_less [of k] by auto
qed

subsection \<open>Runs of updates and flushes\<close>

datatype delta_op = Apply string i64 | Flush

text \<open>All flushes of a run go to one channel; the errors they return are discarded, as by the callers.\<close>

fun delta_run ::
  "'srv RedisClient \<Rightarrow> ((string, i64) gomap \<Rightarrow> (string, i64) gomap) \<Rightarrow> string \<Rightarrow> delta_op list
   \<Rightarrow> DeltaEngine \<times> 'srv \<Rightarrow> DeltaEngine \<times> 'srv" where
  "delta_run c ord ch [] st = st"
| "delta_run c ord ch (Apply key v # ops) (d, s) = delta_run c ord ch ops (ApplyDelta ch key v d, s)"
| "delta_run c ord ch (Flush # ops) (d, s) =
     (case FlushToDB c ord ch d s of (e, d', s') \<Rightarrow> delta_run c ord ch ops (d', s'))"

fun applied :: "delta_op list \<Rightarrow> string \<Rightarrow> i64" where
  "applied [] k = 0"
| "applied (Apply key v # ops) k = (if key = k then v else 0) + applied ops k"
| "applied (Flush # ops) k = applied ops k"

lemma keydb_full_inj: "inj (\<lambda>key. ch @ '':'' @ (key :: string))"
  by (simp add: inj_def)

lemma keydb_write_adds:
  assumes "incr_server (keydb_send c) bal" and "gm_ok ups" and "keydb_BatchWrite c ch ups s = (None, s')"
  shows "bal s' (ch @ '':'' @ k) = bal s (ch @ '':'' @ k) + batch_val ups k"
proof (cases "ups = []")
  case True
  then show ?thesis using assms(3) by (simp add: keydb_BatchWrite_def batch_val_def)
next
  case False
  let ?full = "\<lambda>key. ch @ '':'' @ key"
  let ?send = "\<lambda>cs s. wrap_error ''pipeline chunk failed after retries'' (keydb_send c cs s)"
  have srv: "incr_server ?send bal" by (rule incr_server_wrap [OF assms(1)])
  obtain cnt cmds s1 where l: "chunk_loop 1000 ?send ?full ups 0 [] s = (None, cnt, cmds, s1)"
    and fin: "(if cnt > 0 \<and> cnt mod 1000 \<noteq> 0
        then wrap_error ''final pipeline chunk failed after retries'' (keydb_send c cmds s1) else (None, s1)) = (None, s')"
    using assms(3) False by (auto simp: keydb_BatchWrite_def split: prod.splits option.splits)
  have "cmds = [] \<or> cnt > 0 \<and> cnt mod 1000 \<noteq> 0" using chunk_loop_rest [OF l] by (cases "cnt mod 1000") auto
  then have "bal s' (?full k) = bal s1 (?full k) + added cmds (?full k)"
    using fin incr_server.send_ok [OF assms(1), of cmds s1 s'] by (auto simp: keydb_send_eq wrap_error_def split: if_splits)
  then show ?thesis
    using incr_server.chunk_loop_adds [OF srv l, of "?full k"] added_full [OF keydb_full_inj assms(2), of ch k]
    by (simp add: batch_val_def split: option.splits)
qed

text \<open>The iteration order of the runtime gives back the entries of the map, each once.\<close>

definition map_order :: "((string, i64) gomap \<Rightarrow> (string, i64) gomap) \<Rightarrow> bool" where
  "map_order ord \<longleftrightarrow> (\<forall>b. mset (ord b) = mset b)"

lemma map_order_lookup:
  assumes "map_order ord" and "gm_ok b"
  shows "gm_ok (ord b)" and "map_of (ord b) = map_of b"
proof -
  have m: "mset (ord b) = mset b" using assms(1) by (simp add: map_order_def)
  then have "mset (map fst (ord b)) = mset (map fst b)" by simp
  then show ok: "gm_ok (ord b)" using assms(2) mset_eq_imp_distinct_iff unfolding gm_ok_def by blast
  show "map_of (ord b) = map_of b"
    using mset_eq_setD [OF m] map_of_inject_set ok assms(2) unfolding gm_ok_def by blast
qed

lemma FlushToDB_effect:
  assumes "delta_inv d" and "incr_server (keydb_send c) bal" and "map_order ord"
    and "FlushToDB c ord ch d s = (e, d', s')"
  shows "e = None \<and> delta_inv d' \<and> pending d' = (\<lambda>k. 0) \<and> de_txCount d' = de_txCount d
    \<and> bal s' (ch @ '':'' @ k) = bal s (ch @ '':'' @ k) + pending d k"
proof -
  obtain batch d1 where fl: "flush_shards [0..<numShards] [] d = (batch, d1)" by force
  note F = flush_all [OF assms(1) fl]
  have d1: "d' = d1" using assms(4) fl by (auto simp: FlushToDB_def split: prod.splits if_splits)
  have pend: "pending d' = (\<lambda>k. 0)" using F(3) by (simp add: pending_def d1 fun_eq_iff)
  have "e = None \<and> bal s' (ch @ '':'' @ k) = bal s (ch @ '':'' @ k) + pending d k"
  proof (cases "batch = []")
    case True
    then have "e = None" "s' = s" using assms(4) fl by (simp_all add: FlushToDB_def)
    moreover have "pending d k = 0" using F(4) [of k] True by (simp add: batch_val_def)
    ultimately show ?thesis by simp
  next
    case False
    then have w: "keydb_BatchWrite c ch (ord batch) s = (e, s')"
      using assms(4) fl by (auto simp: FlushToDB_def split: prod.splits)
    have e: "e = None" using keydb_batch_write_nil [of c ch "ord batch" s] w by simp
    have "bal s' (ch @ '':'' @ k) = bal s (ch @ '':'' @ k) + batch_val (ord batch) k"
      using keydb_write_adds [OF assms(2) map_order_lookup(1) [OF assms(3) F(2)]] w e by blast
    then show ?thesis
      using e F(4) [of k] map_order_lookup(2) [OF assms(3) F(2)] by (simp add: batch_val_def)
  qed
  then show ?thesis using pend F d1 by simp
qed

lemma delta_run_effect:
  assumes "incr_server (keydb_send c) bal" and "map_order ord"
  shows "delta_inv d \<Longrightarrow> delta_run c ord ch ops (d, s) = (d', s') \<Longrightarrow>
    delta_inv d' \<and> bal s' (ch @ '':'' @ k) + pending d' k = bal s (ch @ '':'' @ k) + pending d k + applied ops k
    \<and> de_txCount d' = de_txCount d + of_nat (length (filter (\<lambda>x. \<exists>key v. x = Apply key v \<and> v \<noteq> 0) ops))"
proof (induction ops arbitrary: d s)
  case Nil
  then show ?case by simp
next
  case (Cons x ops)
  show ?case
  proof (cases x)
    case (Apply key v)
    have r: "delta_run c ord ch ops (ApplyDelta ch key v d, s) = (d', s')" using Cons.prems(2) Apply by simp
    note A = ApplyDelta_effect [OF Cons.prems(1)]
    from Cons.IH [OF A(1) r] A(2,3) [of ch key v] Apply show ?thesis
      by (simp add: algebra_simps)
  next
    case Flush
    obtain e d1 s1 where f: "FlushToDB c ord ch d s = (e, d1, s1)" by (metis prod_cases3)
    note F = FlushToDB_effect [OF Cons.prems(1) assms f, of k]
    have r: "delta_run c ord ch ops (d1, s1) = (d', s')" using Cons.prems(2) Flush f by simp
    have "delta_inv d1" using F by blast
    from Cons.IH [OF this r] F Flush show ?thesis by simp
  qed
qed

subsection \<open>Properties\<close>

text \<open>
  C8 No delta is lost or counted twice between memory and database: over every sequence of updates and
  flushes to one channel, with a server that executes its INCRBY pipelines, the stored balance of an
  account plus its pending cell is the balance at the start plus the sum of the deltas applied to
  it, whatever the iteration order of the maps, and the transaction counter has advanced by the
  number of deltas that were not zero.
\<close>

theorem delta_conserved:
  assumes "\<And>cs s k. fst (rc_exec c cs s) = None \<and> bal (snd (rc_exec c cs s)) k = bal s k + added cs k"
    and "map_order ord" and "delta_run c ord ch ops (New_Delta, s) = (d', s')"
  shows "bal s' (ch @ '':'' @ k) + pending d' k = bal s (ch @ '':'' @ k) + applied ops k
    \<and> GetTxCount d' = of_nat (length (filter (\<lambda>x. \<exists>key v. x = Apply key v \<and> v \<noteq> 0) ops))"
proof -
  have "pending New_Delta k = 0"
    using getShard_less [of k] by (simp add: pending_def cell_def New_Delta_def)
  then show ?thesis
    using delta_run_effect [OF keydb_incr_server [where bal = bal, OF assms(1)] assms(2) delta_inv_New assms(3), of k]
    by (simp add: GetTxCount_def New_Delta_def)
qed

theorem delta_conserved_witness:
  "\<exists>d' s'. delta_run kv_client (\<lambda>b. b) ''c'' [Apply ''a'' 5, Flush, Apply ''a'' 2] (New_Delta, []) = (d', s')
    \<and> kv_bal s' (''c'' @ '':'' @ ''a'') + pending d' ''a'' = kv_bal [] (''c'' @ '':'' @ ''a'') + 7"
proof -
  obtain d' s' where r: "delta_run kv_client (\<lambda>b. b) ''c'' [Apply ''a'' 5, Flush, Apply ''a'' 2] (New_Delta, []) = (d', s')"
    by force
  have "map_order (\<lambda>b. b)" by (simp add: map_order_def)
  from delta_conserved [where bal = kv_bal, OF kv_law this r, of "''a''"] r show ?thesis by auto
qed

text \<open>
  A delta can be lost without a failure: when a flush runs between the two halves of an update,
  after it has fetched its pointer and before it adds to the cell, the delta lands in a cell no map
  points to. The counter says the update was made, the database has what it would have without it,
  and no later flush can see it.
\<close>

theorem delta_lost_in_flush:
  assumes "delta_inv d" and "incr_server (keydb_send c) bal" and "map_order ord"
    and "delta_ptr key d = (p, d1)" and "FlushToDB c ord ch d1 s = (e, d2, s')"
  shows "pending (delta_count (delta_add p v d2)) k = 0
    \<and> GetTxCount (delta_count (delta_add p v d2)) = GetTxCount d + 1
    \<and> bal s' (ch @ '':'' @ k) = bal s (ch @ '':'' @ k) + pending d k"
proof -
  note P = delta_ptr_inv [OF assms(1,4)]
  then have "delta_inv d1" by blast
  note F = FlushToDB_effect [OF this assms(2,3,5), of k]
  obtain batch dd where fl: "flush_shards [0..<numShards] [] d1 = (batch, dd)" by force
  have "d2 = dd" using assms(5) fl by (auto simp: FlushToDB_def split: prod.splits if_splits)
  then have "cell d2 k = None" using flush_all(3) [OF \<open>delta_inv d1\<close> fl] by simp
  then have "cell (delta_count (delta_add p v d2)) k = None"
    by (simp add: cell_def delta_count_def delta_add_def)
  then show ?thesis using F P by (simp add: pending_def GetTxCount_def delta_count_def delta_add_def)
qed

theorem delta_lost_in_flush_witness:
  "\<exists>p d1 e d2 s'. delta_ptr ''a'' New_Delta = (p, d1) \<and> FlushToDB kv_client (\<lambda>b. b) ''c'' d1 [] = (e, d2, s')
    \<and> pending (delta_count (delta_add p 5 d2)) ''a'' = 0
    \<and> GetTxCount (delta_count (delta_add p 5 d2)) = GetTxCount New_Delta + 1
    \<and> kv_bal s' (''c'' @ '':'' @ ''a'') = kv_bal [] (''c'' @ '':'' @ ''a'') + pending New_Delta ''a''"
proof -
  obtain p d1 where p: "delta_ptr ''a'' New_Delta = (p, d1)" by force
  obtain e d2 s' where f: "FlushToDB kv_client (\<lambda>b. b) ''c'' d1 [] = (e, d2, s')" by (metis prod_cases3)
  have "map_order (\<lambda>b. b)" by (simp add: map_order_def)
  from delta_lost_in_flush [OF delta_inv_New kd.incr_server_axioms this p f, of 5 "''a''"] p f
  show ?thesis by blast
qed

end
