(* ===== verification/Benchmark_Runner.thy ===== *)
theory Benchmark_Runner
  imports Delta_Engine
begin

text \<open>
  The benchmark of \<^verbatim>\<open>pkg/benchmark/runner.go\<close> and the program \<^verbatim>\<open>cmd/loadtest\<close>. The keys
  of each worker are computed as in the code; the calls of the concurrent workers are one sequence
  whose order the scheduler chooses, an argument that may be any rearrangement of them. The rate
  \<^verbatim>\<open>TPS\<close>, a floating-point quotient of the two other fields, is left out.
\<close>

record BenchResult =
  br_TotalTx :: u64
  br_Duration :: duration
  br_WorkerCount :: int

definition worker_count :: "nat \<Rightarrow> nat \<Rightarrow> nat \<Rightarrow> nat" where
  "worker_count totalTx numWorkers w =
     totalTx div numWorkers + (if w < totalTx mod numWorkers then 1 else 0)"

definition worker_keys :: "nat \<Rightarrow> nat \<Rightarrow> nat \<Rightarrow> string list" where
  "worker_keys totalTx numWorkers w =
     map (\<lambda>i. ''acc_'' @ show_nat w @ ''_'' @ show_nat (i mod 100)) [0..<worker_count totalTx numWorkers w]"

definition Run256WorkerBenchmark ::
  "(string list \<Rightarrow> string list) \<Rightarrow> duration \<Rightarrow> int \<Rightarrow> int \<Rightarrow> DeltaEngine \<Rightarrow> BenchResult \<times> DeltaEngine" where
  "Run256WorkerBenchmark sched dur totalTx numWorkers d =
     (if totalTx \<le> 0 \<or> numWorkers \<le> 0
      then (\<lparr>br_TotalTx = 0, br_Duration = 0, br_WorkerCount = numWorkers\<rparr>, d)
      else let calls = sched (concat (map (worker_keys (nat totalTx) (nat numWorkers)) [0..<nat numWorkers]));
               d' = foldl (\<lambda>d key. ApplyDelta ''channel1'' key 10 d) (ResetTxCount d) calls
           in (\<lparr>br_TotalTx = GetTxCount d', br_Duration = dur, br_WorkerCount = numWorkers\<rparr>, d'))"

text \<open>The program panics on bad flags and when the benchmark completed another number.\<close>

definition loadtest_main :: "(string list \<Rightarrow> string list) \<Rightarrow> duration \<Rightarrow> int \<Rightarrow> int \<Rightarrow> BenchResult option" where
  "loadtest_main sched dur totalTx workers =
     (if totalTx \<le> 0 \<or> workers \<le> 0 then None
      else let r = fst (Run256WorkerBenchmark sched dur totalTx workers New_Delta)
           in if sint (br_TotalTx r) \<noteq> totalTx then None else Some r)"

subsection \<open>The shares of the workers\<close>

lemma worker_counts_sum: "0 < n \<Longrightarrow> (\<Sum>w < n. worker_count t n w) = t"
proof -
  assume n: "0 < n"
  have "(\<Sum>w < n. if w < t mod n then 1 else 0 :: nat) = card {w. w < n \<and> w < t mod n}"
    by (simp add: sum.If_cases Int_def lessThan_def conj_commute)
  also have "{w. w < n \<and> w < t mod n} = {..<t mod n}" using n by (auto intro: less_trans)
  finally have "(\<Sum>w < n. if w < t mod n then 1 else 0 :: nat) = t mod n" by simp
  then show ?thesis by (simp add: worker_count_def sum.distrib)
qed

lemma all_keys_length: "0 < n \<Longrightarrow> length (concat (map (worker_keys t n) [0..<n])) = t"
  using worker_counts_sum [of n t]
  by (simp add: length_concat comp_def worker_keys_def interv_sum_list_conv_sum_set_nat atLeast0LessThan)

lemma apply_tens_count:
  "delta_inv d \<Longrightarrow> de_txCount (foldl (\<lambda>d key. ApplyDelta ch key 10 d) d ks) = de_txCount d + of_nat (length ks)"
proof (induction ks arbitrary: d)
  case Nil
  then show ?case by simp
next
  case (Cons k ks)
  note A = ApplyDelta_effect [OF Cons.prems]
  show ?case using Cons.IH [OF A(1)] A(3) [of ch k 10] by simp
qed

lemma apply_tens_pending:
  "delta_inv d \<Longrightarrow> pending (foldl (\<lambda>d key. ApplyDelta ch key 10 d) d ks) k
    = pending d k + 10 * of_nat (count (mset ks) k)"
proof (induction ks arbitrary: d)
  case Nil
  then show ?case by simp
next
  case (Cons a ks)
  note A = ApplyDelta_effect [OF Cons.prems]
  show ?case using Cons.IH [OF A(1)] A(2) [of ch a 10] by (simp add: algebra_simps)
qed

lemma pending_Reset: "pending (ResetTxCount d) = pending d"
  by (simp add: pending_def ResetTxCount_def cell_def fun_eq_iff split: option.splits)

lemma delta_inv_Reset: "delta_inv d \<Longrightarrow> delta_inv (ResetTxCount d)"
  by (simp add: delta_inv_def ResetTxCount_def cell_def)

subsection \<open>Properties\<close>

text \<open>
  The benchmark performs exactly the transactions it was asked for: for positive numbers of
  transactions and workers and every interleaving of the workers, the reported total is the
  requested one and each account has grown by ten per call on it, so the load test program never
  stops on a wrong count.
\<close>

theorem benchmark_counts_all:
  assumes "0 < totalTx" and "totalTx < 2 ^ 63" and "0 < workers" and "\<And>ks. mset (sched ks) = mset ks"
    and "delta_inv d"
  shows "uint (br_TotalTx (fst (Run256WorkerBenchmark sched dur totalTx workers d))) = totalTx
    \<and> pending (snd (Run256WorkerBenchmark sched dur totalTx workers d)) k
       = pending d k + 10 * of_nat (count (mset (concat (map (worker_keys (nat totalTx) (nat workers)) [0..<nat workers]))) k)
    \<and> loadtest_main sched dur totalTx workers \<noteq> None"
proof -
  let ?ks = "concat (map (worker_keys (nat totalTx) (nat workers)) [0..<nat workers])"
  let ?run = "\<lambda>d. foldl (\<lambda>d key. ApplyDelta ''channel1'' key 10 d) (ResetTxCount d) (sched ?ks)"
  have len: "length (sched ?ks) = nat totalTx"
    using assms(3) all_keys_length [of "nat workers" "nat totalTx"] assms(4) [of ?ks] by (metis size_mset zero_less_nat_eq)
  have cnt: "GetTxCount (?run d') = of_int totalTx" if "delta_inv d'" for d'
    using apply_tens_count [OF delta_inv_Reset [OF that]] len assms(1) by (simp add: GetTxCount_def ResetTxCount_def)
  have u: "uint (of_int totalTx :: u64) = totalTx" using assms(1,2) by (simp add: uint_word_of_int)
  have s: "sint (of_int totalTx :: u64) = totalTx" using assms(1,2) by (intro sint_of_int_i64) simp_all
  have R: "Run256WorkerBenchmark sched dur totalTx workers d'
      = (\<lparr>br_TotalTx = GetTxCount (?run d'), br_Duration = dur, br_WorkerCount = workers\<rparr>, ?run d')" for d'
    using assms(1,3) by (simp add: Run256WorkerBenchmark_def Let_def)
  have "pending (?run d) k = pending d k + 10 * of_nat (count (mset ?ks) k)"
    using apply_tens_pending [OF delta_inv_Reset [OF assms(5)]] assms(4) by (simp add: pending_Reset)
  moreover have "loadtest_main sched dur totalTx workers \<noteq> None"
    using assms(1,3) cnt [OF delta_inv_New] s by (simp add: loadtest_main_def R)
  ultimately show ?thesis using cnt [OF assms(5)] u by (simp add: R)
qed

theorem benchmark_counts_all_witness:
  "uint (br_TotalTx (fst (Run256WorkerBenchmark rev 1 100000 256 New_Delta))) = 100000
    \<and> loadtest_main rev 1 100000 256 \<noteq> None"
  using benchmark_counts_all [of 100000 256 rev New_Delta 1] delta_inv_New by simp

end
