(* ===== verification/Delta_Aggregator.thy ===== *)
theory Delta_Aggregator
  imports State_Engine
begin

text \<open>
  The batching writer of \<^verbatim>\<open>pkg/delta/aggregator.go\<close>: a bounded channel of pairs and the
  flusher goroutines, each with a batch of its own; the \<^verbatim>\<open>select\<close> of a flusher is a step for
  each of its three cases. A step that would
  block is \<open>None\<close>. The channel is buffered, that is \<^verbatim>\<open>bufferSize\<close> is positive.
\<close>

record AggTx =
  ag_Key :: string
  ag_Value :: string

record 'db Aggregator =
  ag_chan :: "AggTx list"
  ag_cap :: nat
  ag_batches :: "(string, bytes option) gomap list"
  ag_engine :: "'db StateEngine"
  ag_db :: 'db
  ag_done :: bool

definition NewAggregator :: "'db StateEngine \<Rightarrow> 'db \<Rightarrow> nat \<Rightarrow> 'db Aggregator" where
  "NewAggregator e db bufferSize =
     \<lparr>ag_chan = [], ag_cap = bufferSize, ag_batches = [], ag_engine = e, ag_db = db, ag_done = False\<rparr>"

definition agg_Submit :: "string \<Rightarrow> string \<Rightarrow> 'db Aggregator \<Rightarrow> 'db Aggregator option" where
  "agg_Submit key val a =
     (if length (ag_chan a) < ag_cap a then Some (a\<lparr>ag_chan := ag_chan a @ [\<lparr>ag_Key = key, ag_Value = val\<rparr>]\<rparr>)
      else None)"

definition StartFlushers :: "nat \<Rightarrow> 'db Aggregator \<Rightarrow> 'db Aggregator" where
  "StartFlushers numFlushers a = a\<lparr>ag_batches := ag_batches a @ replicate numFlushers []\<rparr>"

text \<open>A write to the engine: its error is discarded and the batch is replaced by an empty one.\<close>

definition agg_flush :: "nat \<Rightarrow> 'db Aggregator \<Rightarrow> 'db Aggregator" where
  "agg_flush i a =
     a\<lparr>ag_db := snd (se_BatchWrite (ag_engine a) ''channel1'' (ag_batches a ! i) (ag_db a)),
       ag_batches := (ag_batches a)[i := []]\<rparr>"

definition agg_recv :: "nat \<Rightarrow> 'db Aggregator \<Rightarrow> 'db Aggregator option" where
  "agg_recv i a =
     (if ag_done a \<or> i \<ge> length (ag_batches a) then None
      else case ag_chan a of
             [] \<Rightarrow> None
           | tx # rest \<Rightarrow>
               (let b = AList.update (ag_Key tx) (Some (ag_Value tx)) (ag_batches a ! i);
                    a' = a\<lparr>ag_chan := rest, ag_batches := (ag_batches a)[i := b]\<rparr>
                in Some (if length b \<ge> 1000 then agg_flush i a' else a')))"

definition agg_tick :: "nat \<Rightarrow> 'db Aggregator \<Rightarrow> 'db Aggregator option" where
  "agg_tick i a =
     (if ag_done a \<or> i \<ge> length (ag_batches a) then None
      else Some (if length (ag_batches a ! i) > 0 then agg_flush i a else a))"

definition agg_cancel :: "'db Aggregator \<Rightarrow> 'db Aggregator" where
  "agg_cancel a = a\<lparr>ag_done := True\<rparr>"

datatype agg_event = ASubmit string string | ARecv nat | ATick nat

fun agg_step :: "agg_event \<Rightarrow> 'db Aggregator \<Rightarrow> 'db Aggregator option" where
  "agg_step (ASubmit k v) a = agg_Submit k v a"
| "agg_step (ARecv i) a = agg_recv i a"
| "agg_step (ATick i) a = agg_tick i a"

text \<open>A schedule: an event that would block is not taken.\<close>

fun agg_run :: "agg_event list \<Rightarrow> 'db Aggregator \<Rightarrow> (string \<times> string) list \<times> 'db Aggregator" where
  "agg_run [] a = ([], a)"
| "agg_run (e # es) a =
     (case agg_step e a of
        None \<Rightarrow> agg_run es a
      | Some a' \<Rightarrow>
          (case agg_run es a' of
             (acc, a'') \<Rightarrow> ((case e of ASubmit k v \<Rightarrow> [(k, v)] | _ \<Rightarrow> []) @ acc, a'')))"

subsection \<open>The pipeline of channel, batch and engine\<close>

definition tx_cells :: "AggTx list \<Rightarrow> (string \<times> bytes option) list" where
  "tx_cells txs = map (\<lambda>tx. (ag_Key tx, Some (ag_Value tx))) txs"

definition pair_cells :: "(string \<times> string) list \<Rightarrow> (string \<times> bytes option) list" where
  "pair_cells ps = map (\<lambda>(k, v). (k, Some v)) ps"

lemma write_cells_append: "write_cells a (xs @ ys) f = write_cells a ys (write_cells a xs f)"
  by (induction xs arbitrary: f) auto

lemma write_cells_update:
  assumes "inj a" and "gm_ok m"
  shows "write_cells a (AList.update k v m) f = (write_cells a m f)(a k := v)"
proof
  fix c
  show "write_cells a (AList.update k v m) f c = ((write_cells a m f)(a k := v)) c"
  proof (cases "c \<in> range a")
    case True
    then obtain j where c: "c = a j" by blast
    have "a j = a k \<longleftrightarrow> j = k" using assms(1) by (auto dest: injD)
    then show ?thesis
      using assms by (simp add: c write_cells_at gm_ok_update gm_lookup_update split: option.splits)
  next
    case False
    then have "c \<notin> a ` gm_keys (AList.update k v m)" "c \<notin> a ` gm_keys m" "c \<noteq> a k" by auto
    then show ?thesis by (metis write_cells_other fun_upd_other)
  qed
qed

context state_engine
begin

text \<open>
  What the engine will hold once the batch and then the channel are written: the cells of the
  engine, overwritten by the batch, overwritten by the queued pairs.
\<close>

definition agg_view :: "'db Aggregator \<Rightarrow> 'a \<Rightarrow> bytes option" where
  "agg_view a = write_cells (addr ''channel1'') (ag_batches a ! 0 @ tx_cells (ag_chan a)) (view (ag_db a))"

definition agg_inv :: "'db Aggregator \<Rightarrow> bool" where
  "agg_inv a \<longleftrightarrow> ag_engine a = E \<and> length (ag_batches a) = 1 \<and> gm_ok (ag_batches a ! 0)
     \<and> length (ag_chan a) \<le> ag_cap a \<and> length (ag_batches a ! 0) < 1000"

lemma agg_flush_view:
  assumes "\<And>ch ups db. fst (se_BatchWrite E ch ups db) = None" and "ag_engine a = E" and "length (ag_batches a) = 1"
  shows "agg_view (agg_flush 0 a) = agg_view a"
proof -
  have "se_BatchWrite E ''channel1'' (ag_batches a ! 0) (ag_db a) = (None, ag_db (agg_flush 0 a))"
    using assms by (simp add: agg_flush_def prod_eq_iff)
  then have v: "view (ag_db (agg_flush 0 a)) = write_cells (addr ''channel1'') (ag_batches a ! 0) (view (ag_db a))"
    by (rule batch_ok)
  have "ag_batches (agg_flush 0 a) ! 0 = []" "ag_chan (agg_flush 0 a) = ag_chan a"
    using assms(3) by (simp_all add: agg_flush_def)
  with v show ?thesis by (simp add: agg_view_def write_cells_append)
qed

lemma agg_step_view:
  assumes "\<And>ch ups db. fst (se_BatchWrite E ch ups db) = None" and "agg_inv a" and "agg_step e a = Some a'"
  shows "agg_inv a' \<and> agg_view a' = write_cells (addr ''channel1'')
      (case e of ASubmit k v \<Rightarrow> [(k, Some v)] | _ \<Rightarrow> []) (agg_view a)"
proof (cases e)
  case (ASubmit k v)
  with assms(2,3) show ?thesis
    by (auto simp: agg_Submit_def agg_inv_def agg_view_def tx_cells_def write_cells_append split: if_splits)
next
  case (ARecv i)
  obtain tx rest where c: "ag_chan a = tx # rest" and i: "i = 0"
    using assms(2,3) ARecv by (auto simp: agg_recv_def agg_inv_def split: if_splits list.splits)
  let ?b = "AList.update (ag_Key tx) (Some (ag_Value tx)) (ag_batches a ! 0)"
  let ?a = "a\<lparr>ag_chan := rest, ag_batches := (ag_batches a)[0 := ?b]\<rparr>"
  have a': "a' = (if length ?b \<ge> 1000 then agg_flush 0 ?a else ?a)"
    using assms(3) ARecv c i by (auto simp: agg_recv_def Let_def split: if_splits)
  have "agg_view ?a = agg_view a"
    using assms(2) write_cells_update [OF addr_inj, of "ag_batches a ! 0" "''channel1''" "ag_Key tx"]
    by (simp add: agg_view_def agg_inv_def write_cells_append c tx_cells_def)
  then have v: "agg_view a' = agg_view a"
    using agg_flush_view [OF assms(1), of ?a] assms(2) by (simp add: a' agg_inv_def)
  have "agg_inv a'"
    using assms(2) gm_ok_update [of "ag_batches a ! 0"] c by (auto simp: a' agg_inv_def agg_flush_def)
  with v ARecv show ?thesis by simp
next
  case (ATick i)
  have "i = 0" using assms(2,3) ATick by (auto simp: agg_tick_def agg_inv_def split: if_splits)
  then show ?thesis
    using ATick assms agg_flush_view [OF assms(1), of a]
    by (auto simp: agg_tick_def agg_inv_def agg_flush_def split: if_splits)
qed

lemma agg_run_view:
  assumes "\<And>ch ups db. fst (se_BatchWrite E ch ups db) = None"
  shows "agg_inv a \<Longrightarrow> agg_run es a = (acc, a') \<Longrightarrow>
    agg_inv a' \<and> agg_view a' = write_cells (addr ''channel1'') (pair_cells acc) (agg_view a)"
proof (induction es arbitrary: a acc)
  case Nil
  then show ?case by (simp add: pair_cells_def)
next
  case (Cons e es)
  show ?case
  proof (cases "agg_step e a")
    case None
    then show ?thesis using Cons by simp
  next
    case (Some a1)
    obtain acc1 where r: "agg_run es a1 = (acc1, a')" "acc = (case e of ASubmit k v \<Rightarrow> [(k, v)] | _ \<Rightarrow> []) @ acc1"
      using Cons.prems(2) Some by (auto split: prod.splits)
    note S = agg_step_view [OF assms Cons.prems(1) Some]
    then have "agg_inv a1" by blast
    from Cons.IH [OF this r(1)] S r(2) show ?thesis
      by (cases e) (simp_all del: fun_upd_apply add: pair_cells_def)
  qed
qed

end

subsection \<open>Properties\<close>

text \<open>
  With one flusher the engine ends with the last value submitted for every key: over every
  schedule of submissions, receptions and ticks on the in-memory engine, the stored cells
  overwritten by the open batch and then by the channel are the initial cells overwritten by the
  accepted submissions in their order; the batch stays under a thousand entries and the channel
  within its capacity. Once both are empty, the store is exactly that.
\<close>

theorem aggregator_last_write:
  assumes "agg_run es (StartFlushers 1 (NewAggregator Memory m n)) = (acc, a)"
  shows "write_cells (mem_key ''channel1'') (ag_batches a ! 0 @ tx_cells (ag_chan a)) (mem_view (ag_db a))
      = write_cells (mem_key ''channel1'') (pair_cells acc) (mem_view m)
    \<and> length (ag_batches a ! 0) < 1000 \<and> length (ag_chan a) \<le> ag_cap a"
proof -
  have "mem.agg_inv (StartFlushers 1 (NewAggregator Memory m n))"
    by (simp add: mem.agg_inv_def NewAggregator_def StartFlushers_def)
  from mem.agg_run_view [OF mem_never_fails(2) this assms] show ?thesis
    by (simp add: mem.agg_view_def mem.agg_inv_def NewAggregator_def StartFlushers_def tx_cells_def)
qed

theorem aggregator_last_write_witness:
  "\<exists>acc a. agg_run [ASubmit ''k'' ''1'', ASubmit ''k'' ''2'', ARecv 0, ATick 0, ARecv 0, ATick 0]
        (StartFlushers 1 (NewAggregator Memory New_Memory 10)) = (acc, a)
    \<and> write_cells (mem_key ''channel1'') (ag_batches a ! 0 @ tx_cells (ag_chan a)) (mem_view (ag_db a))
      = write_cells (mem_key ''channel1'') (pair_cells acc) (mem_view New_Memory)"
proof -
  obtain acc a where r: "agg_run [ASubmit ''k'' ''1'', ASubmit ''k'' ''2'', ARecv 0, ATick 0, ARecv 0, ATick 0]
        (StartFlushers 1 (NewAggregator Memory New_Memory 10)) = (acc, a)" by force
  from aggregator_last_write [OF r] r show ?thesis by blast
qed

end
