(* ===== verification/V2_Wal_Faults.thy ===== *)
theory V2_Wal_Faults
  imports V2_Recovery
begin

text \<open>
  Three faults at the boundary of \<^verbatim>\<open>Submit\<close> and the log of \<^verbatim>\<open>pkg/v2\<close>. The log stores a
  transaction as JSON, which keeps only valid UTF-8; \<^verbatim>\<open>ValidateTx\<close> restricts the identifier
  but not the key. A key that is no valid UTF-8 is stored with a checksum of the text that was
  written and read back as a different key, so the checksum does not match and the log is refused
  as a whole. And a record whose sync fails stays in the file although the caller was told that
  the submission failed, so recovery executes it. And the abort marker of a submission refused by a
  full queue also erases the record of an accepted transaction with the same identifier.
\<close>

subsection \<open>What is read back of a prepare record\<close>

definition clean_tx :: "Tx \<Rightarrow> Tx" where
  "clean_tx tx = tx\<lparr>tx_Key := clean_utf8 (tx_Key tx)\<rparr>"

lemma b64_valid [simp]: "utf8_valid (b64_encode b)"
  using utf8_valid_ascii b64_encode_plain by blast

lemma clean_marshal_Tx: "utf8_valid (tx_ID tx) \<Longrightarrow> clean_json (marshal_Tx tx) = marshal_Tx (clean_tx tx)"
  by (simp add: marshal_Tx_def clean_tx_def clean_utf8_id split: option.split)

lemma clean_prepare:
  "utf8_valid (tx_ID tx) \<Longrightarrow> clean_json (JObj (record_members (prepare_record tx)))
     = JObj (record_members ((prepare_record tx)\<lparr>wr_Tx := clean_tx tx\<rparr>))"
  by (simp add: record_members_def prepare_record_def clean_marshal_Tx clean_utf8_id)

lemma nums_prepare: "nums_ok (JObj (record_members (prepare_record tx)))"
  by (auto simp: record_members_def prepare_record_def marshal_Tx_def split: option.split)

lemma unmarshal_prepare:
  assumes "utf8_valid (tx_ID tx)" and "- (2 ^ 63) \<le> tx_Partition tx" and "tx_Partition tx < 2 ^ 63"
  shows "unmarshal_WALRecord (marshal_WALRecord (prepare_record tx)) = Some ((prepare_record tx)\<lparr>wr_Tx := clean_tx tx\<rparr>)"
    and "unmarshal_WALRecord (marshal_WALRecord (prepare_record tx) @ [CHR 0x0A]) = Some ((prepare_record tx)\<lparr>wr_Tx := clean_tx tx\<rparr>)"
proof -
  have "record_ok ((prepare_record tx)\<lparr>wr_Tx := clean_tx tx\<rparr>)"
    using assms by (simp add: record_ok_def tx_ok_def prepare_record_def clean_tx_def clean_utf8_valid)
  note d = dec_record_marshal [OF this]
  show "unmarshal_WALRecord (marshal_WALRecord (prepare_record tx)) = Some ((prepare_record tx)\<lparr>wr_Tx := clean_tx tx\<rparr>)"
    unfolding unmarshal_WALRecord_def marshal_WALRecord_def parse_json_print_clean [OF nums_prepare]
      clean_prepare [OF assms(1)] option.case by (rule d)
  have "parse_json (print_json (JObj (record_members (prepare_record tx))) @ [CHR 0x0A])
      = Some (clean_json (JObj (record_members (prepare_record tx))))"
    using parse_print_clean(1) [OF nums_prepare, of tx _ "[CHR 0x0A]"]
    by (simp add: parse_json_def is_num_def is_ws_def del: print_json.simps clean_json.simps)
  then show "unmarshal_WALRecord (marshal_WALRecord (prepare_record tx) @ [CHR 0x0A]) = Some ((prepare_record tx)\<lparr>wr_Tx := clean_tx tx\<rparr>)"
    unfolding unmarshal_WALRecord_def marshal_WALRecord_def clean_prepare [OF assms(1)] by (simp add: d del: print_json.simps)
qed


subsection \<open>A record whose checksum does not match\<close>

text \<open>The checksum was computed from the transaction, the comparison uses what was read.\<close>

definition key_survives :: "Tx \<Rightarrow> bool" where
  "key_survives tx \<longleftrightarrow> recordChecksum ''prepare'' (clean_tx tx) '''' = recordChecksum ''prepare'' tx ''''"

lemma prepare_line:
  "CHR 0x0A \<notin> set (marshal_WALRecord (prepare_record tx))" "marshal_WALRecord (prepare_record tx) \<noteq> []"
  "TrimSpace (marshal_WALRecord (prepare_record tx) @ [CHR 0x0A]) = marshal_WALRecord (prepare_record tx)"
proof -
  obtain t where t: "print_json (JObj (record_members (prepare_record tx))) = CHR ''{'' # t @ ''}''"
    using print_obj_ends by blast
  show "CHR 0x0A \<notin> set (marshal_WALRecord (prepare_record tx))"
    unfolding marshal_WALRecord_def by (rule print_no_nl(1) [OF nums_prepare])
  show "marshal_WALRecord (prepare_record tx) \<noteq> []" by (simp add: marshal_WALRecord_def t del: print_json.simps)
  show "TrimSpace (marshal_WALRecord (prepare_record tx) @ [CHR 0x0A]) = marshal_WALRecord (prepare_record tx)"
    unfolding marshal_WALRecord_def t by (rule TrimSpace_line)
qed

lemma bad_line_refused:
  assumes "utf8_valid (tx_ID tx)" and "- (2 ^ 63) \<le> tx_Partition tx" and "tx_Partition tx < 2 ^ 63"
    and "\<not> key_survives tx"
  shows "replay_lines ((marshal_WALRecord (prepare_record tx) @ [CHR 0x0A]) # ls) p = Inl ErrWALCorrupt"
    and "scan_lines ((marshal_WALRecord (prepare_record tx) @ [CHR 0x0A]) # ls) ids = Inl ErrWALCorrupt"
  using assms(4) prepare_line [of tx] unmarshal_prepare [OF assms(1-3)]
  by (simp_all add: apply_record_def scan_line_def prepare_record_def key_survives_def)

lemma bad_record_refused:
  assumes "\<forall>op \<in> set (pre @ post). op_ok op"
    and bad: "utf8_valid (tx_ID tx)" "- (2 ^ 63) \<le> tx_Partition tx" "tx_Partition tx < 2 ^ 63" "\<not> key_survives tx"
  shows "Replay it rd_ok (log_of s (pre @ WPrepare tx # post) []) = Inl ErrWALCorrupt"
    and "ReplayIDs rd_ok (log_of s (pre @ WPrepare tx # post) []) = Inl ErrWALCorrupt"
proof -
  let ?line = "\<lambda>op. marshal_WALRecord (op_record op) @ [CHR 0x0A]"
  have ok: "\<forall>op \<in> set pre. op_ok op" using assms(1) by simp
  have "\<forall>r \<in> set (map op_record (pre @ WPrepare tx # post)). CHR 0x0A \<notin> set (marshal_WALRecord r)"
    using assms(1) wal.enc_line [OF record_ok_op] prepare_line(1) by auto
  from read_lines_log [OF this, of "[]"]
  have rl: "read_lines (log_bytes marshal_WALRecord (map op_record (pre @ WPrepare tx # post)))
      = (map ?line pre @ ?line (WPrepare tx) # map ?line post, [])"
    by (simp add: o_def)
  show "Replay it rd_ok (log_of s (pre @ WPrepare tx # post) []) = Inl ErrWALCorrupt"
    using replay_lines_ops [OF ok, of "[]"] bad_line_refused(1) [OF bad]
    by (simp add: Replay_def log_of_def rd_ok_def rd_data_def rl [simplified] replay_lines_append o_def)
  show "ReplayIDs rd_ok (log_of s (pre @ WPrepare tx # post) []) = Inl ErrWALCorrupt"
    using scan_lines_ops [OF ok, of "[]"] bad_line_refused(2) [OF bad]
    by (simp add: ReplayIDs_def log_of_def rd_ok_def rd_data_def rl [simplified] scan_lines_append o_def)
qed

definition tx_ff :: Tx where
  "tx_ff = \<lparr>tx_ID = ''x'', tx_Key = [CHR 0xFF], tx_Payload = None, tx_Partition = 0, tx_Sequence = 1\<rparr>"

definition tx_ok1 :: Tx where
  "tx_ok1 = tx_ff\<lparr>tx_Key := ''k''\<rparr>"

lemma tx_ff_breaks: "\<not> key_survives tx_ff"
  by code_simp

subsection \<open>Properties\<close>

text \<open>
  C19 A prepare record is read back as it was written, up to the key: for every transaction with a valid
  identifier and a partition within an int, decoding the encoded record gives its kind, checksum,
  identifier, payload, partition and sequence number back, and the whole record exactly when the key
  is valid UTF-8.
\<close>

theorem wal_record_roundtrip:
  assumes "utf8_valid (tx_ID tx)" and "- (2 ^ 63) \<le> tx_Partition tx" and "tx_Partition tx < 2 ^ 63"
  shows "\<exists>r. unmarshal_WALRecord (marshal_WALRecord (prepare_record tx)) = Some r
     \<and> wr_Kind r = ''prepare'' \<and> wr_Checksum r = recordChecksum ''prepare'' tx [] \<and> tx_ID (wr_Tx r) = tx_ID tx
     \<and> tx_Payload (wr_Tx r) = tx_Payload tx \<and> tx_Partition (wr_Tx r) = tx_Partition tx
     \<and> tx_Sequence (wr_Tx r) = tx_Sequence tx \<and> (r = prepare_record tx \<longleftrightarrow> utf8_valid (tx_Key tx))"
proof -
  let ?r = "(prepare_record tx)\<lparr>wr_Tx := clean_tx tx\<rparr>"
  have "clean_utf8 (tx_Key tx) = tx_Key tx \<longleftrightarrow> utf8_valid (tx_Key tx)"
    using clean_utf8_valid [of "tx_Key tx"] clean_utf8_id [of "tx_Key tx"] by metis
  moreover have "?r = prepare_record tx \<longleftrightarrow> clean_utf8 (tx_Key tx) = tx_Key tx"
    by (cases tx) (simp add: prepare_record_def clean_tx_def)
  ultimately show ?thesis using unmarshal_prepare(1) [OF assms]
    by (intro exI [of _ ?r]) (simp add: prepare_record_def clean_tx_def)
qed

theorem wal_record_roundtrip_witness:
  "\<exists>r. unmarshal_WALRecord (marshal_WALRecord (prepare_record tx_ff)) = Some r \<and> r \<noteq> prepare_record tx_ff
     \<and> tx_ID (wr_Tx r) = ''x''"
proof -
  have "\<not> utf8_valid (tx_Key tx_ff)" by code_simp
  with wal_record_roundtrip [of tx_ff] show ?thesis by (auto simp: tx_ff_def utf8_valid_ascii)
qed

text \<open>
  C20 A key that is not valid UTF-8 disables recovery: if Submit accepts a transaction whose stored key
  is read back with another checksum, then whatever was logged before and is logged afterwards, every
  later recovery, with or without a ledger, fails with ErrWALCorrupt, replays nothing and leaves the
  pipeline as it is.
\<close>

theorem bad_key_disables_recovery:
  assumes "pipe_inv p" and "int (length (p_parts p)) < 2 ^ 63"
    and "p_wal p = log_of s pre []" and "\<forall>op \<in> set (pre @ post). op_ok op"
    and "se_append env = io_ok" and "Submit env tx p = Some ((k, None), p')"
    and "\<not> key_survives (tx\<lparr>tx_Partition := k, tx_Sequence := pt_seq (p_parts p ! nat k) + 1\<rparr>)"
    and "re_ids_io renv = rd_ok"
  shows "recoverTransactions l renv (p'\<lparr>p_wal := wal_run post (p_wal p')\<rparr>)
     = Some ((zero_report, Some ErrWALCorrupt), p'\<lparr>p_wal := wal_run post (p_wal p')\<rparr>)"
proof -
  let ?tx = "tx\<lparr>tx_Partition := k, tx_Sequence := pt_seq (p_parts p ! nat k) + 1\<rparr>"
  have a: "0 \<le> k" "accepted env tx (nat k) p p'" using Submit_effects [OF assms(1), of env tx] assms(6) by fastforce+
  then have v: "ValidateTx tx (MaxPayloadBytes (p_cfg p)) = None" "k < int (length (p_parts p))"
      "wal_Append (se_append env) ?tx (p_wal p) = (None, p_wal p')"
    by (auto simp: accepted_def numbered_def)
  have w: "p_wal p' = log_of s (pre @ [WPrepare ?tx]) []"
    using v(3) log_of_append [of "WPrepare ?tx"] assms(3,5) by simp
  have "utf8_valid (tx_ID ?tx)" "- (2 ^ 63) \<le> tx_Partition ?tx" "tx_Partition ?tx < 2 ^ 63"
    using valid_id_utf8 [OF v(1)] a(1) v(2) assms(2) by simp_all
  from bad_record_refused(2) [OF assms(4) this assms(7), of s]
  have "ReplayIDs rd_ok (wal_run post (p_wal p')) = Inl ErrWALCorrupt"
    unfolding w wal_run_log_of by simp
  moreover have "wal_run post (p_wal p') \<noteq> None" unfolding w wal_run_log_of by (simp add: log_of_def)
  ultimately show ?thesis using assms(8) by (simp add: recoverTransactions_def)
qed

definition pipe1_log :: Pipeline where
  "pipe1_log = pipe1\<lparr>p_wal := log_of True [] []\<rparr>"

lemma pipe1_log_inv: "pipe_inv pipe1_log"
  using NewPipeline_inv(1) [OF pipe1_new] by (simp add: pipe1_log_def pipe_inv_def)

lemma submit_fresh:
  assumes "tx_ID tx = ''x''" and "slice_len (tx_Payload tx) = 0" and "se_ctx env = None"
  obtains d where "ValidateTx tx (MaxPayloadBytes (p_cfg pipe1_log)) = None" and "p_accepting pipe1_log"
    and "SeenOrAdd (tx_ID tx) (se_now env) (p_dedup pipe1_log) = Some (False, d)"
    and "Submit env tx pipe1_log = Some (submit_push env 0 (tx\<lparr>tx_Partition := 0, tx_Sequence := 1\<rparr>)
        (set_seq 0 1 (pipe1_log\<lparr>p_dedup := d\<rparr>)))"
proof -
  have v: "ValidateTx tx (MaxPayloadBytes (p_cfg pipe1_log)) = None"
    using assms(1,2) by (simp add: ValidateTx_def pipe1_log_def pipe1_fields cfg1_def id_rune_ok_def)
  have "shard_index ''x'' < 32" by simp
  then obtain d where d: "SeenOrAdd (tx_ID tx) (se_now env) (p_dedup pipe1_log) = Some (False, d)"
    using assms(1)
    by (simp add: SeenOrAdd_def shard_SeenOrAdd_def expireLocked_def dedup_128_def pipe1_log_def pipe1_fields)
  have "Submit env tx pipe1_log = Some (submit_push env 0 (tx\<lparr>tx_Partition := 0, tx_Sequence := 1\<rparr>)
        (set_seq 0 1 (pipe1_log\<lparr>p_dedup := d\<rparr>)))"
    using v d assms(3) by (simp add: Submit_def pipe1_log_def pipe1_fields pipe1_part0 Partition_def Let_def)
  with v d show ?thesis by (intro that) (simp_all add: pipe1_log_def pipe1_fields)
qed

theorem bad_key_disables_recovery_witness:
  "\<exists>p'. Submit env0 tx_ff pipe1_log = Some ((0, None), p')
     \<and> recoverTransactions None renv0 (p'\<lparr>p_wal := wal_run [WPrepare tx_a, WCommit ''a''] (p_wal p')\<rparr>)
         = Some ((zero_report, Some ErrWALCorrupt), p'\<lparr>p_wal := wal_run [WPrepare tx_a, WCommit ''a''] (p_wal p')\<rparr>)"
proof -
  obtain d where "Submit env0 tx_ff pipe1_log = Some (submit_push env0 0 (tx_ff\<lparr>tx_Partition := 0, tx_Sequence := 1\<rparr>)
        (set_seq 0 1 (pipe1_log\<lparr>p_dedup := d\<rparr>)))"
    using submit_fresh [of tx_ff env0] by (auto simp: tx_ff_def slice_len_def env0_def)
  then obtain p' where s: "Submit env0 tx_ff pipe1_log = Some ((0, None), p')"
    using log_of_append [of "WPrepare (tx_ff\<lparr>tx_Partition := 0, tx_Sequence := 1\<rparr>)" True "[]"]
    by (simp add: submit_push_def env0_def pipe1_log_def pipe1_part0 set_seq_def Push_def Let_def)
  have k: "\<not> key_survives (tx_ff\<lparr>tx_Partition := 0, tx_Sequence := pt_seq (p_parts pipe1_log ! nat 0) + 1\<rparr>)"
    using tx_ff_breaks by (simp add: pipe1_log_def pipe1_part0 tx_ff_def)
  have "recoverTransactions None renv0 (p'\<lparr>p_wal := wal_run [WPrepare tx_a, WCommit ''a''] (p_wal p')\<rparr>)
         = Some ((zero_report, Some ErrWALCorrupt), p'\<lparr>p_wal := wal_run [WPrepare tx_a, WCommit ''a''] (p_wal p')\<rparr>)"
    by (rule bad_key_disables_recovery [OF pipe1_log_inv _ _ _ _ s k, of True "[]"])
      (simp_all add: pipe1_log_def pipe1_part0 env0_def renv0_def example_txs_ok)
  with s show ?thesis by blast
qed



text \<open>
  C21 An abort erases an accepted transaction: when the deduplication table no longer knows an
  identifier, because its time-to-live ended or it was evicted, and the queue of the key is full,
  Submit refuses the transaction and changes no queue, but its abort marker removes every earlier
  transaction with that identifier from what the log replays, and nothing else.
\<close>

theorem refused_reuse_erases_record:
  assumes "pipe_inv p" and "int (length (p_parts p)) < 2 ^ 63"
    and "p_wal p = log_of s ops []" and "\<forall>op \<in> set ops. op_ok op" and "utf8_valid (tx_Key tx)"
    and "se_append env = io_ok" and "se_abort env = io_ok" and "se_ctx env = None"
    and "ValidateTx tx (MaxPayloadBytes (p_cfg p)) = None" and "p_accepting p"
    and "SeenOrAdd (tx_ID tx) (se_now env) (p_dedup p) = Some (False, d)"
    and "Push tx (part_q p (nat (Partition (p_router p) (tx_Key tx)))) = Inl ErrQueueFull"
    and "\<And>xs. mset (it xs) = mset xs"
  shows "\<exists>p' out. Submit env tx p = Some ((Partition (p_router p) (tx_Key tx), Some ErrQueueFull), p')
     \<and> (\<forall>i < length (p_parts p). part_q p' i = part_q p i)
     \<and> Replay it rd_ok (p_wal p') = Inr out \<and> set out = {t \<in> unresolved ops. tx_ID t \<noteq> tx_ID tx}"
proof -
  let ?i = "nat (Partition (p_router p) (tx_Key tx))"
  let ?t = "numbered tx ?i p"
  let ?p1 = "set_seq ?i (pt_seq (p_parts p ! ?i) + 1) (p\<lparr>p_dedup := d\<rparr>)"
  have i: "?i < length (p_parts p)" "int ?i = Partition (p_router p) (tx_Key tx)"
    using partition_index [OF assms(1)] by simp_all
  have id: "tx_ID ?t = tx_ID tx" by (simp add: numbered_def)
  have "int ?i < 2 ^ 63" using i(1) assms(2) by linarith
  then have ok: "\<forall>op \<in> set (ops @ [WPrepare ?t, WAbort (tx_ID tx)]). op_ok op"
    using assms(4,5) valid_id_utf8 [OF assms(9)] by (auto simp: tx_ok_def numbered_def)
  have full: "Push ?t (part_q ?p1 ?i) = Inl ErrQueueFull"
    using assms(12) i(1) by (auto simp: Push_def set_seq_def split: if_splits)
  have a: "wal_Append (se_append env) ?t (p_wal p) = (None, log_of s (ops @ [WPrepare ?t]) [])"
      "wal_Abort (se_abort env) (tx_ID tx) (log_of s (ops @ [WPrepare ?t]) [])
         = (None, log_of s (ops @ [WPrepare ?t, WAbort (tx_ID tx)]) [])"
    using log_of_append [of "WPrepare ?t" s ops] log_of_append [of "WAbort (tx_ID tx)" s "ops @ [WPrepare ?t]"] assms(3,6,7)
    by simp_all
  let ?q = "submit_push env ?i ?t ?p1"
  have s: "Submit env tx p = Some ?q"
    using assms(8-11) by (simp add: Submit_def numbered_def Let_def)
  have q: "fst ?q = (int ?i, Some ErrQueueFull)" "p_wal (snd ?q) = log_of s (ops @ [WPrepare ?t, WAbort (tx_ID tx)]) []"
      "p_parts (snd ?q) = p_parts ?p1"
    using a full id by (simp_all add: submit_push_def upd_metrics_def Let_def)
  have "part_q (snd ?q) j = part_q p j" if "j < length (p_parts p)" for j
    using that i q(3) by (cases "j = ?i") (simp_all add: set_seq_def)
  moreover obtain out where "Replay it rd_ok (p_wal (snd ?q)) = Inr out"
      "set out = unresolved (ops @ [WPrepare ?t, WAbort (tx_ID tx)])"
    unfolding q(2) by (rule pending_sorted [OF ok assms(13), of s])
  moreover have "unresolved (ops @ [WPrepare ?t, WAbort (tx_ID tx)]) = {t \<in> unresolved ops. tx_ID t \<noteq> tx_ID tx}"
    using unresolved_snoc [of _ "ops @ [WPrepare ?t]" "WAbort (tx_ID tx)"] unresolved_snoc [of _ ops "WPrepare ?t"] id
    by auto
  moreover have "Submit env tx p = Some ((Partition (p_router p) (tx_Key tx), Some ErrQueueFull), snd ?q)"
    using s q(1) i(2) by (simp add: prod_eq_iff)
  ultimately show ?thesis by blast
qed

theorem refused_reuse_erases_record_witness:
  "\<exists>p t p' out. Submit env0 tx_ok1 pipe1_log = Some ((0, None), p) \<and> q_items (part_q p 0) = [t]
     \<and> Submit (env0\<lparr>se_now := 11\<rparr>) tx_ok1 p = Some ((0, Some ErrQueueFull), p')
     \<and> part_q p' 0 = part_q p 0 \<and> Replay rev rd_ok (p_wal p') = Inr out \<and> t \<notin> set out"
proof -
  let ?t = "tx_ok1\<lparr>tx_Partition := 0, tx_Sequence := 1\<rparr>" and ?env = "env0\<lparr>se_now := 11\<rparr>"
  obtain d where d: "SeenOrAdd (tx_ID tx_ok1) (se_now env0) (p_dedup pipe1_log) = Some (False, d)"
      "Submit env0 tx_ok1 pipe1_log = Some (submit_push env0 0 ?t (set_seq 0 1 (pipe1_log\<lparr>p_dedup := d\<rparr>)))"
    using submit_fresh [of tx_ok1 env0] by (auto simp: tx_ok1_def tx_ff_def slice_len_def env0_def)
  then obtain p where s: "Submit env0 tx_ok1 pipe1_log = Some ((0, None), p)" "p_dedup p = d"
      "p_parts p = [\<lparr>pt_q = \<lparr>q_items = [?t], q_cap = 1, q_closed = False, q_notify = True, q_depth = 1\<rparr>, pt_seq = 1\<rparr>]"
      "p_wal p = log_of True [WPrepare ?t] []" "p_cfg p = cfg1" "p_router p = \<lparr>r_partitions = 1\<rparr>" "p_accepting p"
    using log_of_append [of "WPrepare ?t" True "[]"]
    by (simp add: submit_push_def env0_def pipe1_log_def pipe1_part0 pipe1_fields set_seq_def set_q_def Push_def
        upd_metrics_def Let_def)
  have "shard_index ''x'' < 32" by simp
  then have "\<exists>d'. SeenOrAdd ''x'' 11 d = Some (False, d')" using d(1)
    by (auto simp: SeenOrAdd_def shard_SeenOrAdd_def expireLocked_def dedup_128_def pipe1_log_def pipe1_fields tx_ok1_def tx_ff_def env0_def)
  then obtain d' where d': "SeenOrAdd (tx_ID tx_ok1) (se_now ?env) (p_dedup p) = Some (False, d')"
    using s(2) by (auto simp: tx_ok1_def tx_ff_def)
  have inv: "pipe_inv p" using Submit_effects [OF pipe1_log_inv, of env0 tx_ok1] s(1) by fastforce
  have h: "int (length (p_parts p)) < 2 ^ 63" "\<forall>op \<in> set [WPrepare ?t]. op_ok op" "utf8_valid (tx_Key tx_ok1)"
      "se_append ?env = io_ok" "se_abort ?env = io_ok" "se_ctx ?env = None"
      "ValidateTx tx_ok1 (MaxPayloadBytes (p_cfg p)) = None"
      "Push tx_ok1 (part_q p (nat (Partition (p_router p) (tx_Key tx_ok1)))) = Inl ErrQueueFull"
    using s(3,5,6)
    by (simp_all add: env0_def tx_ok_def tx_ok1_def tx_ff_def utf8_valid_ascii ValidateTx_def cfg1_def id_rune_ok_def Push_def
        Partition_def slice_len_def)
  from refused_reuse_erases_record [OF inv h(1) s(4) h(2-7) s(7) d' h(8), of rev] s(1,3,6)
  show ?thesis by (auto simp: Partition_def)
qed

end
