(* ===== verification/Fabric_Gateway.thy ===== *)
theory Fabric_Gateway
  imports Go_Strings V2_Recovery V2_Committer "HOL-Library.List_Lexorder" "HOL-Library.Char_ord"
begin

text \<open>
  The Hyperledger Fabric backend: the chaincode of \<^verbatim>\<open>chaincode/chaincode.go\<close> and the gateway
  client of \<^verbatim>\<open>integration/fabric-gateway/backend.go\<close>, which implements the two interfaces of
  \<^verbatim>\<open>pkg/v2\<close> that the pipeline and recovery use. The chaincode stub, the gateway client, gRPC,
  the file system and the decoder of PEM blocks are parameters. What the backend relies on is the
  locale \<open>fabric_network\<close>; it is interpreted on a network that runs the chaincode of this theory.
\<close>

subsection \<open>The chaincode\<close>

record 'st Stub =
  st_CreateCompositeKey :: "string \<Rightarrow> string list \<Rightarrow> string + string"
  st_GetState :: "string \<Rightarrow> 'st \<Rightarrow> string + bytes option"
  st_PutState :: "string \<Rightarrow> bytes \<Rightarrow> 'st \<Rightarrow> string option \<times> 'st"

definition cc_Commit :: "'st Stub \<Rightarrow> string \<Rightarrow> string \<Rightarrow> 'st \<Rightarrow> string option \<times> 'st" where
  "cc_Commit stub hedTxID payload s =
     (if hedTxID = '''' then (Some ''HED transaction ID is required'', s)
      else case st_CreateCompositeKey stub ''HEDTx'' [hedTxID] of
             Inl e \<Rightarrow> (Some (''create HED transaction key: '' @ e), s)
           | Inr key \<Rightarrow>
               (case st_GetState stub key s of
                  Inl e \<Rightarrow> (Some (''read HED transaction '' @ hedTxID @ '': '' @ e), s)
                | Inr (Some existing) \<Rightarrow> (None, s)
                | Inr None \<Rightarrow>
                    (case st_PutState stub key payload s of
                       (Some e, s') \<Rightarrow> (Some (''write HED transaction '' @ hedTxID @ '': '' @ e), s')
                     | (None, s') \<Rightarrow> (None, s'))))"

definition cc_GetByHEDID :: "'st Stub \<Rightarrow> string \<Rightarrow> 'st \<Rightarrow> string + string" where
  "cc_GetByHEDID stub hedTxID s =
     (if hedTxID = '''' then Inl ''HED transaction ID is required''
      else case st_CreateCompositeKey stub ''HEDTx'' [hedTxID] of
             Inl e \<Rightarrow> Inl (''create HED transaction key: '' @ e)
           | Inr key \<Rightarrow>
               (case st_GetState stub key s of
                  Inl e \<Rightarrow> Inl e
                | Inr None \<Rightarrow> Inr ''''
                | Inr (Some v) \<Rightarrow> Inr v))"

subsection \<open>Configuration\<close>

record FabricConfig =
  MSPID :: string
  CertPath :: string
  KeyPath :: string
  TLSCertPath :: string
  PeerEndpoint :: string
  GatewayPeer :: string
  fc_Channel :: string
  fc_Chaincode :: string
  fc_Function :: string
  SubmitTimeout :: duration
  fc_CommitTimeout :: duration

definition fc_Validate :: "FabricConfig \<Rightarrow> string option" where
  "fc_Validate c =
     (if MSPID c = '''' \<or> CertPath c = '''' \<or> KeyPath c = '''' \<or> TLSCertPath c = '''' \<or> PeerEndpoint c = ''''
        \<or> GatewayPeer c = '''' \<or> fc_Channel c = '''' \<or> fc_Chaincode c = '''' \<or> fc_Function c = ''''
      then Some ''invalid Fabric Gateway configuration'' else None)"

definition DefaultConfigFromEnv :: "(string \<Rightarrow> string) \<Rightarrow> FabricConfig" where
  "DefaultConfigFromEnv env =
     \<lparr>MSPID = env ''FABRIC_MSP_ID'', CertPath = env ''FABRIC_CERT_PATH'', KeyPath = env ''FABRIC_KEY_PATH'',
      TLSCertPath = env ''FABRIC_TLS_CERT_PATH'', PeerEndpoint = env ''FABRIC_PEER_ENDPOINT'',
      GatewayPeer = env ''FABRIC_GATEWAY_PEER'', fc_Channel = env ''FABRIC_CHANNEL'',
      fc_Chaincode = env ''FABRIC_CHAINCODE'', fc_Function = env ''FABRIC_FUNCTION'',
      SubmitTimeout = 5 * Second, fc_CommitTimeout = Minute\<rparr>"

text \<open>Joining of clean path elements.\<close>

definition DefaultLocalConfig :: "string \<Rightarrow> FabricConfig" where
  "DefaultLocalConfig root =
     \<lparr>MSPID = ''Org1MSP'',
      CertPath = filepath_Join [root, ''organizations/peerOrganizations/org1.example.com/users/User1@org1.example.com/msp/signcerts''],
      KeyPath = filepath_Join [root, ''organizations/peerOrganizations/org1.example.com/users/User1@org1.example.com/msp/keystore''],
      TLSCertPath = filepath_Join [root, ''organizations/peerOrganizations/org1.example.com/peers/peer0.org1.example.com/tls/ca.crt''],
      PeerEndpoint = ''dns:///localhost:7051'', GatewayPeer = ''peer0.org1.example.com'',
      fc_Channel = ''mychannel'', fc_Chaincode = ''hed'', fc_Function = ''Commit'',
      SubmitTimeout = 5 * Second, fc_CommitTimeout = Minute\<rparr>"

subsection \<open>Reading credentials\<close>

text \<open>
  The file system: whether a path is a directory, the content of a file, the entries of a directory
  with whether each is one. \<open>dec\<close> is the block decoder: the type of the first block and the rest.
\<close>

record file_system =
  fs_Stat :: "string \<Rightarrow> string + bool"
  fs_ReadFile :: "string \<Rightarrow> string + bytes"
  fs_ReadDir :: "string \<Rightarrow> string + (string \<times> bool) list"

type_synonym pem_decoder = "bytes \<Rightarrow> (string \<times> bytes) option"

fun pem_scan :: "nat \<Rightarrow> pem_decoder \<Rightarrow> string list \<Rightarrow> bytes \<Rightarrow> bool option" where
  "pem_scan 0 dec types rest = None"
| "pem_scan (Suc n) dec types rest =
     (if rest = [] then Some False
      else case dec rest of
             None \<Rightarrow> Some False
           | Some (typ, next) \<Rightarrow> if typ \<in> set types then Some True else pem_scan n dec types next)"

text \<open>A decoder that consumes what it decodes ends the loop within one round per byte.\<close>

definition pemHasType :: "pem_decoder \<Rightarrow> bytes \<Rightarrow> string list \<Rightarrow> bool" where
  "pemHasType dec data types = (pem_scan (Suc (length data)) dec types data = Some True)"

fun first_pem :: "file_system \<Rightarrow> pem_decoder \<Rightarrow> string list \<Rightarrow> string \<Rightarrow> string list \<Rightarrow> bytes option" where
  "first_pem fs dec types path [] = None"
| "first_pem fs dec types path (name # names) =
     (case fs_ReadFile fs (filepath_Join [path, name]) of
        Inl e \<Rightarrow> first_pem fs dec types path names
      | Inr data \<Rightarrow> if types = [] \<or> pemHasType dec data types then Some data
                    else first_pem fs dec types path names)"

text \<open>The verb \<^verbatim>\<open>%q\<close> on a path without characters to escape.\<close>

definition readPEM :: "file_system \<Rightarrow> pem_decoder \<Rightarrow> string \<Rightarrow> string list \<Rightarrow> string + bytes" where
  "readPEM fs dec path types =
     (case fs_Stat fs path of
        Inl e \<Rightarrow> Inl e
      | Inr isdir \<Rightarrow>
          if \<not> isdir
          then (case fs_ReadFile fs path of
                  Inl e \<Rightarrow> Inl e
                | Inr data \<Rightarrow>
                    if types \<noteq> [] \<and> \<not> pemHasType dec data types
                    then Inl (''PEM file '' @ go_quote path @ '' does not contain an expected block'')
                    else Inr data)
          else (case fs_ReadDir fs path of
                  Inl e \<Rightarrow> Inl e
                | Inr entries \<Rightarrow>
                    (case first_pem fs dec types path (sort (map fst (filter (\<lambda>e. \<not> snd e) entries))) of
                       Some data \<Rightarrow> Inr data
                     | None \<Rightarrow> Inl (''no suitable PEM file found in '' @ go_quote path))))"

subsection \<open>Opening the backend\<close>

text \<open>The client libraries: parsing of credentials, the connection, and the gateway.\<close>

record ('cert, 'conn, 'ident, 'key, 'sign, 'gw) fabric_lib =
  fl_CertificateFromPEM :: "bytes \<Rightarrow> string + 'cert"
  fl_NewClient :: "string \<Rightarrow> 'cert \<Rightarrow> string \<Rightarrow> string + 'conn"
  fl_NewX509Identity :: "string \<Rightarrow> 'cert \<Rightarrow> string + 'ident"
  fl_PrivateKeyFromPEM :: "bytes \<Rightarrow> string + 'key"
  fl_NewPrivateKeySign :: "'key \<Rightarrow> string + 'sign"
  fl_Connect :: "'ident \<Rightarrow> 'sign \<Rightarrow> 'conn \<Rightarrow> duration \<Rightarrow> duration \<Rightarrow> string + 'gw"

record ('conn, 'gw) Backend =
  be_gateway :: 'gw
  be_contract :: "(string \<times> string) option"
  be_conn :: 'conn
  be_cfg :: FabricConfig

text \<open>The first component of the result lists the connections that were closed on the way.\<close>

definition fg_New ::
  "file_system \<Rightarrow> pem_decoder \<Rightarrow> ('cert, 'conn, 'ident, 'key, 'sign, 'gw) fabric_lib \<Rightarrow> FabricConfig
   \<Rightarrow> 'conn list \<times> (string + ('conn, 'gw) Backend)" where
  "fg_New fs dec lib cfg0 =
     (case fc_Validate cfg0 of
        Some e \<Rightarrow> ([], Inl e)
      | None \<Rightarrow>
       (let cfg1 = (if SubmitTimeout cfg0 \<le> 0 then cfg0\<lparr>SubmitTimeout := 5 * Second\<rparr> else cfg0);
            cfg = (if fc_CommitTimeout cfg1 \<le> 0 then cfg1\<lparr>fc_CommitTimeout := Minute\<rparr> else cfg1)
        in case readPEM fs dec (TLSCertPath cfg) [''CERTIFICATE''] of
             Inl e \<Rightarrow> ([], Inl (''read TLS certificate: '' @ e))
           | Inr pem \<Rightarrow>
        (case fl_CertificateFromPEM lib pem of
             Inl e \<Rightarrow> ([], Inl (''parse TLS certificate: '' @ e))
           | Inr cert \<Rightarrow>
        (case fl_NewClient lib (PeerEndpoint cfg) cert (GatewayPeer cfg) of
             Inl e \<Rightarrow> ([], Inl (''create Fabric gRPC client: '' @ e))
           | Inr conn \<Rightarrow>
        (case readPEM fs dec (CertPath cfg) [''CERTIFICATE''] of
             Inl e \<Rightarrow> ([conn], Inl (''read identity certificate: '' @ e))
           | Inr pem2 \<Rightarrow>
        (case fl_CertificateFromPEM lib pem2 of
             Inl e \<Rightarrow> ([conn], Inl (''parse identity certificate: '' @ e))
           | Inr xcert \<Rightarrow>
        (case fl_NewX509Identity lib (MSPID cfg) xcert of
             Inl e \<Rightarrow> ([conn], Inl (''create Fabric identity: '' @ e))
           | Inr idt \<Rightarrow>
        (case readPEM fs dec (KeyPath cfg) [''PRIVATE KEY'', ''RSA PRIVATE KEY'', ''EC PRIVATE KEY''] of
             Inl e \<Rightarrow> ([conn], Inl (''read identity private key: '' @ e))
           | Inr pem3 \<Rightarrow>
        (case fl_PrivateKeyFromPEM lib pem3 of
             Inl e \<Rightarrow> ([conn], Inl (''parse identity private key: '' @ e))
           | Inr key \<Rightarrow>
        (case fl_NewPrivateKeySign lib key of
             Inl e \<Rightarrow> ([conn], Inl (''create Fabric signer: '' @ e))
           | Inr sgn' \<Rightarrow>
        (case fl_Connect lib idt sgn' conn (SubmitTimeout cfg) (fc_CommitTimeout cfg) of
             Inl e \<Rightarrow> ([conn], Inl (''connect Fabric Gateway: '' @ e))
           | Inr gw \<Rightarrow>
               ([], Inr \<lparr>be_gateway = gw, be_contract = Some (fc_Channel cfg, fc_Chaincode cfg),
                         be_conn = conn, be_cfg = cfg\<rparr>))))))))))))"

subsection \<open>Committing and asking for the status\<close>

record CommitStatus =
  cs_Successful :: bool
  cs_Code :: int
  cs_TransactionID :: string

text \<open>
  A contract on a ledger state: a submission fails, or is sent and its confirmation fails, or is
  confirmed with a status; an evaluation reads.
\<close>

record 'led Contract =
  gc_Submit :: "string \<Rightarrow> string list \<Rightarrow> 'led \<Rightarrow> (string + (string + CommitStatus)) \<times> 'led"
  gc_Evaluate :: "string \<Rightarrow> string list \<Rightarrow> 'led \<Rightarrow> string + bytes"

definition fg_Commit ::
  "err option \<Rightarrow> FabricConfig \<Rightarrow> 'led Contract option \<Rightarrow> Tx \<Rightarrow> 'led \<Rightarrow> err option \<times> 'led" where
  "fg_Commit ctx cfg contract tx led =
     (case ctx of
        Some e \<Rightarrow> (Some e, led)
      | None \<Rightarrow>
          (case contract of
             None \<Rightarrow> (Some (ErrOther ''Fabric Gateway backend is not initialized''), led)
           | Some c \<Rightarrow>
               (case gc_Submit c (fc_Function cfg)
                       [tx_ID tx, case tx_Payload tx of None \<Rightarrow> '''' | Some p \<Rightarrow> p] led of
                  (Inl e, led') \<Rightarrow>
                    (Some (Wrapped (''Fabric submission failed for HED tx '' @ tx_ID tx) (ErrOther e)), led')
                | (Inr (Inl e), led') \<Rightarrow>
                    (Some (Wrapped (''Fabric commit confirmation failed for HED tx '' @ tx_ID tx) (ErrOther e)), led')
                | (Inr (Inr st), led') \<Rightarrow>
                    if \<not> cs_Successful st
                    then (Some (ErrOther (''Fabric ledger rejected HED tx '' @ tx_ID tx @ '': validation_code=''
                            @ show_int (cs_Code st) @ '' fabric_tx_id='' @ cs_TransactionID st)), led')
                    else (None, led'))))"

definition fg_Status :: "err option \<Rightarrow> 'led Contract option \<Rightarrow> string \<Rightarrow> 'led \<Rightarrow> LedgerTxStatus \<times> err option" where
  "fg_Status ctx contract txID led =
     (case contract of
        None \<Rightarrow> (LedgerUnknown, Some (ErrOther ''Fabric Gateway backend is not initialized''))
      | Some c \<Rightarrow>
          (case ctx of
             Some e \<Rightarrow> (LedgerUnknown, Some e)
           | None \<Rightarrow>
               (case gc_Evaluate c ''GetByHEDID'' [txID] led of
                  Inl e \<Rightarrow>
                    (LedgerUnknown, Some (Wrapped (''Fabric ledger status query failed for HED tx '' @ txID) (ErrOther e)))
                | Inr result \<Rightarrow> if length result = 0 then (LedgerNotCommitted, None) else (LedgerCommitted, None))))"

text \<open>
  The backend as the pipeline's committer sees it: its state is the ledger and what the context of
  each further attempt reports.
\<close>

definition fabric_backend :: "FabricConfig \<Rightarrow> 'led Contract \<Rightarrow> (err option list \<times> 'led) backend" where
  "fabric_backend cfg c b tx =
     (case b of (ctxs, led) \<Rightarrow>
        (case fg_Commit (case ctxs of [] \<Rightarrow> None | cx # _ \<Rightarrow> cx) cfg (Some c) tx led of
           (r, led') \<Rightarrow> (r, (tl ctxs, led'))))"

text \<open>Closing: the gateway, then the connection, whose error is returned; a nil backend has neither.\<close>

definition fg_Close :: "('conn \<Rightarrow> string option) \<Rightarrow> ('conn, 'gw) Backend option \<Rightarrow> string option" where
  "fg_Close closeConn b = (case b of None \<Rightarrow> None | Some bk \<Rightarrow> closeConn (be_conn bk))"

subsection \<open>Lemmas on opening\<close>

text \<open>An error after the connection was made closes it, once; otherwise no connection is closed.\<close>

lemma fg_New_closes:
  "fg_New fs dec lib cfg = (closed, r) \<Longrightarrow> length closed \<le> 1 \<and> (\<forall>b. r = Inr b \<longrightarrow> closed = [])"
  unfolding fg_New_def Let_def by (auto split: option.splits sum.splits)

lemma fg_New_timeouts:
  assumes "fg_New fs dec lib cfg = (closed, Inr b)"
  shows "fc_Validate cfg = None \<and> 0 < SubmitTimeout (be_cfg b) \<and> 0 < fc_CommitTimeout (be_cfg b)
    \<and> be_contract b = Some (fc_Channel cfg, fc_Chaincode cfg)"
  using assms unfolding fg_New_def Let_def
  by (auto simp: Second_def Minute_def split: option.splits sum.splits if_splits)

text \<open>The choice of a credential does not depend on the order in which a directory is listed.\<close>

lemma readPEM_order:
  assumes "mset es = mset es'"
  shows "readPEM (fs\<lparr>fs_ReadDir := (fs_ReadDir fs)(path := Inr es)\<rparr>) dec path types
    = readPEM (fs\<lparr>fs_ReadDir := (fs_ReadDir fs)(path := Inr es')\<rparr>) dec path types"
proof -
  have "mset (map fst (filter (\<lambda>e. \<not> snd e) es)) = mset (map fst (filter (\<lambda>e. \<not> snd e) es'))"
    using assms by simp
  then have "sort (map fst (filter (\<lambda>e. \<not> snd e) es)) = sort (map fst (filter (\<lambda>e. \<not> snd e) es'))"
    by (metis mset_sort properties_for_sort sorted_sort)
  moreover have "first_pem (fs\<lparr>fs_ReadDir := x\<rparr>) dec types path ns = first_pem fs dec types path ns" for x ns
    by (induction ns) (simp_all split: sum.splits)
  ultimately show ?thesis by (simp add: readPEM_def split: sum.splits)
qed

lemma pem_scan_ends:
  assumes "\<And>r t n. dec r = Some (t, n) \<Longrightarrow> length n < length r"
  shows "length data < k \<Longrightarrow> pem_scan k dec types data \<noteq> None"
proof (induction k arbitrary: data)
  case 0
  then show ?case by simp
next
  case (Suc k)
  show ?case using Suc assms by (fastforce split: option.splits)
qed

subsection \<open>The contract of the network\<close>

text \<open>What the chaincode does to the payloads recorded per identifier: the first one stays.\<close>

definition record_first :: "string \<Rightarrow> bytes \<Rightarrow> (string \<Rightarrow> bytes option) \<Rightarrow> string \<Rightarrow> bytes option" where
  "record_first txID p v = (if v txID = None then v(txID := Some p) else v)"

lemma record_first_idem: "record_first txID p (record_first txID q v) = record_first txID q v"
  by (auto simp: record_first_def)

text \<open>The bytes of a payload; those of a nil slice are none.\<close>

abbreviation tx_bytes :: "Tx \<Rightarrow> bytes" where
  "tx_bytes tx \<equiv> (case tx_Payload tx of None \<Rightarrow> [] | Some p \<Rightarrow> p)"

text \<open>
  A submission whose effect reaches the ledger runs the chaincode; one that is confirmed as
  successful has reached it; one that fails may have.
\<close>

locale fabric_network =
  fixes C :: "'led Contract"
    and view :: "'led \<Rightarrow> string \<Rightarrow> bytes option"
  assumes submit_runs: "\<lbrakk>txID \<noteq> ''''; gc_Submit C ''Commit'' [txID, p] led = (r, led')\<rbrakk>
      \<Longrightarrow> view led' = view led \<or> view led' = record_first txID p (view led)"
    and submit_confirmed: "\<lbrakk>txID \<noteq> ''''; gc_Submit C ''Commit'' [txID, p] led = (Inr (Inr st), led'); cs_Successful st\<rbrakk>
      \<Longrightarrow> view led' = record_first txID p (view led)"
    and evaluate_reads: "txID \<noteq> '''' \<Longrightarrow> gc_Evaluate C ''GetByHEDID'' [txID] led
      = Inr (case view led txID of None \<Rightarrow> [] | Some p \<Rightarrow> p)"
begin

lemma one_commit:
  assumes "tx_ID tx \<noteq> ''''" and "fc_Function cfg = ''Commit''" and "fg_Commit ctx cfg (Some C) tx led = (r, led')"
  shows "(view led' = view led \<or> view led' = record_first (tx_ID tx) (tx_bytes tx) (view led))
    \<and> (r = None \<longrightarrow> view led' = record_first (tx_ID tx) (tx_bytes tx) (view led))"
proof (cases ctx)
  case (Some e)
  then show ?thesis using assms(3) by (auto simp: fg_Commit_def)
next
  case None
  obtain s led1 where s: "gc_Submit C ''Commit'' [tx_ID tx, tx_bytes tx] led = (s, led1)" by force
  have l: "led' = led1" and ok: "r = None \<Longrightarrow> \<exists>st. s = Inr (Inr st) \<and> cs_Successful st"
    using assms(2,3) None s by (auto simp: fg_Commit_def split: sum.splits if_splits)
  show ?thesis
    using submit_runs [OF assms(1) s] submit_confirmed [OF assms(1)] s ok l by blast
qed

text \<open>The retrying committer on top: any number of attempts records the payload at most once.\<close>

lemma one_backend_commit:
  assumes "tx_ID tx \<noteq> []" and "fc_Function cfg = ''Commit''" and "fabric_backend cfg C b tx = (r, b')"
  shows "(view (snd b') = view (snd b) \<or> view (snd b') = record_first (tx_ID tx) (tx_bytes tx) (view (snd b)))
    \<and> (r = None \<longrightarrow> view (snd b') = record_first (tx_ID tx) (tx_bytes tx) (view (snd b)))"
proof -
  obtain ctxs led where b: "b = (ctxs, led)" by force
  obtain led' where c: "fg_Commit (case ctxs of [] \<Rightarrow> None | cx # _ \<Rightarrow> cx) cfg (Some C) tx led = (r, led')"
      "b' = (tl ctxs, led')"
    using assms(3) by (auto simp: fabric_backend_def b split: prod.splits)
  show ?thesis using one_commit [OF assms(1,2) c(1)] by (simp add: b c(2))
qed

lemma retried_commit:
  assumes "tx_ID tx \<noteq> []" and "fc_Function cfg = ''Commit''"
  shows "commit_loop (fabric_backend cfg C) cx pol tx k a wait ret b = (r, tr, ret', b')
    \<Longrightarrow> (view (snd b') = view (snd b) \<or> view (snd b') = record_first (tx_ID tx) (tx_bytes tx) (view (snd b)))
      \<and> (0 < k \<longrightarrow> r = None \<longrightarrow> view (snd b') = record_first (tx_ID tx) (tx_bytes tx) (view (snd b)))"
proof (induction k arbitrary: a wait ret b tr)
  case 0
  then show ?case by simp
next
  case (Suc k)
  obtain r1 b1 where c: "fabric_backend cfg C b tx = (r1, b1)" by (metis surj_pair)
  note one = one_backend_commit [OF assms c]
  show ?case
  proof (cases "\<exists>e. r1 = Some e \<and> \<not> errors_As_Permanent e \<and> k \<noteq> 0 \<and> \<not> cx a")
    case False
    then have "b' = b1" "r = None \<longrightarrow> r1 = None"
      using Suc.prems c by (auto split: option.splits if_splits)
    then show ?thesis using one by blast
  next
    case True
    then obtain tr1 where l: "commit_loop (fabric_backend cfg C) cx pol tx k (Suc a)
        (next_backoff pol wait) (ret + 1) b1 = (r, tr1, ret', b')"
      using Suc.prems c by (auto split: option.splits if_splits prod.splits)
    from Suc.IH [OF l] one True show ?thesis
      by (auto simp: record_first_idem)
  qed
qed

text \<open>The same for a whole call of the committer.\<close>

lemma committed:
  assumes "tx_ID tx \<noteq> []" and "fc_Function cfg = ''Commit''" and "0 < MaxAttempts (c_policy c)"
    and "committer_Commit (Some (fabric_backend cfg C)) cx tx c b = ((r, tr), c', b')"
  shows "(view (snd b') = view (snd b) \<or> view (snd b') = record_first (tx_ID tx) (tx_bytes tx) (view (snd b)))
    \<and> (r = None \<longrightarrow> view (snd b') = record_first (tx_ID tx) (tx_bytes tx) (view (snd b)))
    \<and> c_policy c' = c_policy c"
proof -
  obtain ret where l: "commit_loop (fabric_backend cfg C) cx (c_policy c) tx
      (nat (MaxAttempts (c_policy c))) 1 (InitialBackoff (c_policy c)) (c_retries c) b = (r, tr, ret, b')"
    and c': "c' = c\<lparr>c_retries := ret\<rparr>"
    using assms(4) by (auto simp: committer_Commit_def split: prod.splits)
  have "0 < nat (MaxAttempts (c_policy c))" using assms(3) by simp
  with retried_commit [OF assms(1,2) l] c' show ?thesis by simp
qed

lemma status_reads:
  "txID \<noteq> '''' \<Longrightarrow> fg_Status None (Some C) txID led =
     (if view led txID = None \<or> view led txID = Some [] then LedgerNotCommitted else LedgerCommitted, None)"
  by (auto simp: fg_Status_def evaluate_reads split: option.splits)

end

subsection \<open>A network that runs the chaincode\<close>

text \<open>
  The world state is a map; composite keys are the type and attributes between zero bytes. The
  script says what becomes of each submission: it is lost before it is ordered, its confirmation is
  lost after it was committed, it is invalidated, or it is committed. An empty script commits.
\<close>

datatype fate = LostBefore | LostAfter | Invalidated | Committed

record hed_ledger =
  hl_state :: "(string, bytes) gomap"
  hl_fates :: "fate list"

definition composite_key :: "string \<Rightarrow> string list \<Rightarrow> string" where
  "composite_key typ attrs = char_of (0 :: nat) # typ @ [char_of (0 :: nat)] @ concat (map (\<lambda>a. a @ [char_of (0 :: nat)]) attrs)"

definition map_stub :: "(string, bytes) gomap Stub" where
  "map_stub = \<lparr>st_CreateCompositeKey = \<lambda>t as. Inr (composite_key t as),
     st_GetState = \<lambda>k s. Inr (map_of s k), st_PutState = \<lambda>k v s. (None, AList.update k v s)\<rparr>"

definition run_chaincode :: "string list \<Rightarrow> hed_ledger \<Rightarrow> hed_ledger" where
  "run_chaincode as l =
     (case as of [txID, p] \<Rightarrow> l\<lparr>hl_state := snd (cc_Commit map_stub txID p (hl_state l))\<rparr> | _ \<Rightarrow> l)"

definition hed_contract :: "hed_ledger Contract" where
  "hed_contract = \<lparr>
     gc_Submit = \<lambda>f as l.
       (case hl_fates l of
          LostBefore # fs \<Rightarrow> (Inl ''unavailable'', l\<lparr>hl_fates := fs\<rparr>)
        | LostAfter # fs \<Rightarrow> (Inr (Inl ''deadline exceeded''), (run_chaincode as l)\<lparr>hl_fates := fs\<rparr>)
        | Invalidated # fs \<Rightarrow>
            (Inr (Inr \<lparr>cs_Successful = False, cs_Code = 11, cs_TransactionID = ''t''\<rparr>), l\<lparr>hl_fates := fs\<rparr>)
        | _ \<Rightarrow> (Inr (Inr \<lparr>cs_Successful = True, cs_Code = 0, cs_TransactionID = ''t''\<rparr>),
               (run_chaincode as l)\<lparr>hl_fates := tl (hl_fates l)\<rparr>)),
     gc_Evaluate = \<lambda>f as l. (case as of [txID] \<Rightarrow> cc_GetByHEDID map_stub txID (hl_state l) | _ \<Rightarrow> Inl ''bad arguments'')\<rparr>"

definition hed_view :: "hed_ledger \<Rightarrow> string \<Rightarrow> bytes option" where
  "hed_view l txID = map_of (hl_state l) (composite_key ''HEDTx'' [txID])"

lemma composite_key_inj: "composite_key ''HEDTx'' [a] = composite_key ''HEDTx'' [b] \<longleftrightarrow> a = b"
  by (simp add: composite_key_def)

lemma hed_view_fates [simp]: "hed_view (l\<lparr>hl_fates := fs\<rparr>) = hed_view l"
  by (simp add: hed_view_def fun_eq_iff)

lemma run_chaincode_view:
  "txID \<noteq> '''' \<Longrightarrow> hed_view (run_chaincode [txID, p] l) = record_first txID p (hed_view l)"
  by (auto simp: run_chaincode_def cc_Commit_def map_stub_def hed_view_def record_first_def fun_eq_iff
      composite_key_inj gm_lookup_update split: option.splits)

interpretation hed: fabric_network hed_contract hed_view
proof
  show "txID \<noteq> '''' \<Longrightarrow> gc_Submit hed_contract ''Commit'' [txID, p] led = (r, led')
      \<Longrightarrow> hed_view led' = hed_view led \<or> hed_view led' = record_first txID p (hed_view led)" for txID p led r led'
    by (auto simp: hed_contract_def run_chaincode_view split: list.splits fate.splits)
  show "txID \<noteq> '''' \<Longrightarrow> gc_Submit hed_contract ''Commit'' [txID, p] led = (Inr (Inr st), led') \<Longrightarrow> cs_Successful st
      \<Longrightarrow> hed_view led' = record_first txID p (hed_view led)" for txID p led st led'
    by (auto simp: hed_contract_def run_chaincode_view split: list.splits fate.splits)
  show "txID \<noteq> '''' \<Longrightarrow> gc_Evaluate hed_contract ''GetByHEDID'' [txID] led
      = Inr (case hed_view led txID of None \<Rightarrow> [] | Some p \<Rightarrow> p)" for txID led
    by (simp add: hed_contract_def cc_GetByHEDID_def map_stub_def hed_view_def split: option.splits)
qed

subsection \<open>Properties\<close>

text \<open>
  C32 Committing to Fabric is idempotent across retries and lost confirmations: whatever becomes of the
  submissions, the pipeline's committer over the gateway backend leaves the ledger as it was or
  records the payload under the transaction ID if nothing was recorded there; when it reports
  success the ID is recorded; the other IDs never change. The status read back is COMMITTED exactly
  when a payload that is not empty is recorded, so a committed empty payload reads as NOT_COMMITTED.
\<close>

theorem fabric_commit_idempotent:
  assumes "tx_ID tx \<noteq> ''''" and "fc_Function cfg = ''Commit''" and "0 < MaxAttempts (c_policy c)"
    and "committer_Commit (Some (fabric_backend cfg hed_contract)) cx tx c (ctxs, led) = ((r, tr), c', ctxs', led')"
    and "p = (case tx_Payload tx of None \<Rightarrow> '''' | Some b \<Rightarrow> b)"
  shows "(hed_view led' = hed_view led \<or> hed_view led (tx_ID tx) = None \<and> hed_view led' = (hed_view led)(tx_ID tx := Some p))
    \<and> (r = None \<longrightarrow> hed_view led' (tx_ID tx) = (case hed_view led (tx_ID tx) of None \<Rightarrow> Some p | Some q \<Rightarrow> Some q))
    \<and> fg_Status None (Some hed_contract) (tx_ID tx) led' =
        (if hed_view led' (tx_ID tx) \<in> {None, Some []} then LedgerNotCommitted else LedgerCommitted, None)"
  using hed.committed [OF assms(1-4)] hed.status_reads [OF assms(1), of led'] assms(5)
  by (auto simp: record_first_def split: option.splits)

theorem fabric_commit_idempotent_witness:
  "\<exists>r tr c' ctxs' led'. committer_Commit (Some (fabric_backend (DefaultLocalConfig ''r'') hed_contract))
        (\<lambda>a. False) (zero_Tx\<lparr>tx_ID := ''a'', tx_Payload := Some ''p''\<rparr>)
        (NewCommitter (Retry DefaultConfig) 0) ([Some ErrContext], \<lparr>hl_state = [], hl_fates = [LostAfter, LostBefore]\<rparr>)
        = ((r, tr), c', ctxs', led')
    \<and> (r = None \<longrightarrow> hed_view led' ''a'' = Some ''p'')"
proof -
  let ?tx = "zero_Tx\<lparr>tx_ID := ''a'', tx_Payload := Some ''p''\<rparr>"
  let ?led = "\<lparr>hl_state = [], hl_fates = [LostAfter, LostBefore]\<rparr>"
  have h: "tx_ID ?tx \<noteq> ''''" "fc_Function (DefaultLocalConfig ''r'') = ''Commit''"
    "0 < MaxAttempts (c_policy (NewCommitter (Retry DefaultConfig) 0))"
    "''p'' = (case tx_Payload ?tx of None \<Rightarrow> '''' | Some b \<Rightarrow> b)"
    by (simp_all add: zero_Tx_def DefaultLocalConfig_def NewCommitter_def DefaultConfig_def)
  obtain r tr c' ctxs' led' where c: "committer_Commit (Some (fabric_backend (DefaultLocalConfig ''r'') hed_contract))
        (\<lambda>a. False) ?tx (NewCommitter (Retry DefaultConfig) 0) ([Some ErrContext], ?led) = ((r, tr), c', ctxs', led')"
    by (metis prod.collapse)
  have "hed_view ?led ''a'' = None" by (simp add: hed_view_def)
  with fabric_commit_idempotent [OF h(1-3) c h(4)] c show ?thesis by auto
qed

end
