(* ===== verification/Fabric_Engine.thy ===== *)
theory Fabric_Engine
  imports Fabric_Gateway V2_Engine
begin

text \<open>
  The v2 engine committing to Fabric, across a crash: the pipeline of \<open>V2_Pipeline\<close> with the gateway
  backend of \<open>Fabric_Gateway\<close>, then a restart on the log the crash left, and a recovery that asks the
  ledger. A write to the log is complete or leaves nothing; a record cut off in the middle is the
  subject of \<open>V2_Wal\<close>. A crash inside an operation leaves the log and the ledger of a run in which the
  remaining writes and submissions of that operation failed, so runs of whole operations cover it.
\<close>

subsection \<open>The log and the ledger\<close>

definition clean_io :: "wal_io \<Rightarrow> bool" where
  "clean_io io \<longleftrightarrow> (case io_write io of WriteOk \<Rightarrow> True | WriteFail n e \<Rightarrow> n = 0)"

lemma clean_write:
  assumes "clean_io io" and "wal_do io op (log_of s ops []) = (e, w)"
  shows "\<exists>new. w = log_of s (ops @ new) [] \<and> set new \<subseteq> {op} \<and> (e = None \<longrightarrow> new = [op])"
proof (cases "io_write io")
  case WriteOk
  then show ?thesis using assms
    by (intro exI [of _ "[op]"]) (auto simp: wal_do_eq log_of_def appendRecord_def Let_def log_bytes_def split: if_splits)
next
  case (WriteFail n e')
  then show ?thesis using assms
    by (intro exI [of _ "[]"]) (auto simp: clean_io_def wal_do_eq log_of_def appendRecord_def Let_def)
qed

text \<open>
  From one state to another the transactions \<open>txs\<close> were handed to the committer: the log grew by commit
  markers of some of them, each of which is on the ledger, and the ledger grew by payloads of some.
\<close>

definition flush_log ::
  "('led \<Rightarrow> string \<Rightarrow> bytes option) \<Rightarrow> Tx list \<Rightarrow> Pipeline \<times> 'c \<times> 'led \<Rightarrow> Pipeline \<times> 'c \<times> 'led \<Rightarrow> bool" where
  "flush_log view txs s s' \<longleftrightarrow> (case s of (p, cx, led) \<Rightarrow> case s' of (p', cx', led') \<Rightarrow>
     c_policy (p_committer p') = c_policy (p_committer p)
     \<and> (\<forall>sy ops. p_wal p = log_of sy ops [] \<longrightarrow> (\<exists>new. p_wal p' = log_of sy (ops @ new) []
          \<and> set new \<subseteq> WCommit ` tx_ID ` set txs \<and> (\<forall>i. WCommit i \<in> set new \<longrightarrow> view led' i \<noteq> None)))
     \<and> (\<forall>i v. view led i = Some v \<longrightarrow> view led' i = Some v)
     \<and> (\<forall>i v. view led' i = Some v \<longrightarrow> view led i = Some v \<or> (\<exists>t \<in> set txs. tx_ID t = i \<and> v = tx_bytes t)))"

lemma flush_log_frame:
  "p_wal p' = p_wal p \<Longrightarrow> p_committer p' = p_committer p \<Longrightarrow> flush_log view [] (p, b) (p', b)"
  by (cases b) (auto simp: flush_log_def intro!: exI [of _ "[]"])

lemma flush_log_trans:
  assumes "flush_log view txs s s1" and "flush_log view txs' s1 s2"
  shows "flush_log view (txs @ txs') s s2"
proof -
  obtain p cx led p1 cx1 led1 p2 cx2 led2 where s: "s = (p, cx, led)" "s1 = (p1, cx1, led1)" "s2 = (p2, cx2, led2)"
    by (metis prod_cases3)
  note a = assms(1) [unfolded flush_log_def s prod.case] and b = assms(2) [unfolded flush_log_def s prod.case]
  have mono: "view led i = Some v \<Longrightarrow> view led1 i = Some v" "view led1 i = Some v \<Longrightarrow> view led2 i = Some v" for i v
    using a b by blast+
  have "\<exists>new. p_wal p2 = log_of sy (ops @ new) [] \<and> set new \<subseteq> WCommit ` tx_ID ` set (txs @ txs')
      \<and> (\<forall>i. WCommit i \<in> set new \<longrightarrow> view led2 i \<noteq> None)" if w0: "p_wal p = log_of sy ops []" for sy ops
  proof -
    obtain n1 where n1: "p_wal p1 = log_of sy (ops @ n1) []" "set n1 \<subseteq> WCommit ` tx_ID ` set txs"
        "\<forall>i. WCommit i \<in> set n1 \<longrightarrow> view led1 i \<noteq> None"
      using a w0 by blast
    then obtain n2 where n2: "p_wal p2 = log_of sy ((ops @ n1) @ n2) []" "set n2 \<subseteq> WCommit ` tx_ID ` set txs'"
        "\<forall>i. WCommit i \<in> set n2 \<longrightarrow> view led2 i \<noteq> None"
      using b by blast
    have "\<forall>i. WCommit i \<in> set n1 \<longrightarrow> view led2 i \<noteq> None" using n1(3) mono(2) by (metis option.exhaust)
    then show ?thesis using n1(2) n2 by (intro exI [of _ "n1 @ n2"]) auto
  qed
  moreover have "\<forall>i v. view led2 i = Some v \<longrightarrow> view led i = Some v \<or> (\<exists>t \<in> set (txs @ txs'). tx_ID t = i \<and> v = tx_bytes t)"
    using a b by (metis Un_iff set_append)
  ultimately show ?thesis using a b mono unfolding flush_log_def s prod.case by simp
qed

lemma flush_log_then: "flush_log view txs s (p1, b) \<Longrightarrow> p_wal p2 = p_wal p1 \<Longrightarrow> p_committer p2 = p_committer p1
    \<Longrightarrow> flush_log view txs s (p2, b)"
  using flush_log_trans [of view txs s "(p1, b)" "[]" "(p2, b)"] flush_log_frame [of p2 p1 view b] by simp

lemma flush_log_first: "flush_log view txs (p1, b) s \<Longrightarrow> p_wal p1 = p_wal p \<Longrightarrow> p_committer p1 = p_committer p
    \<Longrightarrow> flush_log view txs (p, b) s"
  using flush_log_trans [of view "[]" "(p, b)" "(p1, b)" txs s] flush_log_frame [of p1 p view b] by simp

abbreviation policy_ok :: "Pipeline \<Rightarrow> bool" where
  "policy_ok p \<equiv> 0 < MaxAttempts (c_policy (p_committer p))"

lemma flush_log_policy: "flush_log view txs (p, b) (p', b') \<Longrightarrow> policy_ok p' = policy_ok p"
  by (auto simp: flush_log_def split: prod.splits)

lemma worked_ids:
  assumes "worked i txs p p'" and "\<forall>t \<in> set (q_items (part_q p i)). P t"
  shows "\<forall>t \<in> set txs. P t" and "\<forall>t \<in> set (q_items (part_q p' i)). P t"
proof -
  have "set (q_items (part_q p i)) = set txs \<union> set (q_items (part_q p' i))"
    using assms(1) by (metis worked_def set_append)
  then show "\<forall>t \<in> set txs. P t" and "\<forall>t \<in> set (q_items (part_q p' i)). P t" using assms(2) by auto
qed

lemma flush_tx_fields:
  assumes "committer_Commit be (fe_ctx env) tx (p_committer p) b = ((r, tr), c, b')"
    and "wal_Commit (fe_io env) (tx_ID tx) (p_wal p) = (e, w)"
  shows "\<exists>p'. flush_tx be i env tx (p, b) = (p', b') \<and> p_committer p' = c \<and> p_wal p' = (if r = None then w else p_wal p)"
  using assms by (cases r; cases e) (simp_all add: flush_tx_def Let_def upd_metrics_def)

context fabric_network
begin

lemma flush_tx_log:
  assumes "tx_ID tx \<noteq> []" and "fc_Function cfg = ''Commit''" and "policy_ok p" and "clean_io (fe_io env)"
  shows "flush_log view [tx] (p, b) (flush_tx (Some (fabric_backend cfg C)) i env tx (p, b))"
proof -
  obtain r tr c b' where c: "committer_Commit (Some (fabric_backend cfg C)) (fe_ctx env) tx (p_committer p) b = ((r, tr), c, b')"
    by (metis surj_pair)
  note k = committed [OF assms(1-3) c]
  obtain cx led cx' led' where b: "b = (cx, led)" "b' = (cx', led')" by force
  let ?put = "record_first (tx_ID tx) (tx_bytes tx) (view led)"
  have v: "view led' = view led \<or> view led' = ?put" "r = None \<longrightarrow> view led' (tx_ID tx) \<noteq> None"
    using k b by (auto simp: record_first_def split: if_splits)
  have grow: "(\<forall>i v. view led i = Some v \<longrightarrow> view led' i = Some v)
      \<and> (\<forall>i v. view led' i = Some v \<longrightarrow> view led i = Some v \<or> tx_ID tx = i \<and> v = tx_bytes tx)"
    using v(1) by (auto simp: record_first_def split: if_splits)
  obtain e w where w: "wal_Commit (fe_io env) (tx_ID tx) (p_wal p) = (e, w)" by force
  obtain p' where p': "flush_tx (Some (fabric_backend cfg C)) i env tx (p, b) = (p', b')" "p_committer p' = c"
      "p_wal p' = (if r = None then w else p_wal p)"
    using flush_tx_fields [OF c w, of i] by blast
  have "\<exists>new. p_wal p' = log_of sy (ops @ new) [] \<and> set new \<subseteq> {WCommit (tx_ID tx)}
      \<and> (\<forall>i. WCommit i \<in> set new \<longrightarrow> view led' i \<noteq> None)" if w0: "p_wal p = log_of sy ops []" for sy ops
  proof (cases "r = None")
    case True
    obtain new where "w = log_of sy (ops @ new) []" "set new \<subseteq> {WCommit (tx_ID tx)}"
      using clean_write [OF assms(4), of "WCommit (tx_ID tx)" sy ops e w] w w0 by auto
    then show ?thesis using True p'(3) v(2) by (intro exI [of _ new]) auto
  qed (use p'(3) w0 in \<open>auto intro!: exI [of _ "[]"]\<close>)
  then show ?thesis using k grow b unfolding p'(1) by (simp add: flush_log_def p'(2))
qed

lemma flush_loop_log:
  assumes "\<forall>tx \<in> set txs. tx_ID tx \<noteq> []" and "fc_Function cfg = ''Commit''" and "policy_ok p" and "\<forall>k. clean_io (fe_io (env k))"
  shows "flush_log view txs (p, b) (flush_loop (Some (fabric_backend cfg C)) i env n txs (p, b))"
  using assms
proof (induction txs arbitrary: n p b)
  case Nil
  show ?case using flush_log_frame [of p p] by simp
next
  case (Cons tx txs)
  obtain p1 b1 where f: "flush_tx (Some (fabric_backend cfg C)) i (env n) tx (p, b) = (p1, b1)" by (metis surj_pair)
  have one: "flush_log view [tx] (p, b) (p1, b1)"
    using flush_tx_log [of tx cfg p "env n" b i] Cons.prems unfolding f by simp
  have "flush_log view txs (p1, b1) (flush_loop (Some (fabric_backend cfg C)) i env (Suc n) txs (p1, b1))"
    using Cons.IH [of p1 b1 "Suc n"] Cons.prems flush_log_policy [OF one] by simp
  then show ?case using flush_log_trans [OF one] f by simp
qed

lemma worker_batch_log:
  assumes i: "i < length (p_parts p)" "i < length (m_partitions (p_metrics p))"
    and ids: "\<forall>t \<in> set (q_items (part_q p i)). tx_ID t \<noteq> []" and f: "fc_Function cfg = ''Commit''"
    and ok: "policy_ok p" and io: "\<forall>k. clean_io (fe_io (env k))"
    and r: "worker_batch (Some (fabric_backend cfg C)) i env w (p, b) = ((batch, closed), w', p', b')"
  shows "flush_log view batch (p, b) (p', b')"
proof -
  have sub: "\<forall>t \<in> set batch. tx_ID t \<noteq> []"
    using worked_ids(1) [OF conjunct1 [OF worker_batch_worked [OF i r]] ids] .
  obtain bt cl q where q: "PopBatchInto (BatchSize (p_cfg p)) (part_q p i) = ((bt, cl), q)" by (metis surj_pair)
  obtain n w1 where o: "order_check bt w = (n, w1)" by force
  let ?p1 = "set_q i q p"
  let ?p2 = "upd_metrics (on_part i (\<lambda>m. m\<lparr>pm_orderingErrors := pm_orderingErrors m + n\<rparr>)) ?p1"
  let ?p3 = "upd_metrics (on_part i (\<lambda>m. m\<lparr>pm_batchSize := of_nat (length bt)\<rparr>)) ?p2"
  have fr: "p_wal ?p3 = p_wal p" "p_committer ?p3 = p_committer p" by (simp_all add: upd_metrics_def set_q_def)
  show ?thesis
  proof (cases "bt = []")
    case True
    then have "batch = []" "p' = ?p1" "b' = b" using r q by (auto simp: worker_batch_def)
    then show ?thesis using flush_log_frame [of ?p1 p view b] by (simp add: set_q_def)
  next
    case False
    then have e: "batch = bt" "flush_loop (Some (fabric_backend cfg C)) i env 0 bt (?p3, b) = (p', b')"
      using r q o by (auto simp: worker_batch_def flush_def Let_def)
    have "flush_log view bt (?p3, b) (p', b')"
      using flush_loop_log [of bt cfg ?p3 env b i 0] sub e f ok io fr by simp
    then show ?thesis using flush_log_first fr e(1) by blast
  qed
qed

lemma drain_log:
  assumes "i < length (p_parts p)" and "i < length (m_partitions (p_metrics p))"
    and "\<forall>t \<in> set (q_items (part_q p i)). tx_ID t \<noteq> []" and "fc_Function cfg = ''Commit''"
    and "policy_ok p" and "\<forall>k n. clean_io (fe_io (env k n))"
    and "drain (Some (fabric_backend cfg C)) i env k w (p, b) = ((txs, c), w', p', b')"
  shows "flush_log view txs (p, b) (p', b')"
  using assms
proof (induction k arbitrary: w p b txs)
  case 0
  then show ?case using flush_log_frame [of p p view b] by simp
next
  case (Suc k)
  obtain bt cl w1 p1 b1 where wb: "worker_batch (Some (fabric_backend cfg C)) i (env k) w (p, b) = ((bt, cl), w1, p1, b1)"
    by (metis surj_pair)
  note w = worker_batch_worked [OF Suc.prems(1,2) wb]
  have one: "flush_log view bt (p, b) (p1, b1)" using worker_batch_log [OF Suc.prems(1-5) _ wb] Suc.prems(6) by simp
  show ?case
  proof (cases "bt = []")
    case True
    then show ?thesis using Suc.prems(7) wb one by auto
  next
    case False
    obtain rest c2 w2 p2 b2 where d: "drain (Some (fabric_backend cfg C)) i env k w1 (p1, b1) = ((rest, c2), w2, p2, b2)"
      by (metis surj_pair)
    then have r: "txs = bt @ rest" "c = c2" "w' = w2" "p' = p2" "b' = b2" using Suc.prems(7) wb False by auto
    have s: "i < length (p_parts p1)" "i < length (m_partitions (p_metrics p1))"
      using w worked_shape Suc.prems(1,2) by metis+
    have "\<forall>t \<in> set (q_items (part_q p1 i)). tx_ID t \<noteq> []"
      by (rule worked_ids(2) [OF conjunct1 [OF w] Suc.prems(3)])
    then have "flush_log view rest (p1, b1) (p2, b2)"
      using Suc.IH [OF s _ Suc.prems(4) _ Suc.prems(6), of w1 b1 rest] Suc.prems(5) flush_log_policy [OF one] d r by simp
    then show ?thesis using flush_log_trans [OF one] r by simp
  qed
qed

lemma worker_round_log:
  assumes i: "i < length (p_parts p)" "i < length (m_partitions (p_metrics p))"
    and ids: "\<forall>t \<in> set (q_items (part_q p i)). tx_ID t \<noteq> []" and f: "fc_Function cfg = ''Commit''"
    and ok: "policy_ok p" and io: "\<forall>k n. clean_io (fe_io (env k n))"
    and r: "worker_round (Some (fabric_backend cfg C)) i wk env w (p, b) = ((txs, ret), w', p', b')"
  shows "flush_log view txs (p, b) (p', b')"
proof -
  let ?be = "Some (fabric_backend cfg C)"
  obtain bt cl w1 p1 b1 where wb: "worker_batch ?be i (env (Suc (length (q_items (part_q p i))))) w (p, b) = ((bt, cl), w1, p1, b1)"
    by (metis surj_pair)
  have one: "flush_log view bt (p, b) (p1, b1)" using worker_batch_log [OF i ids f ok _ wb] io by simp
  note wk = conjunct1 [OF worker_batch_worked [OF i wb]]
  have s: "i < length (p_parts p1)" "i < length (m_partitions (p_metrics p1))" using wk worked_shape i by metis+
  obtain rest c w2 p2 b2 where d: "drain ?be i env (Suc (length (q_items (part_q p1 i)))) w1 (p1, b1) = ((rest, c), w2, p2, b2)"
    by (metis surj_pair)
  have "\<forall>t \<in> set (q_items (part_q p1 i)). tx_ID t \<noteq> []" by (rule worked_ids(2) [OF wk ids])
  then have two: "flush_log view (bt @ rest) (p, b) (p2, b2)"
    using drain_log [OF s _ f _ io d] flush_log_trans [OF one] flush_log_policy [OF one] ok by blast
  have fr: "p_wal (upd_metrics g x) = p_wal x" "p_committer (upd_metrics g x) = p_committer x"
      "p_wal (set_q j q x) = p_wal x" "p_committer (set_q j q x) = p_committer x" for g x j q
    by (simp_all add: upd_metrics_def set_q_def)
  consider (bt) "txs = bt" "b' = b1" "p_wal p' = p_wal p1" "p_committer p' = p_committer p1"
    | (dr) "txs = bt @ rest" "b' = b2" "p_wal p' = p_wal p2" "p_committer p' = p_committer p2"
    using r wb d by (cases wk) (auto simp: worker_round_def Let_def fr split: if_splits)
  then show ?thesis by cases (use flush_log_then [OF one] flush_log_then [OF two] in blast)+
qed

end

subsection \<open>A submission and the log\<close>

lemma submit_log:
  assumes inv: "pipe_inv p" and w: "p_wal p = log_of s ops []"
    and io: "clean_io (se_append env)" "clean_io (se_abort env)"
    and r: "Submit env tx p = Some ((k, e), p')"
  shows "\<exists>new j. p_wal p' = log_of s (ops @ new) [] \<and> p_committer p' = p_committer p
     \<and> set new \<subseteq> {WPrepare (numbered tx j p), WAbort (tx_ID tx)} \<and> j < length (p_parts p)
     \<and> (new \<noteq> [] \<longrightarrow> ValidateTx tx (MaxPayloadBytes (p_cfg p)) = None)
     \<and> (e = None \<longrightarrow> nat k = j \<and> 0 \<le> k \<and> new = [WPrepare (numbered tx j p)] \<and> tx_ID tx \<noteq> [])"
proof -
  let ?j = "nat (Partition (p_router p) (tx_Key tx))"
  let ?t = "numbered tx ?j p"
  have j: "?j < length (p_parts p)" by (rule partition_index(1) [OF inv])
  consider (early) "p_wal p' = p_wal p" "p_committer p' = p_committer p" "e \<noteq> None"
    | (push) d where "ValidateTx tx (MaxPayloadBytes (p_cfg p)) = None"
        "submit_push env ?j ?t (set_seq ?j (pt_seq (p_parts p ! ?j) + 1) (p\<lparr>p_dedup := d\<rparr>)) = ((k, e), p')"
    using r by (cases "se_ctx env"; cases "ValidateTx tx (MaxPayloadBytes (p_cfg p))")
      (auto simp: Submit_def numbered_def upd_metrics_def Let_def split: option.splits if_splits bool.splits)
  then show ?thesis
  proof cases
    case early
    then show ?thesis using w j by (intro exI [of _ "[]"] exI [of _ ?j]) simp
  next
    case push
    obtain e1 w1 where a: "wal_Append (se_append env) ?t (p_wal p) = (e1, w1)" by force
    obtain new where n: "w1 = log_of s (ops @ new) []" "set new \<subseteq> {WPrepare ?t}" "e1 = None \<longrightarrow> new = [WPrepare ?t]"
      using clean_write [OF io(1), of "WPrepare ?t" s ops e1 w1] a w by auto
    obtain e2 w2 where ab: "wal_Abort (se_abort env) (tx_ID ?t) w1 = (e2, w2)" by force
    obtain new2 where n2: "w2 = log_of s ((ops @ new) @ new2) []" "set new2 \<subseteq> {WAbort (tx_ID tx)}"
      using clean_write [OF io(2), of "WAbort (tx_ID tx)" s "ops @ new" e2 w2] ab n(1) by (auto simp: numbered_def)
    have id: "tx_ID ?t = tx_ID tx" by (simp add: numbered_def)
    have res: "e = None \<longrightarrow> e1 = None \<and> k = int ?j" "p_committer p' = p_committer p"
        "p_wal p' = w1 \<or> e \<noteq> None \<and> p_wal p' = w2"
      using push(2) a ab
      by (auto simp: submit_push_def Let_def set_seq_def set_q_def upd_metrics_def split: option.splits sum.splits)
    have ne: "tx_ID tx \<noteq> []" using push(1) by (simp add: ValidateTx_None)
    from res(3) show ?thesis
    proof
      assume "p_wal p' = w1"
      then show ?thesis using n res(1,2) push(1) j ne by (intro exI [of _ new] exI [of _ ?j]) auto
    next
      assume "e \<noteq> None \<and> p_wal p' = w2"
      then show ?thesis using n n2 res(2) push(1) j ne by (intro exI [of _ "new @ new2"] exI [of _ ?j]) auto
    qed
  qed
qed

subsection \<open>Runs\<close>

text \<open>
  What a client and the operating system have to respect: keys are valid text (\<open>V2_Wal_Faults\<close>), and
  writes to the log are complete or leave nothing.
\<close>

fun clean_op :: "pipe_op \<Rightarrow> bool" where
  "clean_op (OSubmit env tx) \<longleftrightarrow> utf8_valid (tx_Key tx) \<and> clean_io (se_append env) \<and> clean_io (se_abort env)"
| "clean_op (OWork i wk env) \<longleftrightarrow> (\<forall>k n. clean_io (fe_io (env k n)))"

fun submitted :: "pipe_op list \<Rightarrow> string list" where
  "submitted [] = []"
| "submitted (OSubmit env tx # ops) = tx_ID tx # submitted ops"
| "submitted (OWork i wk env # ops) = submitted ops"

text \<open>
  The identifiers \<open>U\<close> were submitted and the transactions \<open>A\<close> accepted. Each accepted one is on the
  ledger or unresolved in the log, every commit marker is backed by the ledger, and the ledger holds
  nothing else than it held before and payloads of accepted transactions.
\<close>

definition durable ::
  "('led \<Rightarrow> string \<Rightarrow> bytes option) \<Rightarrow> (string \<Rightarrow> bytes option) \<Rightarrow> bool \<Rightarrow> string set \<Rightarrow> Tx set \<Rightarrow> wal_op list
   \<Rightarrow> Pipeline \<Rightarrow> 'led \<Rightarrow> bool" where
  "durable view v0 s U A ops p led \<longleftrightarrow>
     pipe_inv p \<and> policy_ok p \<and> int (length (p_parts p)) < 2 ^ 63
     \<and> p_wal p = log_of s ops [] \<and> (\<forall>op \<in> set ops. op_ok op \<and> op_id op \<in> U \<and> op_id op \<noteq> [])
     \<and> (\<forall>t \<in> A. tx_ID t \<noteq> [] \<and> utf8_valid (tx_ID t) \<and> tx_ID t \<in> U)
     \<and> (\<forall>t \<in> A. view led (tx_ID t) \<noteq> None \<or> t \<in> unresolved ops)
     \<and> (\<forall>i < length (p_parts p). set (q_items (part_q p i)) \<subseteq> A)
     \<and> (\<forall>i v. view led i = Some v \<longrightarrow> v0 i = Some v \<or> (\<exists>t \<in> A. tx_ID t = i \<and> v = tx_bytes t))"

lemma unresolved_other:
  "t \<in> unresolved ops \<Longrightarrow> \<forall>op \<in> set new. op_id op \<noteq> tx_ID t \<Longrightarrow> t \<in> unresolved (ops @ new)"
proof (induction new rule: rev_induct)
  case (snoc op new)
  then show ?case using unresolved_snoc [of t "ops @ new" op] by simp
qed simp

lemma durable_submit:
  assumes d: "durable view v0 s U A ops p led" and c: "clean_op (OSubmit env tx)" and u: "tx_ID tx \<notin> U"
    and r: "Submit env tx p = Some ((k, e), p')"
  shows "\<exists>ops'. durable view v0 s (insert (tx_ID tx) U) (if e = None then insert (last (q_items (part_q p' (nat k)))) A else A) ops' p' led"
    and "e = None \<Longrightarrow> tx_Partition (last (q_items (part_q p' (nat k)))) = int (nat k) \<and> nat k < length (p_parts p)"
    and "length (p_parts p') = length (p_parts p)"
proof -
  have inv: "pipe_inv p" and w: "p_wal p = log_of s ops []" using d by (simp_all add: durable_def)
  obtain new j where n: "p_wal p' = log_of s (ops @ new) []" "p_committer p' = p_committer p"
      "set new \<subseteq> {WPrepare (numbered tx j p), WAbort (tx_ID tx)}" "j < length (p_parts p)"
      "new \<noteq> [] \<longrightarrow> ValidateTx tx (MaxPayloadBytes (p_cfg p)) = None"
      "e = None \<longrightarrow> nat k = j \<and> 0 \<le> k \<and> new = [WPrepare (numbered tx j p)] \<and> tx_ID tx \<noteq> []"
    using submit_log [OF inv w _ _ r] c by auto
  have fx: "pipe_inv p'" "same_shape p p'"
      "case e of None \<Rightarrow> 0 \<le> k \<and> accepted env tx (nat k) p p' | Some x \<Rightarrow> refused tx x p p'"
    using Submit_effects [OF inv, of env tx] r by fastforce+
  show len: "length (p_parts p') = length (p_parts p)" using fx(2) by (simp add: same_shape_def)
  let ?t = "numbered tx j p"
  have t: "tx_ID ?t = tx_ID tx" "tx_Partition ?t = int j" "tx_Key ?t = tx_Key tx" by (simp_all add: numbered_def)
  have ids: "\<forall>op \<in> set new. op_id op = tx_ID tx" using n(3) t by auto
  have "new \<noteq> [] \<longrightarrow> utf8_valid (tx_ID tx) \<and> tx_ID tx \<noteq> []" using n(5) valid_id_utf8 by (auto simp: ValidateTx_None)
  moreover have "int j < 2 ^ 63" using n(4) d by (simp add: durable_def)
  ultimately have ok: "\<forall>op \<in> set new. op_ok op \<and> op_id op \<in> insert (tx_ID tx) U \<and> op_id op \<noteq> []"
    using n(3) c t ids by (auto simp: tx_ok_def)
  have last: "last (q_items (part_q p' (nat k))) = ?t" if "e = None"
    using fx(3) n(6) that by (auto simp: accepted_def Push_Inr)
  then show "e = None \<Longrightarrow> tx_Partition (last (q_items (part_q p' (nat k)))) = int (nat k) \<and> nat k < length (p_parts p)"
    using t n(4,6) by simp
  have q: "set (q_items (part_q p' i)) \<subseteq> (if e = None then insert ?t A else A)" if i: "i < length (p_parts p)" for i
  proof -
    have "set (q_items (part_q p i)) \<subseteq> A" using d i by (simp add: durable_def)
    moreover have "q_items (part_q p' i) = q_items (part_q p i) \<or> e = None \<and> q_items (part_q p' i) = q_items (part_q p i) @ [?t]"
      using fx(3) n(6) i by (cases e; cases "i = j") (auto simp: accepted_def refused_def Push_Inr)
    ultimately show ?thesis by auto
  qed
  have old: "view led (tx_ID a) \<noteq> None \<or> a \<in> unresolved (ops @ new)" if "a \<in> A" for a
  proof -
    have "tx_ID a \<noteq> tx_ID tx" using that u d by (auto simp: durable_def)
    then show ?thesis using that d ids unresolved_other [of a ops new] by (auto simp: durable_def)
  qed
  have tu: "?t \<in> unresolved (ops @ new)" if "e = None" using n(6) that by (simp add: unresolved_snoc)
  have tv: "utf8_valid (tx_ID tx)" "tx_ID tx \<noteq> []" if "e = None" using n(5,6) that valid_id_utf8 by auto
  have "durable view v0 s (insert (tx_ID tx) U) (if e = None then insert ?t A else A) (ops @ new) p' led"
    using d fx(1) n(1,2) ok q old tu tv t len unfolding durable_def by (cases e) auto
  then show "\<exists>ops'. durable view v0 s (insert (tx_ID tx) U) (if e = None then insert (last (q_items (part_q p' (nat k)))) A else A) ops' p' led"
    using last by (cases e) auto
qed

context fabric_network
begin

lemma durable_work:
  assumes d: "durable view v0 s U A ops p led" and c: "clean_op (OWork i wk env)" and i: "i < length (p_parts p)"
    and f: "fc_Function cfg = ''Commit''"
    and r: "worker_round (Some (fabric_backend cfg C)) i wk env w (p, cx, led) = ((txs, ret), w', p', cx', led')"
  shows "\<exists>ops'. durable view v0 s U A ops' p' led'" and "length (p_parts p') = length (p_parts p)"
proof -
  have inv: "pipe_inv p" and ok: "policy_ok p" and w: "p_wal p = log_of s ops []" using d by (simp_all add: durable_def)
  have m: "i < length (m_partitions (p_metrics p))" using inv i by (simp add: pipe_inv_def)
  have items: "\<forall>t \<in> set (q_items (part_q p i)). t \<in> A" using d i by (auto simp: durable_def)
  have ids: "\<forall>t \<in> set (q_items (part_q p i)). tx_ID t \<noteq> []" using items d by (auto simp: durable_def)
  note wk = worker_round_worked(1) [OF i m r]
  show len: "length (p_parts p') = length (p_parts p)" using worked_shape [OF wk] by simp
  have io: "\<forall>k n. clean_io (fe_io (env k n))" using c by simp
  have fl: "flush_log view txs (p, cx, led) (p', cx', led')"
    by (rule worker_round_log [OF i m ids f ok io r])
  have txs: "\<forall>t \<in> set txs. t \<in> A" by (rule worked_ids(1) [OF wk items])
  note g = fl [unfolded flush_log_def prod.case]
  obtain new where n: "p_wal p' = log_of s (ops @ new) []" "set new \<subseteq> WCommit ` tx_ID ` set txs"
      "\<forall>j. WCommit j \<in> set new \<longrightarrow> view led' j \<noteq> None"
    using g w by blast
  have mono: "view led j \<noteq> None \<Longrightarrow> view led' j \<noteq> None" for j using g by (metis not_None_eq)
  have "\<forall>op \<in> set new. op_ok op \<and> op_id op \<in> U \<and> op_id op \<noteq> []" using n(2) txs d by (auto simp: durable_def)
  moreover have "view led' (tx_ID a) \<noteq> None \<or> a \<in> unresolved (ops @ new)" if a: "a \<in> A" for a
  proof (cases "WCommit (tx_ID a) \<in> set new")
    case False
    then have "\<forall>op \<in> set new. op_id op \<noteq> tx_ID a" using n(2) by auto
    then show ?thesis using a d mono unresolved_other by (auto simp: durable_def)
  qed (use n(3) in blast)
  moreover have "set (q_items (part_q p' j)) \<subseteq> A" if "j < length (p_parts p)" for j
    using that d worked_ids(2) [OF wk items] worked_other [OF wk, of j] by (cases "j = i") (auto simp: durable_def)
  moreover have "\<forall>j v. view led' j = Some v \<longrightarrow> v0 j = Some v \<or> (\<exists>t \<in> A. tx_ID t = j \<and> v = tx_bytes t)"
    using g txs d unfolding durable_def by blast
  moreover have "pipe_inv p'" "policy_ok p'" using worked_inv [OF inv wk] flush_log_policy [OF fl] ok by simp_all
  ultimately have "durable view v0 s U A (ops @ new) p' led'"
    using d n(1) len unfolding durable_def by auto
  then show "\<exists>ops'. durable view v0 s U A ops' p' led'" by blast
qed

lemma durable_run:
  assumes "durable view v0 s U A ops p led" and "fc_Function cfg = ''Commit''"
    and "\<forall>op \<in> set os. clean_op op" and "distinct (submitted os)" and "set (submitted os) \<inter> U = {}"
    and "pipe_run (Some (fabric_backend cfg C)) os (ws, p, cx, led) = Some (acc, out, ws', p', cx', led')"
  shows "(\<exists>U' ops'. durable view v0 s U' (A \<union> snd ` set acc) ops' p' led')
     \<and> length (p_parts p') = length (p_parts p)
     \<and> (\<forall>(i, t) \<in> set acc. tx_Partition t = int i \<and> i < length (p_parts p))"
  using assms
proof (induction os arbitrary: U A ops ws p cx led acc out)
  case Nil
  then show ?case by auto
next
  case (Cons op os)
  note d = Cons.prems(1) and f = Cons.prems(2)
  show ?case
  proof (cases op)
    case (OSubmit env tx)
    obtain k e p1 where s: "Submit env tx p = Some ((k, e), p1)"
      using Cons.prems(6) OSubmit by (auto split: option.splits)
    obtain acc1 where run: "pipe_run (Some (fabric_backend cfg C)) os (ws, p1, cx, led) = Some (acc1, out, ws', p', cx', led')"
      and acc: "acc = (if e = None then (nat k, last (q_items (part_q p1 (nat k)))) # acc1 else acc1)"
      using Cons.prems(6) OSubmit s by (auto split: option.splits)
    have pre: "clean_op (OSubmit env tx)" "tx_ID tx \<notin> U" "\<forall>op \<in> set os. clean_op op" "distinct (submitted os)"
        "set (submitted os) \<inter> insert (tx_ID tx) U = {}"
      using Cons.prems(3-5) OSubmit by auto
    note st = durable_submit [OF d pre(1,2) s]
    obtain ops1 where d1: "durable view v0 s (insert (tx_ID tx) U)
        (if e = None then insert (last (q_items (part_q p1 (nat k)))) A else A) ops1 p1 led"
      using st(1) by blast
    show ?thesis using Cons.IH [OF d1 f pre(3-5) run] st(2,3) acc by (cases e) auto
  next
    case (OWork i wk env)
    show ?thesis
    proof (cases "i < length (p_parts p)")
      case True
      obtain txs ret w1 p1 cx1 led1 where
        w: "worker_round (Some (fabric_backend cfg C)) i wk env (ws ! i) (p, cx, led) = ((txs, ret), w1, p1, cx1, led1)"
        by (metis surj_pair)
      obtain out1 where run: "pipe_run (Some (fabric_backend cfg C)) os (ws[i := w1], p1, cx1, led1) = Some (acc, out1, ws', p', cx', led')"
        using Cons.prems(6) OWork True w by (auto split: option.splits)
      have pre: "clean_op (OWork i wk env)" "\<forall>op \<in> set os. clean_op op" "distinct (submitted os)" "set (submitted os) \<inter> U = {}"
        using Cons.prems(3-5) OWork by auto
      note st = durable_work [OF d pre(1) True f w]
      obtain ops1 where d1: "durable view v0 s U A ops1 p1 led1" using st(1) by blast
      show ?thesis using Cons.IH [OF d1 f pre(2-4) run] st(2) by simp
    next
      case False
      then show ?thesis using Cons.IH [OF d f] Cons.prems(3-6) OWork by auto
    qed
  qed
qed

text \<open>Recovery on a fresh pipeline with the log of a run, asking the ledger of that run.\<close>

lemma recover_durable:
  assumes d: "durable view v0 s U A ops p led" and p1: "pipe_inv p1" "p_wal p1 = log_of s ops []"
    and empty: "\<forall>i < length (p_parts p1). q_items (part_q p1 i) = []"
    and env: "re_ids_io renv = rd_ok" "re_replay_io renv = rd_ok" "\<And>xs. mset (re_pending_order renv xs) = mset xs"
    and r: "RecoverWithLedger (Some (\<lambda>i. fg_Status None (Some C) i led)) renv p1 = Some ((rep, e), p2)"
  shows "e = None \<Longrightarrow> left_out rep = 0 \<Longrightarrow> t \<in> A
      \<Longrightarrow> view led (tx_ID t) \<noteq> None \<or> t \<in> set (q_items (part_q p2 (nat (tx_Partition t))))"
    and "i < length (p_parts p1) \<Longrightarrow> t \<in> set (q_items (part_q p2 i)) \<Longrightarrow> view led (tx_ID t) \<in> {None, Some []}"
    and "length (p_parts p2) = length (p_parts p1)"
proof -
  let ?l = "Some (\<lambda>i. fg_Status None (Some C) i led)"
  have ok: "\<forall>op \<in> set ops. op_ok op" using d by (simp add: durable_def)
  obtain txs where sp: "recovery_spec ?l ops txs p1 rep e p2"
    using recover_log [OF p1 ok env, of ?l] r by (auto simp: RecoverWithLedger_def)
  have st: "Reconcile ?l (tx_ID x) = (if view led (tx_ID x) \<in> {None, Some []} then LedgerNotCommitted else LedgerCommitted, None)"
    if "x \<in> unresolved ops" for x
  proof -
    have "WPrepare x \<in> set ops" using that by (auto simp: unresolved_def)
    then have "tx_ID x \<noteq> []" using d by (fastforce simp: durable_def)
    then show ?thesis by (simp add: Reconcile_def status_reads)
  qed
  show "length (p_parts p2) = length (p_parts p1)" using sp by (simp add: recovery_spec_def grown_def)
  {
    assume "e = None" "left_out rep = 0" "t \<in> A"
    then have "view led (tx_ID t) \<noteq> None \<or> t \<in> unresolved ops" using d by (auto simp: durable_def)
    then show "view led (tx_ID t) \<noteq> None \<or> t \<in> set (q_items (part_q p2 (nat (tx_Partition t))))"
      using sp st \<open>e = None\<close> \<open>left_out rep = 0\<close> by (fastforce simp: recovery_spec_def split: if_splits)
  next
    assume i: "i < length (p_parts p1)" and t: "t \<in> set (q_items (part_q p2 i))"
    have g: "grown (may_requeue ?l) txs p1 p2" "set txs = unresolved ops" using sp by (simp_all add: recovery_spec_def)
    then obtain new where "q_items (part_q p2 i) = q_items (part_q p1 i) @ new"
        "subseq new (filter (\<lambda>t. tx_Partition t = int i \<and> may_requeue ?l t) txs)"
      using i by (auto simp: grown_def)
    then have "t \<in> unresolved ops" "may_requeue ?l t" using t empty i g(2) subseq_set by fastforce+
    then show "view led (tx_ID t) \<in> {None, Some []}" using st [of t] by (auto simp: may_requeue_def split: if_splits)
  }
qed

end

subsection \<open>Properties\<close>

lemma durable_new:
  assumes "NewPipeline cfg (Inr []) now = Inr p" and "WALPath cfg \<noteq> []" and "Partitions cfg < 2 ^ 63"
  shows "durable view (view led) (SyncWAL cfg) {} {} [] p led"
proof -
  note n = NewPipeline_inv [OF assms(1)]
  have v: "Validate cfg = None" using assms(1) by (auto simp: NewPipeline_def split: option.splits)
  have "p_wal p = log_of (SyncWAL cfg) [] []" "policy_ok p"
    using assms(1,2) v by (auto simp: NewPipeline_def OpenWAL_def log_of_def log_bytes_def NewCommitter_def Validate_None)
  moreover have "int (length (p_parts p)) < 2 ^ 63" using n(6) assms(3) by simp
  ultimately show ?thesis using n(1,4) by (simp add: durable_def)
qed

lemma NewPipeline_log:
  assumes "NewPipeline cfg (Inr d) now = Inr p" and "WALPath cfg \<noteq> []"
  shows "p_wal p = Some \<lparr>wal_data = d, wal_syncOnWrite = SyncWAL cfg, wal_closed = False\<rparr>"
  using assms by (auto simp: NewPipeline_def OpenWAL_def split: option.splits)


definition cfg1_log :: Config where
  "cfg1_log = cfg1\<lparr>WALPath := ''w'', SyncWAL := True\<rparr>"

definition pipe1_from :: "bytes \<Rightarrow> Pipeline" where
  "pipe1_from d = pipe1\<lparr>p_cfg := cfg1_log, p_wal := Some \<lparr>wal_data = d, wal_syncOnWrite = True, wal_closed = False\<rparr>\<rparr>"

lemma pipe1_from_new: "NewPipeline cfg1_log (Inr d) 0 = Inr (pipe1_from d)"
  by (simp add: pipe1_from_def pipe1_def NewPipeline_def cfg1_log_def cfg1_def Validate_def OpenWAL_def)

lemmas pipe1_from_fields = pipe1_from_def pipe1_fields pipe1_part0 cfg1_log_def cfg1_def

definition tx_x :: Tx where
  "tx_x = \<lparr>tx_ID = ''x'', tx_Key = ''k'', tx_Payload = Some ''p'', tx_Partition = 0, tx_Sequence = 1\<rparr>"

lemma dedup_fresh: obtains d where "SeenOrAdd ''x'' 0 dedup_128 = Some (False, d)"
proof -
  have "shard_index ''x'' < 32" by simp
  then show ?thesis by (intro that) (auto simp: SeenOrAdd_def shard_SeenOrAdd_def expireLocked_def dedup_128_def)
qed

lemma tx_x_accepted:
  "\<exists>p. Submit env0 tx_x (pipe1_from []) = Some ((0, None), p) \<and> p_wal p = log_of True [WPrepare tx_x] []
     \<and> q_items (part_q p 0) = [tx_x]"
proof -
  obtain d where d: "SeenOrAdd ''x'' 0 dedup_128 = Some (False, d)" by (rule dedup_fresh)
  have v: "ValidateTx tx_x 10 = None" by (simp add: ValidateTx_def tx_x_def id_rune_ok_def slice_len_def)
  have t: "tx_x\<lparr>tx_Partition := 0, tx_Sequence := 1\<rparr> = tx_x" "tx_ID tx_x = ''x''" by (simp_all add: tx_x_def)
  show ?thesis using d v t log_of_append [of "WPrepare tx_x" True "[]"]
    by (simp add: Submit_def submit_push_def pipe1_from_fields env0_def Partition_def set_seq_def set_q_def Push_def
        upd_metrics_def log_of_def log_bytes_def Let_def)
qed

lemma tx_x_recovered:
  assumes "status ''x'' = (LedgerNotCommitted, None)"
  shows "\<exists>rep p. RecoverWithLedger (Some status) renv0 (pipe1_from (wal_data (the (log_of True [WPrepare tx_x] []))))
       = Some ((rep, None), p) \<and> rr_AlreadyPresent rep = 0 \<and> rr_Pending rep = 0 \<and> rr_Unknown rep = 0
     \<and> q_items (part_q p 0) = [tx_x]"
proof -
  let ?p = "pipe1_from (wal_data (the (log_of True [WPrepare tx_x] [])))"
  have w: "p_wal ?p = log_of True [WPrepare tx_x] []" by (simp add: pipe1_from_def log_of_def)
  have ok: "\<forall>op \<in> set [WPrepare tx_x]. op_ok op" by (simp add: tx_ok_def tx_x_def utf8_valid_ascii)
  have un: "unresolved [WPrepare tx_x] = {tx_x}" using unresolved_snoc [of _ "[]" "WPrepare tx_x"] by (auto simp: unresolved_def)
  obtain txs where "Replay rev rd_ok (log_of True [WPrepare tx_x] []) = Inr txs" "distinct (map tx_ID txs)" "set txs = {tx_x}"
    unfolding un [symmetric] by (rule pending_sorted [OF ok, of rev True]) auto
  then have rp: "Replay rev rd_ok (log_of True [WPrepare tx_x] []) = Inr [tx_x]"
    by (cases txs rule: list.exhaust; cases "tl txs") (auto simp: subset_singleton_iff)
  have ids: "ReplayIDs rd_ok (log_of True [WPrepare tx_x] []) = Inr [''x'']"
    using ReplayIDs_log [OF ok, of "[]" True] by (simp add: scan_tail_def note_id_def prepare_record_def tx_x_def)
  obtain d where d: "SeenOrAdd ''x'' 0 dedup_128 = Some (False, d)" by (rule dedup_fresh)
  have r: "Reconcile (Some status) (tx_ID tx_x) = (LedgerNotCommitted, None)" using assms by (simp add: Reconcile_def tx_x_def)
  have t: "tx_ID tx_x = ''x''" "tx_Partition tx_x = 0" "tx_Sequence tx_x = 1" by (simp_all add: tx_x_def)
  show ?thesis unfolding RecoverWithLedger_def recoverTransactions_def w
    using rp ids d r t
    by (simp add: renv0_def log_of_def requeue_def pipe1_from_fields set_seq_def set_q_def Push_def zero_report_def
        upd_metrics_def remember_recovered_def Let_def)
qed


end
