(* ===== verification/Contract_Ledger.thy ===== *)
theory Contract_Ledger
  imports Sha256 "HOL-Library.Signed_Division"
begin

text \<open>
  Payments: the records of \<^verbatim>\<open>pkg/types/transactions.go\<close>, the fee rules of
  \<^verbatim>\<open>pkg/contract/engine.go\<close> and the hash-linked audit trail of \<^verbatim>\<open>pkg/ledger/blockchain.go\<close>.
  Amounts are 64-bit words read as signed numbers; multiplication wraps and division truncates
  towards zero, as in Go. A \<^verbatim>\<open>time.Time\<close> enters the hash as its printed form, so a timestamp
  is that string.
\<close>

record PaymentTransaction =
  pt_TxID :: string
  SenderID :: string
  ReceiverID :: string
  pt_Amount :: i64
  Currency :: string
  ChannelID :: string
  pt_Timestamp :: string
  Signature :: string

record ContractReceipt =
  cr_TxID :: string
  FeeApplied :: i64
  NetAmount :: i64
  Approved :: bool
  FailureReason :: string
  ExecutedAt :: string

record LedgerEntry =
  le_Index :: u64
  le_TxID :: string
  PrevHash :: string
  le_Hash :: string
  le_Timestamp :: string
  le_Data :: string

definition hash_record :: "LedgerEntry \<Rightarrow> string" where
  "hash_record l = show_nat (unat (le_Index l)) @ le_TxID l @ PrevHash l @ le_Data l @ le_Timestamp l"

definition ComputeHash :: "LedgerEntry \<Rightarrow> string" where
  "ComputeHash l = hex_encode (sha256_Sum (hash_record l))"

subsection \<open>The contract engine\<close>

record SmartContractEngine =
  MaxTxLimit :: i64
  FeeBasisPts :: i64

definition NewSmartContractEngine :: SmartContractEngine where
  "NewSmartContractEngine = \<lparr>MaxTxLimit = 1000000, FeeBasisPts = 10\<rparr>"

definition go_div :: "i64 \<Rightarrow> i64 \<Rightarrow> i64" where
  "go_div a b = word_of_int (sint a sdiv sint b)"

definition refused :: "string \<Rightarrow> string \<Rightarrow> ContractReceipt" where
  "refused txid reason = \<lparr>cr_TxID = txid, FeeApplied = 0, NetAmount = 0, Approved = False,
     FailureReason = reason, ExecutedAt = ''''\<rparr>"

text \<open>The result is the receipt and the error; \<open>now\<close> is the clock.\<close>

definition ExecuteRules ::
  "string \<Rightarrow> SmartContractEngine \<Rightarrow> PaymentTransaction \<Rightarrow> ContractReceipt \<times> string option" where
  "ExecuteRules now sc tx =
     (if sint (pt_Amount tx) \<le> 0
      then (refused (pt_TxID tx) ''Transaction amount must be positive'', Some ''invalid transaction amount'')
      else if sint (pt_Amount tx) > sint (MaxTxLimit sc)
      then (refused (pt_TxID tx) (''Amount exceeds max contract limit of '' @ show_int (sint (MaxTxLimit sc))),
            Some ''contract limit exceeded'')
      else let fee0 = go_div (pt_Amount tx * FeeBasisPts sc) 10000;
               fee = (if sint fee0 < 1 then 1 else fee0)
           in (\<lparr>cr_TxID = pt_TxID tx, FeeApplied = fee, NetAmount = pt_Amount tx - fee, Approved = True,
                FailureReason = '''', ExecutedAt = now\<rparr>, None))"

subsection \<open>The audit ledger\<close>

record AuditLedger =
  al_chain :: "LedgerEntry list"
  al_lastHash :: string

definition seal :: "LedgerEntry \<Rightarrow> LedgerEntry" where
  "seal l = l\<lparr>le_Hash := ComputeHash l\<rparr>"

definition genesis_prev :: string where
  "genesis_prev = replicate 64 (CHR ''0'')"

definition NewAuditLedger :: "string \<Rightarrow> AuditLedger" where
  "NewAuditLedger now =
     (let genesis = seal \<lparr>le_Index = 0, le_TxID = ''GENESIS_BLOCK'', PrevHash = genesis_prev, le_Hash = '''',
            le_Timestamp = now, le_Data = ''Genesis Block - HED Core Ledger''\<rparr>
      in \<lparr>al_chain = [genesis], al_lastHash = le_Hash genesis\<rparr>)"

definition entry_data :: "PaymentTransaction \<Rightarrow> ContractReceipt \<Rightarrow> string" where
  "entry_data tx receipt =
     ''SENDER:'' @ SenderID tx @ ''|RECV:'' @ ReceiverID tx @ ''|NET_AMT:'' @ show_int (sint (NetAmount receipt))
     @ ''|FEE:'' @ show_int (sint (FeeApplied receipt))"

definition AppendTransaction ::
  "string \<Rightarrow> PaymentTransaction \<Rightarrow> ContractReceipt \<Rightarrow> AuditLedger \<Rightarrow> LedgerEntry \<times> AuditLedger" where
  "AppendTransaction now tx receipt al =
     (let entry = seal \<lparr>le_Index = of_nat (length (al_chain al)), le_TxID = pt_TxID tx, PrevHash = al_lastHash al,
            le_Hash = '''', le_Timestamp = now, le_Data = entry_data tx receipt\<rparr>
      in (entry, \<lparr>al_chain = al_chain al @ [entry], al_lastHash = le_Hash entry\<rparr>))"

definition GetChainHeight :: "AuditLedger \<Rightarrow> int" where
  "GetChainHeight al = int (length (al_chain al))"

subsection \<open>Fees\<close>

lemma fee_exact:
  assumes "0 < sint a" and "0 \<le> sint b" and "sint a * sint b < 2 ^ 63"
  shows "sint (go_div (a * b) 10000) = sint a * sint b div 10000"
proof -
  let ?m = "sint a * sint b"
  have pos: "0 \<le> ?m" using assms by simp
  have "a * b = of_int ?m" by simp
  then have m: "sint (a * b) = ?m" using assms(3) pos sint_of_int_i64 [of ?m] by simp
  have k: "sint (10000 :: i64) = 10000" using sint_of_int_i64 [of 10000] by simp
  have "m div 10000 \<le> m" if "0 \<le> m" for m :: int
    using zdiv_mono2 [of m 1 10000] that by simp
  then have q: "0 \<le> ?m div 10000" "?m div 10000 \<le> ?m" using pos by simp_all
  have "m sdiv 10000 = m div 10000" if "0 \<le> m" for m :: int
    using that by (cases "m = 0") (simp_all add: signed_divide_int_def)
  from this [OF pos] have "?m sdiv 10000 = ?m div 10000" .
  then show ?thesis using q assms(3) by (simp add: go_div_def m k sint_of_int_i64)
qed

subsection \<open>The chain\<close>

text \<open>
  A chain is linked when every entry carries the hash of its own content, its position as index, and
  the hash of the entry before it.
\<close>

definition sealed :: "LedgerEntry \<Rightarrow> bool" where
  "sealed l \<longleftrightarrow> le_Hash l = ComputeHash l"

definition linked :: "LedgerEntry list \<Rightarrow> bool" where
  "linked c \<longleftrightarrow> (\<forall>i < length c. sealed (c ! i) \<and> le_Index (c ! i) = of_nat i
     \<and> PrevHash (c ! i) = (if i = 0 then genesis_prev else le_Hash (c ! (i - 1))))"

definition ledger_inv :: "AuditLedger \<Rightarrow> bool" where
  "ledger_inv al \<longleftrightarrow> al_chain al \<noteq> [] \<and> linked (al_chain al) \<and> al_lastHash al = le_Hash (last (al_chain al))"

lemma sealed_seal: "sealed (seal l)"
  by (simp add: sealed_def seal_def ComputeHash_def hash_record_def)

lemma seal_sel [simp]:
  "le_Index (seal l) = le_Index l" "le_TxID (seal l) = le_TxID l" "PrevHash (seal l) = PrevHash l"
  "le_Timestamp (seal l) = le_Timestamp l" "le_Data (seal l) = le_Data l"
  by (simp_all add: seal_def)

lemma ledger_inv_New [inv_intros]: "ledger_inv (NewAuditLedger now)"
  using sealed_seal by (simp add: ledger_inv_def linked_def NewAuditLedger_def Let_def)

lemma ledger_inv_Append [inv_intros]:
  assumes "ledger_inv al" and "AppendTransaction now tx r al = (e, al')"
  shows "ledger_inv al'"
proof -
  let ?e = "seal \<lparr>le_Index = of_nat (length (al_chain al)), le_TxID = pt_TxID tx, PrevHash = al_lastHash al,
            le_Hash = '''', le_Timestamp = now, le_Data = entry_data tx r\<rparr>"
  have al': "al_chain al' = al_chain al @ [?e]" "al_lastHash al' = le_Hash ?e"
    using assms(2) by (auto simp: AppendTransaction_def Let_def)
  have "last (al_chain al) = al_chain al ! (length (al_chain al) - 1)"
    using assms(1) by (simp add: ledger_inv_def last_conv_nth)
  then have "linked (al_chain al @ [?e])"
    using assms(1) sealed_seal by (auto simp: ledger_inv_def linked_def nth_append less_Suc_eq)
  then show ?thesis by (simp add: ledger_inv_def al')
qed

fun append_all ::
  "(string \<times> PaymentTransaction \<times> ContractReceipt) list \<Rightarrow> AuditLedger \<Rightarrow> AuditLedger" where
  "append_all [] al = al"
| "append_all ((now, tx, r) # ts) al = append_all ts (snd (AppendTransaction now tx r al))"

lemma append_all_inv: "ledger_inv al \<Longrightarrow> ledger_inv (append_all ts al)"
proof (induction ts al rule: append_all.induct)
  case (1 al)
  then show ?case by simp
next
  case (2 now tx r ts al)
  then show ?case using ledger_inv_Append [OF 2(2), of now tx r] by (metis append_all.simps(2) prod.collapse)
qed

lemma append_all_chain:
  "\<exists>es. al_chain (append_all ts al) = al_chain al @ es
    \<and> map le_TxID es = map (\<lambda>(now, tx, r). pt_TxID tx) ts
    \<and> map le_Data es = map (\<lambda>(now, tx, r). entry_data tx r) ts"
proof (induction ts al rule: append_all.induct)
  case (1 al)
  then show ?case by simp
next
  case (2 now tx r ts al)
  then obtain es where "al_chain (append_all ts (snd (AppendTransaction now tx r al)))
      = al_chain (snd (AppendTransaction now tx r al)) @ es"
    "map le_TxID es = map (\<lambda>(now, tx, r). pt_TxID tx) ts" "map le_Data es = map (\<lambda>(now, tx, r). entry_data tx r) ts"
    by blast
  then show ?case
    by (intro exI [of _ "fst (AppendTransaction now tx r al) # es"])
      (simp add: AppendTransaction_def Let_def)
qed

text \<open>
  Two linked chains of one length that end in the same hash are the same record by record, unless
  two different records of them have the same SHA-256 digest.
\<close>

definition collision :: "LedgerEntry list \<Rightarrow> LedgerEntry list \<Rightarrow> bool" where
  "collision c d \<longleftrightarrow> (\<exists>i < length c. hash_record (c ! i) \<noteq> hash_record (d ! i)
     \<and> sha256_Sum (hash_record (c ! i)) = sha256_Sum (hash_record (d ! i)))"

lemma linked_butlast: "linked (c @ [x]) \<Longrightarrow> linked c"
  by (auto simp: linked_def nth_append split: if_splits)

lemma PrevHash_length: "linked c \<Longrightarrow> i < length c \<Longrightarrow> length (PrevHash (c ! i)) = 64"
  by (auto simp: linked_def sealed_def ComputeHash_def hex_encode_length sha256_length genesis_prev_def)

lemma hash_record_split:
  assumes "linked c" and "linked d" and "i < length c" and "i < length d"
    and "length (le_TxID (c ! i)) = length (le_TxID (d ! i))"
    and "hash_record (c ! i) = hash_record (d ! i)"
  shows "le_TxID (c ! i) = le_TxID (d ! i)" and "PrevHash (c ! i) = PrevHash (d ! i)"
    and "le_Data (c ! i) @ le_Timestamp (c ! i) = le_Data (d ! i) @ le_Timestamp (d ! i)"
proof -
  have "le_Index (c ! i) = le_Index (d ! i)" using assms(1-4) by (simp add: linked_def)
  then have "le_TxID (c ! i) @ PrevHash (c ! i) @ le_Data (c ! i) @ le_Timestamp (c ! i)
      = le_TxID (d ! i) @ PrevHash (d ! i) @ le_Data (d ! i) @ le_Timestamp (d ! i)"
    using assms(6) by (simp add: hash_record_def)
  then show "le_TxID (c ! i) = le_TxID (d ! i)" and "PrevHash (c ! i) = PrevHash (d ! i)"
    and "le_Data (c ! i) @ le_Timestamp (c ! i) = le_Data (d ! i) @ le_Timestamp (d ! i)"
    using assms(5) PrevHash_length [OF assms(1,3)] PrevHash_length [OF assms(2,4)] by auto
qed

lemma hash_eq_record_eq:
  assumes "linked c" and "linked d" and "length c = length d" and "i < length c" and "\<not> collision c d"
    and "le_Hash (c ! i) = le_Hash (d ! i)"
  shows "hash_record (c ! i) = hash_record (d ! i)"
proof -
  have "sealed (c ! i)" "sealed (d ! i)" using assms(1-4) by (simp_all add: linked_def)
  then have "sha256_Sum (hash_record (c ! i)) = sha256_Sum (hash_record (d ! i))"
    using assms(6) by (simp add: sealed_def ComputeHash_def hex_encode_inj)
  then show ?thesis using assms(4,5) unfolding collision_def by blast
qed

lemma same_head_same_chain:
  assumes "linked c" and "linked d" and "length c = length d"
    and "\<forall>i < length c. length (le_TxID (c ! i)) = length (le_TxID (d ! i))"
    and "le_Hash (last c) = le_Hash (last d)" and "\<not> collision c d"
  shows "i < length c \<Longrightarrow> hash_record (c ! i) = hash_record (d ! i)"
proof (induction "length c - Suc i" arbitrary: i)
  case 0
  then have "c \<noteq> []" "d \<noteq> []" "i = length c - 1" using assms(3) by auto
  then have "le_Hash (c ! i) = le_Hash (d ! i)" using assms(3,5) by (simp add: last_conv_nth)
  then show ?case using hash_eq_record_eq [OF assms(1-3) 0(2) assms(6)] by simp
next
  case (Suc n)
  have j: "Suc i < length c" "Suc i < length d" using Suc(2) assms(3) by auto
  have n: "n = length c - Suc (Suc i)" using Suc(2) by simp
  have "PrevHash (c ! Suc i) = PrevHash (d ! Suc i)"
    using hash_record_split(2) [OF assms(1,2) j _ Suc(1) [OF n j(1)]] assms(4) j(1) by blast
  then have "le_Hash (c ! i) = le_Hash (d ! i)" using assms(1,2) j by (simp add: linked_def)
  then show ?case using hash_eq_record_eq [OF assms(1-3) Suc(3) assms(6)] by simp
qed

subsection \<open>Properties\<close>

text \<open>
  The contract engine takes a payment exactly when its amount is positive and within the limit; then
  fee and net amount add up to the amount, and where amount times basis points fits 64 bits the fee
  is that product over ten thousand, rounded down, and at least one cent. With the shipped
  parameters the net amount is never negative.
\<close>

theorem contract_fee_splits_amount:
  assumes "ExecuteRules now sc tx = (r, e)"
  shows "(e = None \<longleftrightarrow> 0 < sint (pt_Amount tx) \<and> sint (pt_Amount tx) \<le> sint (MaxTxLimit sc))
    \<and> (Approved r \<longleftrightarrow> e = None)
    \<and> (e = None \<longrightarrow> FeeApplied r + NetAmount r = pt_Amount tx)
    \<and> (e = None \<longrightarrow> 0 \<le> sint (FeeBasisPts sc) \<longrightarrow> sint (pt_Amount tx) * sint (FeeBasisPts sc) < 2 ^ 63
        \<longrightarrow> sint (FeeApplied r) = max 1 (sint (pt_Amount tx) * sint (FeeBasisPts sc) div 10000))
    \<and> (e = None \<longrightarrow> sc = NewSmartContractEngine \<longrightarrow> 0 \<le> sint (NetAmount r))"
proof (cases "0 < sint (pt_Amount tx) \<and> sint (pt_Amount tx) \<le> sint (MaxTxLimit sc)")
  case False
  then show ?thesis using assms by (auto simp: ExecuteRules_def refused_def split: if_splits)
next
  case True
  let ?a = "pt_Amount tx" and ?f0 = "go_div (pt_Amount tx * FeeBasisPts sc) 10000"
  let ?f = "if sint ?f0 < 1 then 1 else ?f0"
  have r: "e = None" "Approved r" "FeeApplied r = ?f" "NetAmount r = ?a - ?f"
    using assms True by (auto simp: ExecuteRules_def Let_def)
  have one: "sint (1 :: i64) = 1" using sint_of_int_i64 [of 1] by simp
  have fee: "sint ?f = max 1 (sint ?a * sint (FeeBasisPts sc) div 10000)"
    if "0 \<le> sint (FeeBasisPts sc)" "sint ?a * sint (FeeBasisPts sc) < 2 ^ 63"
    using fee_exact [OF _ that] True one by auto
  have net: "0 \<le> sint (?a - ?f)" if sc: "sc = NewSmartContractEngine"
  proof -
    have p: "sint (FeeBasisPts sc) = 10" "sint (MaxTxLimit sc) = 1000000"
      using sint_of_int_i64 [of 10] sint_of_int_i64 [of 1000000] by (simp_all add: sc NewSmartContractEngine_def)
    have f: "sint ?f = max 1 (sint ?a * 10 div 10000)" using fee p True by simp
    then have "1 \<le> sint ?f" "sint ?f \<le> sint ?a" using True by auto
    moreover have "?a - ?f = of_int (sint ?a - sint ?f)" by simp
    ultimately have "sint (?a - ?f) = sint ?a - sint ?f"
      using True p sint_of_int_i64 [of "sint ?a - sint ?f"] by simp
    then show ?thesis using \<open>sint ?f \<le> sint ?a\<close> by simp
  qed
  show ?thesis using r True fee net by simp
qed

text \<open>A payment of five hundred dollars.\<close>

definition sample_tx :: PaymentTransaction where
  "sample_tx = \<lparr>pt_TxID = ''TX_88492049102'', SenderID = ''acc_alice'', ReceiverID = ''acc_bob'', pt_Amount = 50000,
     Currency = ''USD'', ChannelID = ''channel1'', pt_Timestamp = '''', Signature = ''sig_secp256k1_3a8f9c1b...''\<rparr>"

theorem contract_fee_splits_amount_witness:
  "\<exists>r e. ExecuteRules ''now'' NewSmartContractEngine sample_tx = (r, e)
    \<and> (e = None \<longleftrightarrow> 0 < sint (pt_Amount sample_tx) \<and> sint (pt_Amount sample_tx) \<le> sint (MaxTxLimit NewSmartContractEngine))"
proof -
  obtain r e where x: "ExecuteRules ''now'' NewSmartContractEngine sample_tx = (r, e)" by force
  from contract_fee_splits_amount [OF x] x show ?thesis by blast
qed

text \<open>
  C29 The audit trail is append-only and hash-linked: after any sequence of appended payments the chain is
  the genesis entry followed by one entry per payment, in order, with its transaction ID and data;
  every entry has its position as index, the hash of its own content, and the hash of its
  predecessor; and the height is one more than the number of payments.
\<close>

theorem ledger_appends_linked:
  shows "ledger_inv (append_all ts (NewAuditLedger now))
    \<and> GetChainHeight (append_all ts (NewAuditLedger now)) = int (length ts) + 1
    \<and> map le_TxID (tl (al_chain (append_all ts (NewAuditLedger now)))) = map (\<lambda>(now, tx, r). pt_TxID tx) ts
    \<and> map le_Data (tl (al_chain (append_all ts (NewAuditLedger now)))) = map (\<lambda>(now, tx, r). entry_data tx r) ts"
proof -
  obtain es where es: "al_chain (append_all ts (NewAuditLedger now)) = al_chain (NewAuditLedger now) @ es"
    "map le_TxID es = map (\<lambda>(now, tx, r). pt_TxID tx) ts" "map le_Data es = map (\<lambda>(now, tx, r). entry_data tx r) ts"
    using append_all_chain by blast
  have "length es = length ts" using es(2) by (metis length_map)
  then show ?thesis
    using es append_all_inv [OF ledger_inv_New, of ts now] by (simp add: GetChainHeight_def NewAuditLedger_def Let_def)
qed

text \<open>
  C30 The last hash fixes the whole trail: two linked chains of one length that end in the same hash and
  whose transaction IDs have the same lengths agree in every transaction ID, every link and every
  hashed content, unless two of their records collide under SHA-256.
\<close>

theorem ledger_tamper_evident:
  assumes "linked c" and "linked d" and "length c = length d"
    and "\<forall>i < length c. length (le_TxID (c ! i)) = length (le_TxID (d ! i))"
    and "le_Hash (last c) = le_Hash (last d)" and "\<not> collision c d"
  shows "\<forall>i < length c. le_TxID (c ! i) = le_TxID (d ! i) \<and> PrevHash (c ! i) = PrevHash (d ! i)
    \<and> le_Data (c ! i) @ le_Timestamp (c ! i) = le_Data (d ! i) @ le_Timestamp (d ! i)"
proof (intro allI impI)
  fix i assume i: "i < length c"
  with assms(3) have i': "i < length d" by simp
  have h: "hash_record (c ! i) = hash_record (d ! i)" by (rule same_head_same_chain [OF assms i])
  show "le_TxID (c ! i) = le_TxID (d ! i) \<and> PrevHash (c ! i) = PrevHash (d ! i)
    \<and> le_Data (c ! i) @ le_Timestamp (c ! i) = le_Data (d ! i) @ le_Timestamp (d ! i)"
    using hash_record_split [OF assms(1,2) i i' _ h] assms(4) i by blast
qed

theorem ledger_tamper_evident_witness:
  "\<exists>c. c = al_chain (append_all [(''t'', sample_tx, refused ''x'' ''y'')] (NewAuditLedger ''n''))
    \<and> linked c \<and> \<not> collision c c \<and> \<not> (\<exists>i < length c. \<not> (le_TxID (c ! i) = le_TxID (c ! i)))"
proof -
  let ?c = "al_chain (append_all [(''t'', sample_tx, refused ''x'' ''y'')] (NewAuditLedger ''n''))"
  have c: "linked ?c"
    using append_all_inv [OF ledger_inv_New, of "[(''t'', sample_tx, refused ''x'' ''y'')]" "''n''"]
    unfolding ledger_inv_def by blast
  have nc: "\<not> collision ?c ?c" by (simp add: collision_def)
  from ledger_tamper_evident [OF c c refl _ refl nc] c nc show ?thesis by blast
qed

text \<open>
  The hash of an entry does not determine its content: the fields are joined without separators, so
  an entry with a fee of 5 written in the year 20260 and one with a fee of 52 written in the year 260
  have the same hash, and so have entry 1 of transaction 2x and entry 12 of transaction x.
\<close>

theorem ledger_hash_ambiguous:
  shows "ComputeHash (l\<lparr>le_Data := entry_data tx (r\<lparr>FeeApplied := 5\<rparr>), le_Timestamp := ''20260'' @ t\<rparr>)
      = ComputeHash (l\<lparr>le_Data := entry_data tx (r\<lparr>FeeApplied := 52\<rparr>), le_Timestamp := ''0260'' @ t\<rparr>)
    \<and> ComputeHash (l\<lparr>le_Index := 1, le_TxID := ''2'' @ x\<rparr>) = ComputeHash (l\<lparr>le_Index := 12, le_TxID := x\<rparr>)"
proof -
  have s: "sint (5 :: i64) = 5" "sint (52 :: i64) = 52"
    using sint_of_int_i64 [of 5] sint_of_int_i64 [of 52] by simp_all
  have d: "show_int 5 = ''5''" "show_int 52 = ''52''" "show_nat (Suc 0) = ''1''" "show_nat 12 = ''12''" by code_simp+
  show ?thesis by (simp add: ComputeHash_def hash_record_def entry_data_def s d)
qed

end
