(* ===== verification/Payment_Flow.thy ===== *)
theory Payment_Flow
  imports Delta_Engine Contract_Ledger
begin

text \<open>
  The payment lifecycle of \<^verbatim>\<open>cmd/main.go\<close>: contract rules, three deltas in memory, an entry in
  the audit ledger, the flush to KeyDB and the balances read back. The goroutine that flushes on a
  ticker is modelled at the granularity of the engine's operations: \<open>bg i\<close> is the number of its
  flushes that run before the \<open>i\<close>th delta of a payment. A call of \<^verbatim>\<open>log.Fatalf\<close> ends the
  program and is an error value; the other log output is left out.
\<close>

definition treasury :: string where
  "treasury = ''acc_treasury''"

fun background ::
  "'srv RedisClient \<Rightarrow> ((string, i64) gomap \<Rightarrow> (string, i64) gomap) \<Rightarrow> nat \<Rightarrow> DeltaEngine \<times> 'srv \<Rightarrow> DeltaEngine \<times> 'srv" where
  "background c ord 0 ds = ds"
| "background c ord (Suc n) ds =
     (case FlushToDB c ord ''channel1'' (fst ds) (snd ds) of (e, ds') \<Rightarrow> background c ord n ds')"

definition delta_step ::
  "'srv RedisClient \<Rightarrow> ((string, i64) gomap \<Rightarrow> (string, i64) gomap) \<Rightarrow> nat \<Rightarrow> string \<Rightarrow> string \<Rightarrow> i64
   \<Rightarrow> DeltaEngine \<times> 'srv \<Rightarrow> DeltaEngine \<times> 'srv" where
  "delta_step c ord n channel key v ds =
     (case background c ord n ds of (d, s) \<Rightarrow> (ApplyDelta channel key v d, s))"

definition apply_payment ::
  "'srv RedisClient \<Rightarrow> ((string, i64) gomap \<Rightarrow> (string, i64) gomap) \<Rightarrow> (nat \<Rightarrow> nat) \<Rightarrow> PaymentTransaction
   \<Rightarrow> ContractReceipt \<Rightarrow> DeltaEngine \<times> 'srv \<Rightarrow> DeltaEngine \<times> 'srv" where
  "apply_payment c ord bg tx receipt ds =
     delta_step c ord (bg 2) (ChannelID tx) treasury (FeeApplied receipt)
      (delta_step c ord (bg 1) (ChannelID tx) (ReceiverID tx) (NetAmount receipt)
        (delta_step c ord (bg 0) (ChannelID tx) (SenderID tx) (- pt_Amount tx) ds))"

text \<open>Steps 2 to 5 for one transaction; \<open>t1\<close> and \<open>t2\<close> are the readings of the clock.\<close>

definition process_payment ::
  "'srv RedisClient \<Rightarrow> ((string, i64) gomap \<Rightarrow> (string, i64) gomap) \<Rightarrow> (nat \<Rightarrow> nat) \<Rightarrow> string \<Rightarrow> string
   \<Rightarrow> SmartContractEngine \<Rightarrow> PaymentTransaction \<Rightarrow> (DeltaEngine \<times> 'srv) \<times> AuditLedger
   \<Rightarrow> (string + LedgerEntry) \<times> (DeltaEngine \<times> 'srv) \<times> AuditLedger" where
  "process_payment c ord bg t1 t2 sc tx st =
     (case st of (ds, al) \<Rightarrow>
      (case ExecuteRules t1 sc tx of
         (receipt, Some e) \<Rightarrow> (Inl (''Transaction rejected by contract: '' @ e), ds, al)
       | (receipt, None) \<Rightarrow>
           (case AppendTransaction t2 tx receipt al of
              (entry, al') \<Rightarrow> (Inr entry, apply_payment c ord bg tx receipt ds, al'))))"

record lifecycle_result =
  lc_entry :: LedgerEntry
  lc_height :: int
  lc_alice :: string
  lc_bob :: string
  lc_treasury :: string

text \<open>An error of \<^verbatim>\<open>GetState\<close> is ignored and leaves nil, which prints as nothing.\<close>

definition read_balance :: "'srv RedisClient \<Rightarrow> string \<Rightarrow> 'srv \<Rightarrow> string" where
  "read_balance c acc s =
     (case keydb_GetState c ''channel1'' acc s of Inr (Some v) \<Rightarrow> v | Inr None \<Rightarrow> '''' | Inl e \<Rightarrow> '''')"

definition lifecycle_main ::
  "'srv RedisClient \<Rightarrow> ((string, i64) gomap \<Rightarrow> (string, i64) gomap) \<Rightarrow> (nat \<Rightarrow> nat) \<Rightarrow> (nat \<Rightarrow> string) \<Rightarrow> 'srv
   \<Rightarrow> (string + lifecycle_result) \<times> 'srv" where
  "lifecycle_main c ord bg clock s0 =
     (case keydb_Init c s0 of
        Some e \<Rightarrow> (Inl (''KeyDB Connection Failed: '' @ e), s0)
      | None \<Rightarrow>
          (case process_payment c ord bg (clock 2) (clock 3) NewSmartContractEngine
                  (sample_tx\<lparr>pt_Timestamp := clock 1\<rparr>) ((New_Delta, s0), NewAuditLedger (clock 0)) of
             (Inl e, (d, s), al) \<Rightarrow> (Inl e, s)
           | (Inr entry, ds, al) \<Rightarrow>
               (case background c ord (bg 3) ds of
                  (d1, s1) \<Rightarrow>
                    (case FlushToDB c ord ''channel1'' d1 s1 of
                       (_, ds2) \<Rightarrow>
                         (case background c ord (bg 4) ds2 of
                            (d3, s3) \<Rightarrow>
                              (Inr \<lparr>lc_entry = entry, lc_height = GetChainHeight al,
                                    lc_alice = read_balance c ''acc_alice'' s3, lc_bob = read_balance c ''acc_bob'' s3,
                                    lc_treasury = read_balance c treasury s3\<rparr>, s3))))))"

subsection \<open>The balance of an account\<close>

text \<open>What is stored of an account on the channel together with what is still in memory.\<close>

definition account :: "('srv \<Rightarrow> string \<Rightarrow> i64) \<Rightarrow> DeltaEngine \<times> 'srv \<Rightarrow> string \<Rightarrow> i64" where
  "account bal ds k = bal (snd ds) (''channel1'' @ '':'' @ k) + pending (fst ds) k"

text \<open>What a receipt moves.\<close>

definition moved :: "PaymentTransaction \<Rightarrow> ContractReceipt \<Rightarrow> string \<Rightarrow> i64" where
  "moved tx r k = (if k = SenderID tx then - pt_Amount tx else 0) + (if k = ReceiverID tx then NetAmount r else 0)
     + (if k = treasury then FeeApplied r else 0)"

locale payment_server =
  fixes c :: "'srv RedisClient"
    and ord :: "(string, i64) gomap \<Rightarrow> (string, i64) gomap"
    and bal :: "'srv \<Rightarrow> string \<Rightarrow> i64"
  assumes srv: "incr_server (keydb_send c) bal"
    and ord: "map_order ord"
begin

lemma flush_account:
  assumes "delta_inv d" and "FlushToDB c ord ''channel1'' d s = (e, ds')"
  shows "delta_inv (fst ds') \<and> account bal ds' = account bal (d, s) \<and> pending (fst ds') = (\<lambda>k. 0)"
proof -
  obtain d' s' where ds': "ds' = (d', s')" by force
  have "delta_inv d' \<and> pending d' = (\<lambda>k. 0)
      \<and> bal s' (''channel1'' @ '':'' @ k) = bal s (''channel1'' @ '':'' @ k) + pending d k" for k
    using FlushToDB_effect [OF assms(1) srv ord, of "''channel1''" s e d' s' k] assms(2) ds' by blast
  then show ?thesis by (simp add: account_def ds' fun_eq_iff)
qed

lemma background_account:
  "delta_inv (fst ds) \<Longrightarrow> delta_inv (fst (background c ord n ds)) \<and> account bal (background c ord n ds) = account bal ds"
proof (induction n arbitrary: ds)
  case (Suc n)
  obtain e ds' where f: "FlushToDB c ord ''channel1'' (fst ds) (snd ds) = (e, ds')" by (metis surj_pair)
  note F = flush_account [OF Suc.prems f]
  then show ?case using Suc.IH [of ds'] f by simp
qed simp

lemma background_flushed:
  "delta_inv (fst ds) \<Longrightarrow> pending (fst ds) = (\<lambda>k. 0) \<Longrightarrow> pending (fst (background c ord n ds)) = (\<lambda>k. 0)"
proof (induction n arbitrary: ds)
  case (Suc n)
  obtain e ds' where f: "FlushToDB c ord ''channel1'' (fst ds) (snd ds) = (e, ds')" by (metis surj_pair)
  note F = flush_account [OF Suc.prems(1) f]
  then show ?case using Suc.IH [of ds'] f by simp
qed simp

lemma delta_step_account:
  assumes "delta_inv (fst ds)"
  shows "delta_inv (fst (delta_step c ord n ch key v ds))"
    and "account bal (delta_step c ord n ch key v ds) = (account bal ds)(key := account bal ds key + v)"
proof -
  obtain d s where b: "background c ord n ds = (d, s)" by force
  note B = background_account [OF assms, of n, unfolded b]
  then have d: "delta_inv d" by simp
  note A = ApplyDelta_effect [OF d, of ch key v]
  show "delta_inv (fst (delta_step c ord n ch key v ds))" using A(1) by (simp add: delta_step_def b)
  have "account bal (ApplyDelta ch key v d, s) = (account bal (d, s))(key := account bal (d, s) key + v)"
    by (simp add: account_def A(2) fun_eq_iff)
  then show "account bal (delta_step c ord n ch key v ds) = (account bal ds)(key := account bal ds key + v)"
    using B by (simp add: delta_step_def b)
qed

lemma apply_payment_account:
  assumes "delta_inv (fst ds)"
  shows "delta_inv (fst (apply_payment c ord bg tx r ds))
    \<and> (\<forall>k. account bal (apply_payment c ord bg tx r ds) k = account bal ds k + moved tx r k)"
  using assms by (auto simp: apply_payment_def delta_step_account moved_def)

text \<open>After a flush, with background flushes before and after it, the server has everything.\<close>

lemma settled:
  assumes "delta_inv (fst ds)"
    and "FlushToDB c ord ''channel1'' (fst (background c ord m ds)) (snd (background c ord m ds)) = (e, ds2)"
  shows "bal (snd (background c ord n ds2)) (''channel1'' @ '':'' @ k) = account bal ds k"
proof -
  note B = background_account [OF assms(1), of m]
  have F: "delta_inv (fst ds2)" "account bal ds2 = account bal ds" "pending (fst ds2) = (\<lambda>k. 0)"
    using flush_account [OF _ assms(2)] B by simp_all
  have "account bal (background c ord n ds2) k = account bal ds k" "pending (fst (background c ord n ds2)) k = 0"
    using background_account [OF F(1), of n] background_flushed [OF F(1,3), of n] F(2) by simp_all
  then show ?thesis by (simp add: account_def)
qed

lemma process_payment_account:
  assumes "delta_inv (fst ds)" and "process_payment c ord bg t1 t2 sc tx (ds, al) = (res, ds', al')"
  shows "delta_inv (fst ds')
    \<and> (\<forall>k. account bal ds' k = account bal ds k
         + (if snd (ExecuteRules t1 sc tx) = None then moved tx (fst (ExecuteRules t1 sc tx)) k else 0))"
  using assms apply_payment_account [OF assms(1)]
  by (auto simp: process_payment_def split: prod.splits option.splits)

end

interpretation kv_pay: payment_server kv_client "\<lambda>b. b" kv_bal
  by unfold_locales (simp_all add: kd.send_ok map_order_def)

subsection \<open>Payments conserve money\<close>

lemma moved_sum:
  assumes "finite A" and "SenderID tx \<in> A" and "ReceiverID tx \<in> A" and "treasury \<in> A"
    and "FeeApplied r + NetAmount r = pt_Amount tx"
  shows "(\<Sum>k\<in>A. moved tx r k) = 0"
  using assms(1-4) by (simp add: moved_def sum.distrib add.commute assms(5) [symmetric])

lemma ExecuteRules_split:
  "ExecuteRules t sc tx = (r, None) \<Longrightarrow> FeeApplied r + NetAmount r = pt_Amount tx"
  by (auto simp: ExecuteRules_def Let_def split: if_splits)

text \<open>A sequence of payments, each with its clock readings and background flushes.\<close>

fun pay_all ::
  "'srv RedisClient \<Rightarrow> ((string, i64) gomap \<Rightarrow> (string, i64) gomap) \<Rightarrow> SmartContractEngine
   \<Rightarrow> ((nat \<Rightarrow> nat) \<times> string \<times> string \<times> PaymentTransaction) list \<Rightarrow> (DeltaEngine \<times> 'srv) \<times> AuditLedger
   \<Rightarrow> (DeltaEngine \<times> 'srv) \<times> AuditLedger" where
  "pay_all c ord sc [] st = st"
| "pay_all c ord sc ((bg, t1, t2, tx) # ps) st =
     pay_all c ord sc ps (snd (process_payment c ord bg t1 t2 sc tx st))"

definition accepted :: "SmartContractEngine \<Rightarrow> (nat \<Rightarrow> nat) \<times> string \<times> string \<times> PaymentTransaction \<Rightarrow> bool" where
  "accepted sc p = (case p of (bg, t1, t2, tx) \<Rightarrow> 0 < sint (pt_Amount tx) \<and> sint (pt_Amount tx) \<le> sint (MaxTxLimit sc))"

lemma accepted_iff: "accepted sc (bg, t1, t2, tx) \<longleftrightarrow> snd (ExecuteRules t1 sc tx) = None"
  by (auto simp: accepted_def ExecuteRules_def Let_def)

lemma process_payment_ledger:
  assumes "process_payment c ord bg t1 t2 sc tx (ds, al) = (res, ds', al')"
  shows "GetChainHeight al' = GetChainHeight al + (if accepted sc (bg, t1, t2, tx) then 1 else 0)"
  using assms
  by (auto simp: accepted_iff process_payment_def AppendTransaction_def GetChainHeight_def Let_def
      split: prod.splits option.splits)

context payment_server
begin

lemma process_payment_total:
  assumes "delta_inv (fst ds)" and "process_payment c ord bg t1 t2 sc tx (ds, al) = (res, ds', al')"
    and "finite A" and "SenderID tx \<in> A" and "ReceiverID tx \<in> A" and "treasury \<in> A"
  shows "(\<Sum>k\<in>A. account bal ds' k) = (\<Sum>k\<in>A. account bal ds k)"
proof -
  obtain r e where x: "ExecuteRules t1 sc tx = (r, e)" by force
  have acc: "account bal ds' k = account bal ds k + (if e = None then moved tx r k else 0)" for k
    using process_payment_account [OF assms(1,2)] x by simp
  show ?thesis
  proof (cases e)
    case None
    then have "(\<Sum>k\<in>A. moved tx r k) = 0"
      using moved_sum [OF assms(3-6)] ExecuteRules_split x by blast
    then show ?thesis using None acc by (simp add: sum.distrib)
  next
    case (Some m)
    then show ?thesis using acc by simp
  qed
qed

lemma pay_all_total:
  assumes "finite A" and "treasury \<in> A"
  shows "delta_inv (fst ds) \<Longrightarrow> \<forall>(bg, t1, t2, tx) \<in> set ps. SenderID tx \<in> A \<and> ReceiverID tx \<in> A \<Longrightarrow>
    pay_all c ord sc ps (ds, al) = (ds', al') \<Longrightarrow>
    (\<Sum>k\<in>A. account bal ds' k) = (\<Sum>k\<in>A. account bal ds k)
    \<and> GetChainHeight al' = GetChainHeight al + int (length (filter (accepted sc) ps))"
proof (induction ps arbitrary: ds al)
  case (Cons p ps)
  obtain bg t1 t2 tx where p: "p = (bg, t1, t2, tx)" by (metis prod_cases4)
  obtain res ds1 al1 where s: "process_payment c ord bg t1 t2 sc tx (ds, al) = (res, ds1, al1)" by (metis prod_cases3)
  have parties: "SenderID tx \<in> A" "ReceiverID tx \<in> A" using Cons.prems(2) p by auto
  have run: "pay_all c ord sc ps (ds1, al1) = (ds', al')" using Cons.prems(3) p s by simp
  have inv: "delta_inv (fst ds1)" using process_payment_account [OF Cons.prems(1) s] by blast
  show ?case
    using Cons.IH [OF inv _ run] Cons.prems(2) process_payment_total [OF Cons.prems(1) s assms(1) parties assms(2)]
      process_payment_ledger [OF s] p by simp
qed simp

end

text \<open>
  C6 Payments conserve money: over every sequence of payments, approved or rejected, with any number of
  background flushes between their deltas and a server that executes its INCRBY pipelines, the sum
  over all parties and the treasury of stored and pending balances (as 64-bit integers) does not
  change, and the audit ledger grows by exactly one entry per approved payment.
\<close>

theorem payments_conserve_money:
  assumes "\<And>cs s k. fst (rc_exec c cs s) = None \<and> bal (snd (rc_exec c cs s)) k = bal s k + added cs k"
    and "map_order ord" and "finite A" and "treasury \<in> A"
    and "\<forall>(bg, t1, t2, tx) \<in> set ps. SenderID tx \<in> A \<and> ReceiverID tx \<in> A"
    and "pay_all c ord sc ps ((New_Delta, s), NewAuditLedger now) = (ds', al')"
  shows "(\<Sum>k\<in>A. account bal ds' k) = (\<Sum>k\<in>A. account bal (New_Delta, s) k)
    \<and> GetChainHeight al' = 1 + int (length (filter (accepted sc) ps))"
proof -
  have ps: "payment_server c ord bal"
    by (rule payment_server.intro [OF keydb_incr_server [where bal = bal, OF assms(1)] assms(2)])
  show ?thesis
    using payment_server.pay_all_total [OF ps assms(3,4) _ assms(5,6)] delta_inv_New
    by (simp add: GetChainHeight_def NewAuditLedger_def Let_def)
qed

theorem payments_conserve_money_witness:
  "\<exists>ds' al'. pay_all kv_client (\<lambda>b. b) NewSmartContractEngine [(\<lambda>i. 1, ''t'', ''u'', sample_tx)]
      ((New_Delta, []), NewAuditLedger ''now'') = (ds', al')
    \<and> (\<Sum>k\<in>{''acc_alice'', ''acc_bob'', treasury}. account kv_bal ds' k)
      = (\<Sum>k\<in>{''acc_alice'', ''acc_bob'', treasury}. account kv_bal (New_Delta, []) k)"
proof -
  obtain ds' al' where r: "pay_all kv_client (\<lambda>b. b) NewSmartContractEngine [(\<lambda>i. 1, ''t'', ''u'', sample_tx)]
      ((New_Delta, []), NewAuditLedger ''now'') = (ds', al')" by (metis surj_pair)
  have ord: "map_order (\<lambda>b. b)" by (simp add: map_order_def)
  have "finite {''acc_alice'', ''acc_bob'', treasury}" "treasury \<in> {''acc_alice'', ''acc_bob'', treasury}" by simp_all
  moreover have "\<forall>(bg, t1, t2, tx) \<in> set [(\<lambda>i :: nat. 1 :: nat, ''t'', ''u'', sample_tx)].
      SenderID tx \<in> {''acc_alice'', ''acc_bob'', treasury} \<and> ReceiverID tx \<in> {''acc_alice'', ''acc_bob'', treasury}"
    by (simp add: sample_tx_def)
  ultimately show ?thesis
    using payments_conserve_money [where bal = kv_bal, OF kv_law ord _ _ _ r] r by blast
qed



end
