(* ===== verification/Go_Http.thy ===== *)
theory Go_Http
  imports Go_Json Complex_Main "HOL-Library.Sublist"
begin

text \<open>
  What the handlers of the dashboards use of \<^verbatim>\<open>net/http\<close> and \<^verbatim>\<open>fmt\<close>: a response as its
  status, content type and body, \<^verbatim>\<open>http.Error\<close>, the request multiplexer, the JSON encoder
  writing to a response, and the verb \<^verbatim>\<open>%.2f\<close>. A handler takes the request method and the outcome of decoding the body,
  an error or the decoded fields. Values of type \<^verbatim>\<open>float64\<close> are exact rational numbers: the
  rounding of floating-point operations is not modelled.
\<close>

record Response =
  rs_Status :: int
  rs_Type :: string
  rs_Body :: string

definition StatusOK :: int where "StatusOK = 200"
definition StatusAccepted :: int where "StatusAccepted = 202"
definition StatusBadRequest :: int where "StatusBadRequest = 400"
definition StatusNotFound :: int where "StatusNotFound = 404"
definition StatusMethodNotAllowed :: int where "StatusMethodNotAllowed = 405"
definition StatusInternalServerError :: int where "StatusInternalServerError = 500"

definition http_Error :: "string \<Rightarrow> int \<Rightarrow> Response" where
  "http_Error msg code = \<lparr>rs_Status = code, rs_Type = ''text/plain; charset=utf-8'', rs_Body = msg @ [CHR 0x0A]\<rparr>"

text \<open>A JSON object encoded from a map has its keys in ascending order.\<close>

definition json_reply :: "int \<Rightarrow> json \<Rightarrow> Response" where
  "json_reply code j = \<lparr>rs_Status = code, rs_Type = ''application/json'', rs_Body = print_json j @ [CHR 0x0A]\<rparr>"

text \<open>A body written after \<^verbatim>\<open>WriteHeader\<close> without a content type: the server sniffs plain text.\<close>

definition plain_reply :: "int \<Rightarrow> json \<Rightarrow> Response" where
  "plain_reply code j = \<lparr>rs_Status = code, rs_Type = ''text/plain; charset=utf-8'', rs_Body = print_json j @ [CHR 0x0A]\<rparr>"

definition json_nat :: "nat \<Rightarrow> json" where
  "json_nat n = JNum (show_nat n)"

definition json_int :: "int \<Rightarrow> json" where
  "json_int n = JNum (show_int n)"

definition html_reply :: "string \<Rightarrow> string \<Rightarrow> Response" where
  "html_reply typ page = \<lparr>rs_Status = StatusOK, rs_Type = typ, rs_Body = page\<rparr>"

text \<open>
  A \<^verbatim>\<open>ServeMux\<close>: its patterns in the order of registration. Registering a pattern twice panics,
  which is \<open>None\<close>. A request goes to the handler of the pattern that equals its path, else to the
  longest pattern that ends in a slash and is a prefix of the path. The path is the cleaned one;
  the mux redirects any other to it.
\<close>

type_synonym 'h mux = "(string \<times> 'h) list"

fun mux_register :: "(string \<times> 'h) list \<Rightarrow> 'h mux \<Rightarrow> 'h mux option" where
  "mux_register [] mux = Some mux"
| "mux_register ((pat, h) # rs) mux = (if pat \<in> fst ` set mux then None else mux_register rs (mux @ [(pat, h)]))"

definition mux_Handler :: "'h mux \<Rightarrow> string \<Rightarrow> 'h option" where
  "mux_Handler mux path =
     (case map_of mux path of
        Some h \<Rightarrow> Some h
      | None \<Rightarrow>
          (case rev (sort_key (\<lambda>(pat, h). length pat)
                  (filter (\<lambda>(pat, h). pat \<noteq> [] \<and> last pat = CHR ''/'' \<and> prefix pat path) mux)) of
             [] \<Rightarrow> None
           | (pat, h) # _ \<Rightarrow> Some h))"

lemma mux_register_eq:
  "distinct (map fst rs) \<Longrightarrow> fst ` set rs \<inter> fst ` set mux = {} \<Longrightarrow> mux_register rs mux = Some (mux @ rs)"
  by (induction rs mux rule: mux_register.induct) auto

text \<open>When the root is the only pattern that ends in a slash, it takes every path no pattern equals.\<close>

lemma mux_Handler_root:
  assumes "map_of mux path = None" and "prefix ''/'' path"
    and "filter (\<lambda>(pat, h). pat \<noteq> [] \<and> last pat = CHR ''/'') mux = [(''/'', h)]"
  shows "mux_Handler mux path = Some h"
proof -
  have "filter (\<lambda>(pat, h). pat \<noteq> [] \<and> last pat = CHR ''/'' \<and> prefix pat path) mux
      = filter (\<lambda>(pat, h). prefix pat path) (filter (\<lambda>(pat, h). pat \<noteq> [] \<and> last pat = CHR ''/'') mux)"
    by (simp add: case_prod_unfold)
  then show ?thesis using assms by (simp add: mux_Handler_def)
qed

text \<open>The verb \<^verbatim>\<open>%.2f\<close> on a value that is not negative, ties to even.\<close>

definition show_fixed2 :: "rat \<Rightarrow> string" where
  "show_fixed2 q =
     (let x = q * 100; f = \<lfloor>x\<rfloor>; r = x - of_int f;
          n = nat (if r < 1 / 2 \<or> r = 1 / 2 \<and> even f then f else f + 1)
      in show_nat (n div 100) @ ''.'' @ show_pad 2 (n mod 100))"

end
