(* ===== verification/Control_Center.thy ===== *)
theory Control_Center
  imports Payment_Flow Go_Http
begin

text \<open>
  The control center of \<^verbatim>\<open>cmd/dashboard/main.go\<close>: its log and its list of recent transactions,
  the workers that copy transactions to YugabyteDB in batches, the benchmark with its jobs, ticker
  and result, and the handlers that inspect the state. The package-level variables and the locals
  of a benchmark run are one record; the databases are a state \<open>'w\<close> with the KeyDB client and a
  function that executes an SQL statement with its values. The goroutines are the events of a run,
  in the order the scheduler gives them; an event that cannot happen (a receive from an empty
  channel, a send to a full one) is \<open>None\<close>. Routes, \<^verbatim>\<open>main\<close> and runs after one another are
  in \<open>Control_System\<close>; log output to the console is not modelled.
\<close>

record DashMetrics =
  mt_TotalTxns :: u64
  mt_ProcessedTxns :: u64
  mt_PersistedYuga :: u64
  mt_FailedTxns :: u64
  mt_CurrentTPS :: rat
  mt_AvgLatencyMs :: rat
  mt_ProgressPct :: rat
  mt_IsRunning :: bool
  mt_ElapsedSeconds :: rat

record 'w ControlCenter =
  cc_metrics :: DashMetrics
  cc_delta :: DeltaEngine
  cc_contract :: SmartContractEngine
  cc_ledger :: AuditLedger
  cc_logs :: "string list"
  cc_yugaDB :: bool
  cc_yugaChan :: "PaymentTransaction list"
  cc_batches :: "PaymentTransaction list list"
  cc_persisted :: u64
  cc_recent :: "PaymentTransaction list option"
  cc_processed :: u64
  cc_failed :: u64
  cc_latency :: i64
  cc_world :: 'w

definition addLog :: "string \<Rightarrow> string \<Rightarrow> 'w ControlCenter \<Rightarrow> 'w ControlCenter" where
  "addLog stamp msg st =
     (let l = cc_logs st @ [''['' @ stamp @ ''] '' @ msg]
      in st\<lparr>cc_logs := (if length l > 200 then drop 1 l else l)\<rparr>)"

text \<open>The list of recent transactions is nil until the first benchmark makes it.\<close>

definition recent_list :: "'w ControlCenter \<Rightarrow> PaymentTransaction list" where
  "recent_list st = (case cc_recent st of None \<Rightarrow> [] | Some l \<Rightarrow> l)"

definition storeTransaction :: "PaymentTransaction \<Rightarrow> 'w ControlCenter \<Rightarrow> 'w ControlCenter" where
  "storeTransaction tx st =
     (let l = recent_list st @ [tx]
      in st\<lparr>cc_recent := Some (if length l > 1000 then drop 1 l else l)\<rparr>)"

subsection \<open>Persistence to YugabyteDB\<close>

datatype sql_value = SqlText string | SqlInt i64 | SqlTime string

type_synonym 'w sql_exec = "string \<Rightarrow> sql_value list \<Rightarrow> 'w \<Rightarrow> string option \<times> 'w"

definition yuga_insert :: string where
  "yuga_insert = ''INSERT INTO transactions (tx_id, sender_id, receiver_id, amount, currency, channel_id, created_at) VALUES ''"

definition yuga_row :: "nat \<Rightarrow> string" where
  "yuga_row i = ''('' @ concat (map (\<lambda>j. ''$'' @ show_nat (i * 7 + j) @ (if j < 7 then '', '' else '''')) [1..<8]) @ ''),''"

definition yuga_vals :: "PaymentTransaction \<Rightarrow> sql_value list" where
  "yuga_vals tx = [SqlText (pt_TxID tx), SqlText (SenderID tx), SqlText (ReceiverID tx), SqlInt (pt_Amount tx),
     SqlText (Currency tx), SqlText (ChannelID tx), SqlTime (pt_Timestamp tx)]"

definition flushBatchToYugabyte ::
  "'w sql_exec \<Rightarrow> bool \<Rightarrow> PaymentTransaction list \<Rightarrow> 'w \<Rightarrow> string option \<times> 'w" where
  "flushBatchToYugabyte exec db batch w =
     (if \<not> db \<or> length batch = 0 then (None, w)
      else exec (butlast (yuga_insert @ concat (map yuga_row [0..<length batch]))) (concat (map yuga_vals batch)) w)"

definition yuga_flush :: "'w sql_exec \<Rightarrow> PaymentTransaction list \<Rightarrow> 'w ControlCenter \<Rightarrow> 'w ControlCenter" where
  "yuga_flush exec batch st =
     (case flushBatchToYugabyte exec (cc_yugaDB st) batch (cc_world st) of
        (None, w) \<Rightarrow> st\<lparr>cc_world := w, cc_persisted := cc_persisted st + of_nat (length batch)\<rparr>
      | (Some e, w) \<Rightarrow> st\<lparr>cc_world := w\<rparr>)"

text \<open>Starting the workers makes the channel, of capacity 150000, and an empty batch for each.\<close>

definition yugaCap :: nat where
  "yugaCap = 150000"

definition startYugabyteWorkers :: "nat \<Rightarrow> 'w ControlCenter \<Rightarrow> 'w ControlCenter" where
  "startYugabyteWorkers numWorkers st = st\<lparr>cc_yugaChan := [], cc_batches := replicate numWorkers []\<rparr>"

definition yuga_recv :: "'w sql_exec \<Rightarrow> nat \<Rightarrow> 'w ControlCenter \<Rightarrow> 'w ControlCenter option" where
  "yuga_recv exec i st =
     (if i < length (cc_batches st)
      then (case cc_yugaChan st of
              [] \<Rightarrow> None
            | tx # rest \<Rightarrow>
                (let batch = cc_batches st ! i @ [tx]; st1 = st\<lparr>cc_yugaChan := rest\<rparr>
                 in if length batch \<ge> 500 \<or> length rest = 0
                    then Some ((yuga_flush exec batch st1)\<lparr>cc_batches := (cc_batches st)[i := []]\<rparr>)
                    else Some (st1\<lparr>cc_batches := (cc_batches st)[i := batch]\<rparr>)))
      else None)"

text \<open>
  Opening and pinging the database are calls of \<^verbatim>\<open>database/sql\<close>; the outcome of each is an
  argument. A handle that was opened and cannot be pinged is dropped.
\<close>

definition initYugabyte :: "string option \<Rightarrow> string option \<Rightarrow> 'w ControlCenter \<Rightarrow> 'w ControlCenter" where
  "initYugabyte opened pinged st =
     (case opened of
        Some e \<Rightarrow> st\<lparr>cc_yugaDB := False\<rparr>
      | None \<Rightarrow>
          (case pinged of
             Some e \<Rightarrow> st\<lparr>cc_yugaDB := False\<rparr>
           | None \<Rightarrow> startYugabyteWorkers 16 (st\<lparr>cc_yugaDB := True\<rparr>)))"

subsection \<open>The benchmark\<close>

definition zero_metrics :: DashMetrics where
  "zero_metrics = \<lparr>mt_TotalTxns = 0, mt_ProcessedTxns = 0, mt_PersistedYuga = 0, mt_FailedTxns = 0, mt_CurrentTPS = 0,
     mt_AvgLatencyMs = 0, mt_ProgressPct = 0, mt_IsRunning = False, mt_ElapsedSeconds = 0\<rparr>"

text \<open>The handler answers and says whether it starts a run of 100000 transactions.\<close>

definition handleStartLoadTest :: "'w ControlCenter \<Rightarrow> (Response \<times> u64 option) \<times> 'w ControlCenter" where
  "handleStartLoadTest st =
     (if mt_IsRunning (cc_metrics st)
      then ((http_Error ''Benchmark already running'' StatusBadRequest, None), st)
      else ((json_reply StatusOK (JObj [(''status'', JStr ''STARTED''), (''target'', JStr ''100,000'')]), Some 100000),
            st\<lparr>cc_metrics := zero_metrics\<lparr>mt_TotalTxns := 100000, mt_IsRunning := True\<rparr>, cc_persisted := 0,
               cc_recent := Some []\<rparr>))"

definition acc_name :: "nat \<Rightarrow> string" where
  "acc_name i = ''acc_'' @ show_nat i"

definition bench_tx :: "u64 \<Rightarrow> string \<Rightarrow> PaymentTransaction" where
  "bench_tx jid now = \<lparr>pt_TxID = ''TX_'' @ show_pad 8 (unat jid), SenderID = acc_name (unat jid mod 1000),
     ReceiverID = acc_name (unat (jid + 1) mod 1000), pt_Amount = 1000, Currency = ''USD'', ChannelID = ''channel1'',
     pt_Timestamp = now, Signature = ''''\<rparr>"

text \<open>A job with the readings of the clock it makes and the time it took.\<close>

record bench_clock =
  bc_now :: string
  bc_rules :: string
  bc_ledger :: string
  bc_log :: string
  bc_duration :: i64

definition send_yuga :: "PaymentTransaction \<Rightarrow> 'w ControlCenter \<Rightarrow> 'w ControlCenter option" where
  "send_yuga tx st =
     (if \<not> cc_yugaDB st then Some st
      else if length (cc_yugaChan st) < yugaCap then Some (st\<lparr>cc_yugaChan := cc_yugaChan st @ [tx]\<rparr>)
      else None)"

definition bolt :: string where "bolt = utf8_encode 0x26A1"
definition rocket :: string where "rocket = utf8_encode 0x1F680"
definition tick_mark :: string where "tick_mark = utf8_encode 0x2705"

definition count_job :: "u64 \<Rightarrow> bench_clock \<Rightarrow> 'w ControlCenter \<Rightarrow> 'w ControlCenter" where
  "count_job totalTxns t st =
     (let current = cc_processed st + 1;
          st1 = st\<lparr>cc_latency := cc_latency st + bc_duration t, cc_processed := current\<rparr>
      in if current mod 20000 = 0
         then addLog (bc_log t) (bolt @ '' Processed '' @ show_nat (unat current) @ '' / '' @ show_nat (unat totalTxns) @ '' txns...'') st1
         else st1)"

definition bench_job :: "u64 \<Rightarrow> u64 \<Rightarrow> bench_clock \<Rightarrow> 'w ControlCenter \<Rightarrow> 'w ControlCenter option" where
  "bench_job totalTxns jid t st =
     (let tx = bench_tx jid (bc_now t)
      in case ExecuteRules (bc_rules t) (cc_contract st) tx of
           (receipt, Some e) \<Rightarrow> Some (st\<lparr>cc_failed := cc_failed st + 1\<rparr>)
         | (receipt, None) \<Rightarrow>
             (let d1 = ApplyDelta (ChannelID tx) (SenderID tx) (- pt_Amount tx) (cc_delta st);
                  d2 = ApplyDelta (ChannelID tx) (ReceiverID tx) (NetAmount receipt) d1;
                  al = (if jid mod 10 = 0 then snd (AppendTransaction (bc_ledger t) tx receipt (cc_ledger st)) else cc_ledger st)
              in case send_yuga tx (st\<lparr>cc_delta := d2, cc_ledger := al\<rparr>) of
                   None \<Rightarrow> None
                 | Some st1 \<Rightarrow> Some (count_job totalTxns t (storeTransaction tx st1))))"

text \<open>One tick of the metrics goroutine; the flag says that it stops.\<close>

definition bench_tick :: "u64 \<Rightarrow> rat \<Rightarrow> 'w ControlCenter \<Rightarrow> bool \<times> 'w ControlCenter" where
  "bench_tick totalTxns elapsed st =
     (if elapsed = 0 then (False, st)
      else let p = cc_processed st;
               avgLat = (if p > 0 then of_int (sint (go_div (cc_latency st) p)) / 1000000 else 0);
               mt = (cc_metrics st)\<lparr>mt_ProcessedTxns := p, mt_PersistedYuga := cc_persisted st, mt_FailedTxns := cc_failed st,
                      mt_CurrentTPS := of_nat (unat p) / elapsed, mt_AvgLatencyMs := avgLat, mt_ElapsedSeconds := elapsed,
                      mt_ProgressPct := of_nat (unat p) / of_nat (unat totalTxns) * 100\<rparr>
           in (\<not> mt_IsRunning mt \<or> p \<ge> totalTxns, st\<lparr>cc_metrics := mt\<rparr>))"

definition bench_start :: "u64 \<Rightarrow> string \<Rightarrow> 'w ControlCenter \<Rightarrow> 'w ControlCenter" where
  "bench_start totalTxns stamp st =
     (addLog stamp (rocket @ '' Starting benchmark run for '' @ show_nat (unat totalTxns) @ '' transactions...'') st)
       \<lparr>cc_processed := 0, cc_failed := 0, cc_latency := 0\<rparr>"

definition bench_finish :: "string \<Rightarrow> rat \<Rightarrow> 'w ControlCenter \<Rightarrow> 'w ControlCenter" where
  "bench_finish stamp totalElapsed st =
     (let finalTPS = of_nat (unat (cc_processed st)) / totalElapsed
      in addLog stamp (tick_mark @ '' BENCHMARK COMPLETE! '' @ show_nat (unat (cc_processed st)) @ '' Txns in ''
             @ show_fixed2 totalElapsed @ ''s (TPS: '' @ show_fixed2 finalTPS @ '')'')
           (st\<lparr>cc_metrics := (cc_metrics st)\<lparr>mt_IsRunning := False, mt_CurrentTPS := finalTPS, mt_ProgressPct := 100\<rparr>\<rparr>))"

datatype bench_event = Job u64 bench_clock | YugaRecv nat | Tick rat | FlushTick

definition bench_step ::
  "'w RedisClient \<Rightarrow> ((string, i64) gomap \<Rightarrow> (string, i64) gomap) \<Rightarrow> 'w sql_exec \<Rightarrow> u64 \<Rightarrow> bench_event
   \<Rightarrow> 'w ControlCenter \<Rightarrow> 'w ControlCenter option" where
  "bench_step c ord exec totalTxns ev st =
     (case ev of
        Job jid t \<Rightarrow> bench_job totalTxns jid t st
      | YugaRecv i \<Rightarrow> yuga_recv exec i st
      | Tick elapsed \<Rightarrow> Some (snd (bench_tick totalTxns elapsed st))
      | FlushTick \<Rightarrow>
          (case FlushToDB c ord ''channel1'' (cc_delta st) (cc_world st) of
             (e, d, w) \<Rightarrow> Some (st\<lparr>cc_delta := d, cc_world := w\<rparr>)))"

fun bench_run ::
  "'w RedisClient \<Rightarrow> ((string, i64) gomap \<Rightarrow> (string, i64) gomap) \<Rightarrow> 'w sql_exec \<Rightarrow> u64 \<Rightarrow> bench_event list
   \<Rightarrow> 'w ControlCenter \<Rightarrow> 'w ControlCenter option" where
  "bench_run c ord exec totalTxns [] st = Some st"
| "bench_run c ord exec totalTxns (ev # evs) st =
     (case bench_step c ord exec totalTxns ev st of
        None \<Rightarrow> None
      | Some st' \<Rightarrow> bench_run c ord exec totalTxns evs st')"

definition runBenchmark ::
  "'w RedisClient \<Rightarrow> ((string, i64) gomap \<Rightarrow> (string, i64) gomap) \<Rightarrow> 'w sql_exec \<Rightarrow> u64 \<Rightarrow> string \<Rightarrow> bench_event list
   \<Rightarrow> string \<Rightarrow> rat \<Rightarrow> 'w ControlCenter \<Rightarrow> 'w ControlCenter option" where
  "runBenchmark c ord exec totalTxns t0 evs t1 totalElapsed st =
     map_option (bench_finish t1 totalElapsed) (bench_run c ord exec totalTxns evs (bench_start totalTxns t0 st))"

subsection \<open>Handlers\<close>

definition handleStats :: "'w ControlCenter \<Rightarrow> DashMetrics" where
  "handleStats st = cc_metrics st"

definition handleLogs :: "'w ControlCenter \<Rightarrow> Response" where
  "handleLogs st = json_reply StatusOK (case cc_logs st of [] \<Rightarrow> JNull | ls \<Rightarrow> JArr (map JStr ls))"

definition keydb_view :: "'w RedisClient \<Rightarrow> 'w \<Rightarrow> nat \<Rightarrow> bytes \<times> json" where
  "keydb_view c w i =
     (acc_name i,
      JStr (case keydb_GetState c ''channel1'' (acc_name i) w of
              Inl e \<Rightarrow> ''KeyDB Offline / Not Found''
            | Inr None \<Rightarrow> '' cents''
            | Inr (Some val) \<Rightarrow> val @ '' cents''))"

definition handleInspectKeyDB :: "'w RedisClient \<Rightarrow> 'w ControlCenter \<Rightarrow> Response" where
  "handleInspectKeyDB c st = json_reply StatusOK (JObj (map (keydb_view c (cc_world st)) [0..<10]))"

definition handleInspectLedger :: "'w ControlCenter \<Rightarrow> Response" where
  "handleInspectLedger st = json_reply StatusOK
     (JObj [(''chain_height_sampled_blocks'', json_int (GetChainHeight (cc_ledger st))),
            (''engine'', JStr ''HED-Core Cryptographic Chain''), (''status'', JStr ''IMMUTABLE_HASH_VERIFIED'')])"

definition tx_json :: "PaymentTransaction \<Rightarrow> json" where
  "tx_json tx = JObj [(''tx_id'', JStr (pt_TxID tx)), (''sender_id'', JStr (SenderID tx)), (''receiver_id'', JStr (ReceiverID tx)),
     (''amount'', json_int (sint (pt_Amount tx))), (''currency'', JStr (Currency tx)), (''channel_id'', JStr (ChannelID tx)),
     (''timestamp'', JStr (pt_Timestamp tx)), (''signature'', JStr (Signature tx))]"

definition handleInspectTransactions :: "'w ControlCenter \<Rightarrow> Response" where
  "handleInspectTransactions st =
     (case cc_recent st of
        None \<Rightarrow> json_reply StatusOK JNull
      | Some l \<Rightarrow>
          (let start = (if length l > 50 then length l - 50 else 0)
           in json_reply StatusOK (JArr (map tx_json (drop start l)))))"

definition handleInspectYugabyte :: "('w \<Rightarrow> string + i64) \<Rightarrow> 'w ControlCenter \<Rightarrow> Response" where
  "handleInspectYugabyte count_rows st =
     (if \<not> cc_yugaDB st then json_reply StatusOK (JObj [(''status'', JStr ''YugabyteDB Not Connected'')])
      else case count_rows (cc_world st) of
             Inl e \<Rightarrow> http_Error e StatusInternalServerError
           | Inr n \<Rightarrow> json_reply StatusOK
               (JObj [(''status'', JStr ''CONNECTED_AND_SYNCED''), (''yugabyte_total_row_count'', json_int (sint n))]))"

subsection \<open>The effect of a run\<close>

text \<open>What every event keeps: the invariant of the delta engine, the contract, and the bounds of the two lists.\<close>

definition bench_ok :: "'w ControlCenter \<Rightarrow> bool" where
  "bench_ok st \<longleftrightarrow> delta_inv (cc_delta st) \<and> cc_contract st = NewSmartContractEngine
     \<and> length (cc_logs st) \<le> 200 \<and> length (recent_list st) \<le> 1000"

definition bench_accounts :: "string set" where
  "bench_accounts = acc_name ` {..<1000}"

fun job_ids :: "bench_event list \<Rightarrow> u64 list" where
  "job_ids [] = []"
| "job_ids (Job j t # evs) = j # job_ids evs"
| "job_ids (_ # evs) = job_ids evs"

lemma addLog_frame [frame_simps]:
  "cc_metrics (addLog s m st) = cc_metrics st" "cc_delta (addLog s m st) = cc_delta st"
  "cc_contract (addLog s m st) = cc_contract st" "cc_ledger (addLog s m st) = cc_ledger st"
  "cc_recent (addLog s m st) = cc_recent st" "cc_processed (addLog s m st) = cc_processed st"
  "cc_failed (addLog s m st) = cc_failed st" "cc_world (addLog s m st) = cc_world st"
  "recent_list (addLog s m st) = recent_list st"
  by (simp_all add: addLog_def Let_def recent_list_def)

lemma addLog_bound: "length (cc_logs st) \<le> 200 \<Longrightarrow> length (cc_logs (addLog s m st)) \<le> 200"
  by (auto simp: addLog_def Let_def)

lemma bench_receipt:
  "ExecuteRules t NewSmartContractEngine (bench_tx j now) = (r, e) \<Longrightarrow> e = None \<and> FeeApplied r = 1 \<and> NetAmount r = 999"
  by (auto simp: ExecuteRules_def NewSmartContractEngine_def bench_tx_def go_div_def Let_def signed_divide_int_def)

lemma bench_parties: "SenderID (bench_tx j now) \<in> bench_accounts" "ReceiverID (bench_tx j now) \<in> bench_accounts"
  by (simp_all add: bench_tx_def bench_accounts_def)

text \<open>The parts of a job after the two deltas: channel, recent transactions, counters and log.\<close>

lemma job_tail:
  assumes "send_yuga tx st = Some st1" and "length (cc_logs st) \<le> 200" and "length (recent_list st) \<le> 1000"
  shows "cc_delta (count_job n t (storeTransaction tx st1)) = cc_delta st"
    "cc_world (count_job n t (storeTransaction tx st1)) = cc_world st"
    "cc_contract (count_job n t (storeTransaction tx st1)) = cc_contract st"
    "cc_ledger (count_job n t (storeTransaction tx st1)) = cc_ledger st"
    "cc_processed (count_job n t (storeTransaction tx st1)) = cc_processed st + 1"
    "cc_failed (count_job n t (storeTransaction tx st1)) = cc_failed st"
    "length (cc_logs (count_job n t (storeTransaction tx st1))) \<le> 200"
    "length (recent_list (count_job n t (storeTransaction tx st1))) \<le> 1000"
  using assms
  by (auto simp: send_yuga_def count_job_def storeTransaction_def Let_def frame_simps recent_list_def
      split: if_splits intro!: addLog_bound)

text \<open>The stored and pending balance of an account.\<close>

definition holding :: "('w \<Rightarrow> string \<Rightarrow> i64) \<Rightarrow> 'w ControlCenter \<Rightarrow> string \<Rightarrow> i64" where
  "holding bal st = account bal (cc_delta st, cc_world st)"

locale bench_world = payment_server c ord bal
  for c :: "'w RedisClient" and ord and bal :: "'w \<Rightarrow> string \<Rightarrow> i64" +
  fixes exec :: "'w sql_exec"
  assumes exec_bal: "bal (snd (exec q vs w)) = bal w"
begin

lemma job_effect:
  assumes "bench_ok st" and "bench_job n j t st = Some st'"
  shows "bench_ok st' \<and> cc_processed st' = cc_processed st + 1 \<and> cc_failed st' = cc_failed st
    \<and> GetChainHeight (cc_ledger st') = GetChainHeight (cc_ledger st) + (if j mod 10 = 0 then 1 else 0)
    \<and> (\<Sum>k\<in>bench_accounts. holding bal st' k) = (\<Sum>k\<in>bench_accounts. holding bal st k) - 1"
proof -
  let ?tx = "bench_tx j (bc_now t)"
  obtain r e where x: "ExecuteRules (bc_rules t) NewSmartContractEngine ?tx = (r, e)" by force
  have ok: "delta_inv (cc_delta st)" "cc_contract st = NewSmartContractEngine" "length (cc_logs st) \<le> 200"
    "length (recent_list st) \<le> 1000"
    using assms(1) by (simp_all add: bench_ok_def)
  have rec: "e = None" "NetAmount r = 999" using bench_receipt [OF x] by simp_all
  let ?d1 = "ApplyDelta (ChannelID ?tx) (SenderID ?tx) (- pt_Amount ?tx) (cc_delta st)"
  let ?d = "ApplyDelta (ChannelID ?tx) (ReceiverID ?tx) (NetAmount r) ?d1"
  let ?al = "if j mod 10 = 0 then snd (AppendTransaction (bc_ledger t) ?tx r (cc_ledger st)) else cc_ledger st"
  let ?st0 = "st\<lparr>cc_delta := ?d, cc_ledger := ?al\<rparr>"
  obtain st1 where s: "send_yuga ?tx ?st0 = Some st1" "st' = count_job n t (storeTransaction ?tx st1)"
    using assms(2) x rec(1) ok(2) by (auto simp: bench_job_def Let_def split: option.splits)
  have "length (cc_logs ?st0) \<le> 200" "length (recent_list ?st0) \<le> 1000" using ok by (simp_all add: recent_list_def)
  note J = job_tail [OF s(1) this, of n t, folded s(2)]
  note A = ApplyDelta_effect [OF ok(1), of "ChannelID ?tx" "SenderID ?tx" "- pt_Amount ?tx"]
  note B = ApplyDelta_effect [OF A(1), of "ChannelID ?tx" "ReceiverID ?tx" "NetAmount r"]
  have h: "holding bal st' k = holding bal st k + (if k = SenderID ?tx then - 1000 else 0) + (if k = ReceiverID ?tx then 999 else 0)" for k
    using J(1,2) A(2) B(2) rec(2) by (simp add: holding_def account_def bench_tx_def)
  have "(\<Sum>k\<in>bench_accounts. holding bal st' k) = (\<Sum>k\<in>bench_accounts. holding bal st k) - 1"
    using bench_parties [of j "bc_now t"] by (simp add: h sum.distrib bench_accounts_def)
  moreover have "bench_ok st'" using J ok(2) B(1) by (simp add: bench_ok_def)
  moreover have "GetChainHeight (cc_ledger st') = GetChainHeight (cc_ledger st) + (if j mod 10 = 0 then 1 else 0)"
    using J(4) by (simp add: GetChainHeight_def AppendTransaction_def Let_def)
  ultimately show ?thesis using J(5,6) by simp
qed

text \<open>Every other event leaves the counts, the ledger and every holding as they are.\<close>

lemma other_effect:
  assumes "bench_ok st" and "bench_step c ord exec n ev st = Some st'" and "\<And>j t. ev \<noteq> Job j t"
  shows "bench_ok st' \<and> cc_processed st' = cc_processed st \<and> cc_failed st' = cc_failed st
    \<and> cc_ledger st' = cc_ledger st \<and> holding bal st' = holding bal st"
proof (cases ev)
  case (Job j t)
  then show ?thesis using assms(3) by blast
next
  case (YugaRecv i)
  have fl: "bal (snd (flushBatchToYugabyte exec db b w)) = bal w" for db b w
    by (simp add: flushBatchToYugabyte_def exec_bal)
  have yf: "cc_delta (yuga_flush exec b s) = cc_delta s" "cc_contract (yuga_flush exec b s) = cc_contract s"
    "cc_logs (yuga_flush exec b s) = cc_logs s" "recent_list (yuga_flush exec b s) = recent_list s"
    "cc_processed (yuga_flush exec b s) = cc_processed s" "cc_failed (yuga_flush exec b s) = cc_failed s"
    "cc_ledger (yuga_flush exec b s) = cc_ledger s" "bal (cc_world (yuga_flush exec b s)) = bal (cc_world s)" for b s
    using fl [of "cc_yugaDB s" b "cc_world s"]
    by (auto simp: yuga_flush_def recent_list_def split: prod.splits option.splits)
  show ?thesis
    using assms(1,2) YugaRecv yf
    by (auto simp: bench_step_def yuga_recv_def Let_def bench_ok_def holding_def account_def fun_eq_iff recent_list_def
        split: if_splits list.splits)
next
  case (Tick el)
  then show ?thesis
    using assms(1,2) by (auto simp: bench_step_def bench_tick_def Let_def bench_ok_def holding_def account_def recent_list_def)
next
  case FlushTick
  obtain e d w where f: "FlushToDB c ord ''channel1'' (cc_delta st) (cc_world st) = (e, d, w)" by (metis prod_cases3)
  have inv: "delta_inv (cc_delta st)" using assms(1) by (simp add: bench_ok_def)
  note F = flush_account [OF inv f]
  show ?thesis using F f assms(1,2) FlushTick by (auto simp: bench_step_def bench_ok_def holding_def recent_list_def)
qed

lemma run_effect:
  "bench_ok st \<Longrightarrow> bench_run c ord exec n evs st = Some st' \<Longrightarrow>
    bench_ok st' \<and> cc_processed st' = cc_processed st + of_nat (length (job_ids evs)) \<and> cc_failed st' = cc_failed st
    \<and> GetChainHeight (cc_ledger st')
        = GetChainHeight (cc_ledger st) + int (length (filter (\<lambda>j. j mod 10 = 0) (job_ids evs)))
    \<and> (\<Sum>k\<in>bench_accounts. holding bal st' k) = (\<Sum>k\<in>bench_accounts. holding bal st k) - of_nat (length (job_ids evs))"
proof (induction evs arbitrary: st)
  case (Cons ev evs)
  obtain st1 where s: "bench_step c ord exec n ev st = Some st1" "bench_run c ord exec n evs st1 = Some st'"
    using Cons.prems(2) by (auto split: option.splits)
  show ?case
  proof (cases "\<exists>j t. ev = Job j t")
    case True
    then obtain j t where ev: "ev = Job j t" by blast
    have "bench_job n j t st = Some st1" using s(1) ev by (simp add: bench_step_def)
    note E = job_effect [OF Cons.prems(1) this]
    show ?thesis using Cons.IH [OF _ s(2)] E ev by (simp add: algebra_simps)
  next
    case False
    note E = other_effect [OF Cons.prems(1) s(1)]
    have "job_ids (ev # evs) = job_ids evs" using False by (cases ev) auto
    then show ?thesis using Cons.IH [OF _ s(2)] E False by simp
  qed
qed simp

end

interpretation kv_bench: bench_world kv_client "\<lambda>b. b" kv_bal "\<lambda>q vs w. (None, w)"
  by unfold_locales simp

text \<open>Without a database connection no job has to wait.\<close>

lemma bench_run_total:
  "\<not> cc_yugaDB st \<Longrightarrow> \<forall>i. YugaRecv i \<notin> set evs \<Longrightarrow> \<exists>st'. bench_run c ord exec n evs st = Some st'"
proof (induction evs arbitrary: st)
  case (Cons ev evs)
  have "\<exists>st1. bench_step c ord exec n ev st = Some st1 \<and> \<not> cc_yugaDB st1"
    using Cons.prems
    by (cases ev) (auto simp: bench_step_def bench_job_def send_yuga_def count_job_def storeTransaction_def addLog_def
        bench_tick_def Let_def split: option.splits prod.splits)
  then show ?case using Cons.IH Cons.prems(2) by fastforce
qed simp

lemma tens_upto: "length (filter (\<lambda>i. i mod 10 = 0) [1..<Suc n]) = n div 10"
proof (induction n)
  case (Suc n)
  have "Suc n div 10 = n div 10 + (if Suc n mod 10 = 0 then 1 else 0)" by (simp add: div_Suc)
  then show ?case using Suc by simp
qed simp

lemma u64_mod10: "n < 2 ^ 64 \<Longrightarrow> (of_nat n :: u64) mod 10 = 0 \<longleftrightarrow> n mod 10 = 0"
  using unat_of_nat_u64 [of n] unat_mod_distrib [of "of_nat n :: u64" 10] by (simp add: unat_eq_0 [symmetric])

lemma tens_of_jobs:
  assumes "N < 2 ^ 64" and "mset js = mset (map (of_nat :: nat \<Rightarrow> u64) [1..<Suc N])"
  shows "length (filter (\<lambda>j. j mod 10 = 0) js) = N div 10"
proof -
  have "length (filter (\<lambda>j. j mod 10 = 0) js) = size (filter_mset (\<lambda>j. j mod 10 = 0) (mset js))"
    by (simp only: mset_filter [symmetric] size_mset)
  also have "\<dots> = length (filter (\<lambda>i. (of_nat i :: u64) mod 10 = 0) [1..<Suc N])"
    by (simp only: assms(2) mset_filter [symmetric] size_mset filter_map length_map comp_def)
  also have "filter (\<lambda>i. (of_nat i :: u64) mod 10 = 0) [1..<Suc N] = filter (\<lambda>i. i mod 10 = 0) [1..<Suc N]"
  proof (rule filter_cong [OF refl])
    fix i assume "i \<in> set [1..<Suc N]"
    then have "i < 2 ^ 64" using assms(1) by auto
    then show "((of_nat i :: u64) mod 10 = 0) = (i mod 10 = 0)" by (rule u64_mod10)
  qed
  finally show ?thesis by (simp only: tens_upto)
qed



end
