(* ===== verification/Control_System.thy ===== *)
theory Control_System
  imports Control_Center
begin

text \<open>
  The program of \<^verbatim>\<open>cmd/dashboard/main.go\<close> as a whole: what \<^verbatim>\<open>main\<close> sets up, the routes it
  registers, and the requests and goroutines that then interleave. A benchmark run is idle, spawned
  by a request whose goroutine has not started, or running with the jobs no worker has finished. The
  ticker of a run outlives it until its next tick, so the counters of finished runs whose ticker is
  alive are part of the state. A job, a tick and a request are one step each; the page is an argument.
\<close>

subsection \<open>Routes\<close>

datatype cc_route = RtDashboard | RtStart | RtStats | RtLogs | RtKeyDB | RtLedger | RtTransactions | RtYugabyte

definition control_routes :: "cc_route mux" where
  "control_routes =
     [(''/'', RtDashboard), (''/api/start'', RtStart), (''/api/stats'', RtStats), (''/api/logs'', RtLogs),
      (''/api/inspect/keydb'', RtKeyDB), (''/api/inspect/ledger'', RtLedger),
      (''/api/inspect/transactions'', RtTransactions), (''/api/inspect/yugabyte'', RtYugabyte)]"

text \<open>The metrics are returned as they are: the decimal text of floating-point numbers is not modelled.\<close>

datatype cc_reply = Reply Response | Stats DashMetrics

definition handleDashboard :: "string \<Rightarrow> Response" where
  "handleDashboard page = html_reply ''text/html; charset=utf-8'' page"

definition serve ::
  "'w RedisClient \<Rightarrow> ('w \<Rightarrow> string + i64) \<Rightarrow> string \<Rightarrow> cc_route \<Rightarrow> 'w ControlCenter
   \<Rightarrow> (cc_reply \<times> u64 option) \<times> 'w ControlCenter" where
  "serve c count_rows page h st =
     (case h of
        RtDashboard \<Rightarrow> ((Reply (handleDashboard page), None), st)
      | RtStart \<Rightarrow> (case handleStartLoadTest st of ((r, n), st') \<Rightarrow> ((Reply r, n), st'))
      | RtStats \<Rightarrow> ((Stats (handleStats st), None), st)
      | RtLogs \<Rightarrow> ((Reply (handleLogs st), None), st)
      | RtKeyDB \<Rightarrow> ((Reply (handleInspectKeyDB c st), None), st)
      | RtLedger \<Rightarrow> ((Reply (handleInspectLedger st), None), st)
      | RtTransactions \<Rightarrow> ((Reply (handleInspectTransactions st), None), st)
      | RtYugabyte \<Rightarrow> ((Reply (handleInspectYugabyte count_rows st), None), st))"

definition control_serve ::
  "'w RedisClient \<Rightarrow> ('w \<Rightarrow> string + i64) \<Rightarrow> string \<Rightarrow> string \<Rightarrow> 'w ControlCenter
   \<Rightarrow> (cc_reply \<times> u64 option) \<times> 'w ControlCenter" where
  "control_serve c count_rows page path st =
     (case mux_Handler control_routes path of
        None \<Rightarrow> ((Reply (http_Error ''404 page not found'' StatusNotFound), None), st)
      | Some h \<Rightarrow> serve c count_rows page h st)"

subsection \<open>The program\<close>

datatype bench_phase = Idle | Spawned u64 | Running u64 "u64 list"

text \<open>The counters a ticker reads and the total its run had.\<close>

record run_locals =
  rl_total :: u64
  rl_processed :: u64
  rl_failed :: u64
  rl_latency :: i64

record 'w Control =
  ct_cc :: "'w ControlCenter"
  ct_phase :: bench_phase
  ct_ticking :: bool
  ct_stale :: "run_locals list"

text \<open>
  \<^verbatim>\<open>main\<close> warns when KeyDB does not answer and goes on; the flusher is the event \<open>CFlush\<close> of the
  steps below.
\<close>

definition control_main :: "string \<Rightarrow> string option \<Rightarrow> string option \<Rightarrow> 'w \<Rightarrow> 'w Control" where
  "control_main now opened pinged w =
     \<lparr>ct_cc = initYugabyte opened pinged
        \<lparr>cc_metrics = zero_metrics, cc_delta = New_Delta, cc_contract = NewSmartContractEngine,
         cc_ledger = NewAuditLedger now, cc_logs = [], cc_yugaDB = False, cc_yugaChan = [], cc_batches = [],
         cc_persisted = 0, cc_recent = None, cc_processed = 0, cc_failed = 0, cc_latency = 0, cc_world = w\<rparr>,
      ct_phase = Idle, ct_ticking = False, ct_stale = []\<rparr>"

datatype control_event =
    CRequest string
  | CBegin string
  | CJob u64 bench_clock
  | CTick rat
  | CStale nat rat
  | CPersist nat
  | CFlush
  | CFinish string rat

definition jobs_upto :: "u64 \<Rightarrow> u64 list" where
  "jobs_upto n = map of_nat [1..<Suc (unat n)]"

text \<open>A tick of the ticker of a finished run: it reads the counters of that run.\<close>

definition stale_tick :: "run_locals \<Rightarrow> rat \<Rightarrow> 'w ControlCenter \<Rightarrow> bool \<times> 'w ControlCenter" where
  "stale_tick l elapsed st =
     (case bench_tick (rl_total l) elapsed
             (st\<lparr>cc_processed := rl_processed l, cc_failed := rl_failed l, cc_latency := rl_latency l\<rparr>) of
        (stop, st') \<Rightarrow> (stop, st\<lparr>cc_metrics := cc_metrics st'\<rparr>))"

definition control_step ::
  "'w RedisClient \<Rightarrow> ((string, i64) gomap \<Rightarrow> (string, i64) gomap) \<Rightarrow> 'w sql_exec \<Rightarrow> ('w \<Rightarrow> string + i64) \<Rightarrow> string
   \<Rightarrow> control_event \<Rightarrow> 'w Control \<Rightarrow> 'w Control option" where
  "control_step c ord exec count_rows page ev s =
     (case ev of
        CRequest path \<Rightarrow>
          (case control_serve c count_rows page path (ct_cc s) of
             ((r, n), st) \<Rightarrow> Some (s\<lparr>ct_cc := st, ct_phase := (case n of None \<Rightarrow> ct_phase s | Some k \<Rightarrow> Spawned k)\<rparr>))
      | CBegin stamp \<Rightarrow>
          (case ct_phase s of
             Spawned n \<Rightarrow> Some (s\<lparr>ct_cc := bench_start n stamp (ct_cc s), ct_phase := Running n (jobs_upto n), ct_ticking := True\<rparr>)
           | _ \<Rightarrow> None)
      | CJob j t \<Rightarrow>
          (case ct_phase s of
             Running n js \<Rightarrow>
               if j \<in> set js
               then map_option (\<lambda>st. s\<lparr>ct_cc := st, ct_phase := Running n (remove1 j js)\<rparr>) (bench_job n j t (ct_cc s))
               else None
           | _ \<Rightarrow> None)
      | CTick elapsed \<Rightarrow>
          (case ct_phase s of
             Running n js \<Rightarrow>
               if ct_ticking s
               then (case bench_tick n elapsed (ct_cc s) of (stop, st) \<Rightarrow> Some (s\<lparr>ct_cc := st, ct_ticking := \<not> stop\<rparr>))
               else None
           | _ \<Rightarrow> None)
      | CStale i elapsed \<Rightarrow>
          if i < length (ct_stale s)
          then (case stale_tick (ct_stale s ! i) elapsed (ct_cc s) of
                  (stop, st) \<Rightarrow> Some (s\<lparr>ct_cc := st,
                     ct_stale := (if stop then take i (ct_stale s) @ drop (Suc i) (ct_stale s) else ct_stale s)\<rparr>))
          else None
      | CPersist i \<Rightarrow> map_option (\<lambda>st. s\<lparr>ct_cc := st\<rparr>) (yuga_recv exec i (ct_cc s))
      | CFlush \<Rightarrow> map_option (\<lambda>st. s\<lparr>ct_cc := st\<rparr>) (bench_step c ord exec 0 FlushTick (ct_cc s))
      | CFinish stamp elapsed \<Rightarrow>
          (case ct_phase s of
             Running n [] \<Rightarrow>
               Some (s\<lparr>ct_cc := bench_finish stamp elapsed (ct_cc s), ct_phase := Idle, ct_ticking := False,
                 ct_stale := (if ct_ticking s
                    then ct_stale s @ [\<lparr>rl_total = n, rl_processed = cc_processed (ct_cc s), rl_failed = cc_failed (ct_cc s),
                                        rl_latency = cc_latency (ct_cc s)\<rparr>]
                    else ct_stale s)\<rparr>)
           | _ \<Rightarrow> None))"

inductive control_reach ::
  "'w RedisClient \<Rightarrow> ((string, i64) gomap \<Rightarrow> (string, i64) gomap) \<Rightarrow> 'w sql_exec \<Rightarrow> ('w \<Rightarrow> string + i64) \<Rightarrow> string
   \<Rightarrow> 'w Control \<Rightarrow> bool"
  for c ord exec count_rows page where
  cr_main: "control_reach c ord exec count_rows page (control_main now opened pinged w)"
| cr_step: "control_reach c ord exec count_rows page s \<Longrightarrow> control_step c ord exec count_rows page ev s = Some s'
    \<Longrightarrow> control_reach c ord exec count_rows page s'"

subsection \<open>What the routes answer\<close>

lemma control_routes_registered: "mux_register control_routes [] = Some control_routes"
  by (simp add: control_routes_def)

lemma control_root:
  "prefix ''/'' path \<Longrightarrow> path \<notin> fst ` set control_routes \<Longrightarrow> mux_Handler control_routes path = Some RtDashboard"
  by (rule mux_Handler_root) (auto simp: map_of_eq_None_iff, simp add: control_routes_def)

subsection \<open>The invariant\<close>

definition metrics_ok :: "DashMetrics \<Rightarrow> bool" where
  "metrics_ok mt \<longleftrightarrow> mt_ProcessedTxns mt \<le> 100000 \<and> mt_FailedTxns mt = 0
     \<and> 0 \<le> mt_ProgressPct mt \<and> mt_ProgressPct mt \<le> 100"

definition center_ok :: "'w ControlCenter \<Rightarrow> bool" where
  "center_ok st \<longleftrightarrow> cc_contract st = NewSmartContractEngine \<and> cc_failed st = 0 \<and> metrics_ok (cc_metrics st)
     \<and> length (cc_logs st) \<le> 200 \<and> length (recent_list st) \<le> 1000
     \<and> (cc_yugaDB st \<longrightarrow> length (cc_batches st) = 16) \<and> length (cc_yugaChan st) \<le> yugaCap"

fun phase_ok :: "bench_phase \<Rightarrow> 'w ControlCenter \<Rightarrow> bool" where
  "phase_ok Idle st \<longleftrightarrow> \<not> mt_IsRunning (cc_metrics st)"
| "phase_ok (Spawned n) st \<longleftrightarrow> mt_IsRunning (cc_metrics st) \<and> n = 100000"
| "phase_ok (Running n js) st \<longleftrightarrow> mt_IsRunning (cc_metrics st) \<and> n = 100000 \<and> unat (cc_processed st) + length js = 100000"

definition stale_ok :: "run_locals \<Rightarrow> bool" where
  "stale_ok l \<longleftrightarrow> rl_total l = 100000 \<and> rl_processed l = 100000 \<and> rl_failed l = 0"

definition control_inv :: "'w Control \<Rightarrow> bool" where
  "control_inv s \<longleftrightarrow> center_ok (ct_cc s) \<and> phase_ok (ct_phase s) (ct_cc s) \<and> (\<forall>l \<in> set (ct_stale s). stale_ok l)"

text \<open>The phase depends on the counter of processed transactions and on the flag only.\<close>

lemma phase_ok_cong:
  "mt_IsRunning (cc_metrics st') = mt_IsRunning (cc_metrics st) \<Longrightarrow> cc_processed st' = cc_processed st
    \<Longrightarrow> phase_ok ph st' = phase_ok ph st"
  by (cases ph) simp_all

lemma pct_bounds: "n \<le> 100000 \<Longrightarrow> 0 \<le> (of_nat n / 100000 * 100 :: rat) \<and> of_nat n / 100000 * 100 \<le> (100 :: rat)"
  using of_nat_mono [where 'a = rat, of n 100000] by (simp add: field_simps)

lemma tick_ok:
  assumes "center_ok st" and "cc_processed st \<le> 100000" and "bench_tick 100000 el st = (stop, st')"
  shows "center_ok st'" and "mt_IsRunning (cc_metrics st') = mt_IsRunning (cc_metrics st)" and "st' = st\<lparr>cc_metrics := cc_metrics st'\<rparr>"
proof -
  have u: "unat (cc_processed st) \<le> 100000" using assms(2) by (simp add: word_le_nat_alt)
  show "st' = st\<lparr>cc_metrics := cc_metrics st'\<rparr>" using assms(3) by (auto simp: bench_tick_def Let_def split: if_splits)
  show "mt_IsRunning (cc_metrics st') = mt_IsRunning (cc_metrics st)"
    using assms(3) by (auto simp: bench_tick_def Let_def split: if_splits)
  show "center_ok st'"
    using assms pct_bounds [OF u]
    by (auto simp: bench_tick_def Let_def center_ok_def metrics_ok_def recent_list_def split: if_splits)
qed

lemma stale_tick_ok:
  assumes "center_ok st" and "stale_ok l" and "stale_tick l el st = (stop, st')"
  shows "center_ok st'" and "mt_IsRunning (cc_metrics st') = mt_IsRunning (cc_metrics st)" and "cc_processed st' = cc_processed st"
proof -
  let ?st = "st\<lparr>cc_processed := rl_processed l, cc_failed := rl_failed l, cc_latency := rl_latency l\<rparr>"
  obtain st1 where b: "bench_tick 100000 el ?st = (stop, st1)" and st': "st' = st\<lparr>cc_metrics := cc_metrics st1\<rparr>"
    using assms(2,3) by (auto simp: stale_tick_def stale_ok_def split: prod.splits)
  have "center_ok ?st" "cc_processed ?st \<le> 100000"
    using assms(1,2) by (auto simp: center_ok_def stale_ok_def recent_list_def)
  note t = tick_ok [OF this b]
  show "center_ok st'" using t(1) assms(1) by (auto simp: st' center_ok_def recent_list_def)
  show "mt_IsRunning (cc_metrics st') = mt_IsRunning (cc_metrics st)" "cc_processed st' = cc_processed st" using t(2) by (simp_all add: st')
qed

lemma job_ok:
  assumes "center_ok st" and "bench_job n j t st = Some st'"
  shows "center_ok st'" and "cc_metrics st' = cc_metrics st" and "cc_processed st' = cc_processed st + 1"
proof -
  let ?tx = "bench_tx j (bc_now t)"
  obtain r e where x: "ExecuteRules (bc_rules t) NewSmartContractEngine ?tx = (r, e)" by force
  have ok: "cc_contract st = NewSmartContractEngine" "length (cc_logs st) \<le> 200" "length (recent_list st) \<le> 1000"
    using assms(1) by (simp_all add: center_ok_def)
  have e: "e = None" using bench_receipt [OF x] by simp
  obtain d al st1 where s: "send_yuga ?tx (st\<lparr>cc_delta := d, cc_ledger := al\<rparr>) = Some st1"
      "st' = count_job n t (storeTransaction ?tx st1)"
    using assms(2) x e ok(1) by (auto simp: bench_job_def Let_def split: option.splits)
  note J = job_tail [OF s(1), of n t, folded s(2)]
  have J: "cc_contract st' = cc_contract st" "cc_processed st' = cc_processed st + 1" "cc_failed st' = cc_failed st"
      "length (cc_logs st') \<le> 200" "length (recent_list st') \<le> 1000"
    using J(3,5-8) ok by (simp_all add: recent_list_def)
  have K: "cc_metrics st' = cc_metrics st" "cc_yugaDB st' = cc_yugaDB st" "cc_batches st' = cc_batches st"
    using s by (auto simp: send_yuga_def count_job_def storeTransaction_def addLog_def Let_def split: if_splits)
  have "length (cc_yugaChan st') \<le> yugaCap" using s assms(1)
    by (auto simp: send_yuga_def count_job_def storeTransaction_def addLog_def Let_def center_ok_def split: if_splits)
  then show "center_ok st'" using assms(1) J K by (simp add: center_ok_def)
  show "cc_metrics st' = cc_metrics st" "cc_processed st' = cc_processed st + 1" by (rule K(1), rule J(2))
qed

lemma persist_ok:
  assumes "center_ok st" and "yuga_recv exec i st = Some st'"
  shows "center_ok st'" and "cc_metrics st' = cc_metrics st" and "cc_processed st' = cc_processed st"
proof -
  have f: "cc_contract (yuga_flush exec b s) = cc_contract s" "cc_failed (yuga_flush exec b s) = cc_failed s"
      "cc_metrics (yuga_flush exec b s) = cc_metrics s" "cc_logs (yuga_flush exec b s) = cc_logs s"
      "cc_recent (yuga_flush exec b s) = cc_recent s" "cc_yugaDB (yuga_flush exec b s) = cc_yugaDB s"
      "cc_processed (yuga_flush exec b s) = cc_processed s" "cc_yugaChan (yuga_flush exec b s) = cc_yugaChan s" for b s
    by (simp_all add: yuga_flush_def split: prod.splits option.splits)
  show "center_ok st'" "cc_metrics st' = cc_metrics st" "cc_processed st' = cc_processed st"
    using assms f by (auto simp: yuga_recv_def Let_def center_ok_def recent_list_def split: if_splits list.splits)
qed

lemma start_ok:
  assumes "center_ok st" and "handleStartLoadTest st = ((r, n), st')"
  shows "center_ok st' \<and> (n = None \<and> st' = st \<and> mt_IsRunning (cc_metrics st)
     \<or> n = Some 100000 \<and> \<not> mt_IsRunning (cc_metrics st) \<and> mt_IsRunning (cc_metrics st'))"
  using assms
  by (auto simp: handleStartLoadTest_def center_ok_def metrics_ok_def zero_metrics_def recent_list_def split: if_splits)

lemma serve_ok:
  assumes "center_ok st" and "phase_ok ph st" and "control_serve c rows page path st = ((r, n), st')"
  shows "center_ok st' \<and> phase_ok (case n of None \<Rightarrow> ph | Some k \<Rightarrow> Spawned k) st'"
proof (cases "mux_Handler control_routes path = Some RtStart")
  case True
  then obtain r' where "handleStartLoadTest st = ((r', n), st')"
    using assms(3) by (auto simp: control_serve_def serve_def split: prod.splits)
  then show ?thesis using start_ok [OF assms(1)] assms(2) by fastforce
next
  case False
  then have "n = None" "st' = st"
    using assms(3) by (auto simp: control_serve_def serve_def split: option.splits cc_route.splits)
  then show ?thesis using assms(1,2) by simp
qed

lemma count_le: "unat (p :: u64) + k = 100000 \<Longrightarrow> p \<le> 100000"
  by (simp add: word_le_nat_alt)

lemma control_inv_parts:
  "control_inv s \<Longrightarrow> center_ok (ct_cc s)" "control_inv s \<Longrightarrow> phase_ok (ct_phase s) (ct_cc s)"
  "control_inv s \<Longrightarrow> l \<in> set (ct_stale s) \<Longrightarrow> stale_ok l"
  by (simp_all add: control_inv_def)

lemma begin_inv:
  assumes "control_inv s" and "control_step c ord exec rows page (CBegin stamp) s = Some s'"
  shows "control_inv s'"
proof -
  obtain n where p: "ct_phase s = Spawned n" and s': "s' = s\<lparr>ct_cc := bench_start n stamp (ct_cc s),
      ct_phase := Running n (jobs_upto n), ct_ticking := True\<rparr>"
    using assms(2) by (auto simp: control_step_def split: bench_phase.splits)
  have "center_ok (bench_start n stamp (ct_cc s))" using control_inv_parts(1) [OF assms(1)] addLog_bound
    by (auto simp: center_ok_def bench_start_def addLog_def Let_def recent_list_def)
  moreover have "phase_ok (Running n (jobs_upto n)) (bench_start n stamp (ct_cc s))"
    using control_inv_parts(2) [OF assms(1)] p by (simp add: bench_start_def jobs_upto_def addLog_def Let_def)
  ultimately show ?thesis using assms(1) unfolding s' control_inv_def by (simp del: phase_ok.simps)
qed

lemma job_inv:
  assumes "control_inv s" and "control_step c ord exec rows page (CJob j t) s = Some s'"
  shows "control_inv s'"
proof -
  obtain n js st where p: "ct_phase s = Running n js" "j \<in> set js" "bench_job n j t (ct_cc s) = Some st"
      and s': "s' = s\<lparr>ct_cc := st, ct_phase := Running n (remove1 j js)\<rparr>"
    using assms(2) by (auto simp: control_step_def split: bench_phase.splits if_splits)
  note ok = control_inv_parts [OF assms(1)] and J = job_ok [OF control_inv_parts(1) [OF assms(1)] p(3)]
  have l: "length js = Suc (length (remove1 j js))" using p(2) length_pos_if_in_set [of j js] by (simp add: length_remove1)
  then have "unat (cc_processed (ct_cc s) + 1) = unat (cc_processed (ct_cc s)) + 1"
    using ok(2) p(1) by (auto simp: unat_word_ariths)
  then have "phase_ok (Running n (remove1 j js)) st" using J ok(2) p(1) l by simp
  then show ?thesis using J(1) assms(1) unfolding s' control_inv_def by (simp del: phase_ok.simps)
qed

lemma tick_inv:
  assumes "control_inv s" and "control_step c ord exec rows page (CTick el) s = Some s'"
  shows "control_inv s'"
proof -
  obtain n js stop st where p: "ct_phase s = Running n js" "bench_tick n el (ct_cc s) = (stop, st)"
      and s': "s' = s\<lparr>ct_cc := st, ct_ticking := \<not> stop\<rparr>"
    using assms(2) by (auto simp: control_step_def split: bench_phase.splits if_splits prod.splits)
  note ok = control_inv_parts [OF assms(1)]
  have n: "n = 100000" "cc_processed (ct_cc s) \<le> 100000" using ok(2) p(1) count_le by auto
  note T = tick_ok [OF ok(1) n(2) p(2) [unfolded n(1)]]
  have "cc_processed st = cc_processed (ct_cc s)" using arg_cong [OF T(3), of cc_processed] by simp
  then have "phase_ok (ct_phase s) st" using phase_ok_cong [OF T(2)] ok(2) by blast
  then show ?thesis using T(1) assms(1) by (simp add: s' control_inv_def)
qed

lemma stale_inv:
  assumes "control_inv s" and "control_step c ord exec rows page (CStale i el) s = Some s'"
  shows "control_inv s'"
proof -
  obtain stop st where p: "i < length (ct_stale s)" "stale_tick (ct_stale s ! i) el (ct_cc s) = (stop, st)"
      and s': "ct_cc s' = st" "ct_phase s' = ct_phase s" "set (ct_stale s') \<subseteq> set (ct_stale s)"
    using assms(2) set_take_subset [of i "ct_stale s"] set_drop_subset [of "Suc i" "ct_stale s"]
    by (auto simp: control_step_def split: if_splits prod.splits)
  note ok = control_inv_parts [OF assms(1)]
  have "stale_ok (ct_stale s ! i)" using ok(3) p(1) by simp
  note T = stale_tick_ok [OF ok(1) this p(2)]
  have "phase_ok (ct_phase s) st" using phase_ok_cong [OF T(2,3)] ok(2) by blast
  then show ?thesis using T(1) ok(3) s' by (auto simp: control_inv_def)
qed

lemma background_inv:
  assumes "control_inv s" and "s' = s\<lparr>ct_cc := st\<rparr>" and "center_ok st"
    and "cc_metrics st = cc_metrics (ct_cc s)" and "cc_processed st = cc_processed (ct_cc s)"
  shows "control_inv s'"
  using control_inv_parts [OF assms(1)] assms(2-5) phase_ok_cong [of st "ct_cc s"] by (simp add: control_inv_def)

lemma persist_inv:
  assumes "control_inv s" and "control_step c ord exec rows page (CPersist i) s = Some s'"
  shows "control_inv s'"
proof -
  obtain st where s': "s' = s\<lparr>ct_cc := st\<rparr>" and y: "yuga_recv exec i (ct_cc s) = Some st"
    using assms(2) by (auto simp: control_step_def)
  show ?thesis by (rule background_inv [OF assms(1) s' persist_ok [OF control_inv_parts(1) [OF assms(1)] y]])
qed

lemma flush_inv:
  assumes "control_inv s" and "control_step c ord exec rows page CFlush s = Some s'"
  shows "control_inv s'"
proof -
  obtain d w where s': "s' = s\<lparr>ct_cc := (ct_cc s)\<lparr>cc_delta := d, cc_world := w\<rparr>\<rparr>"
    using assms(2) unfolding control_step_def bench_step_def by (simp split: prod.splits) blast
  show ?thesis
    by (rule background_inv [OF assms(1) s'])
      (use control_inv_parts(1) [OF assms(1)] in \<open>simp_all add: center_ok_def recent_list_def\<close>)
qed

lemma finish_inv:
  assumes "control_inv s" and "control_step c ord exec rows page (CFinish stamp el) s = Some s'"
  shows "control_inv s'"
proof -
  obtain n where p: "ct_phase s = Running n []" and s': "ct_cc s' = bench_finish stamp el (ct_cc s)" "ct_phase s' = Idle"
      "set (ct_stale s') \<subseteq> insert \<lparr>rl_total = n, rl_processed = cc_processed (ct_cc s), rl_failed = cc_failed (ct_cc s),
         rl_latency = cc_latency (ct_cc s)\<rparr> (set (ct_stale s))"
    using assms(2) by (fastforce simp: control_step_def split: bench_phase.splits list.splits if_splits)
  note ok = control_inv_parts [OF assms(1)]
  have "unat (cc_processed (ct_cc s)) = unat (100000 :: u64)" using ok(2) p by simp
  then have "cc_processed (ct_cc s) = 100000" by (simp only: word_unat_eq_iff)
  then have "\<forall>l \<in> set (ct_stale s'). stale_ok l" using s'(3) ok p by (auto simp: stale_ok_def center_ok_def)
  moreover have "center_ok (bench_finish stamp el (ct_cc s))" "\<not> mt_IsRunning (cc_metrics (bench_finish stamp el (ct_cc s)))"
    using ok(1) by (auto simp: bench_finish_def center_ok_def metrics_ok_def addLog_def Let_def recent_list_def)
  ultimately show ?thesis by (simp add: s' control_inv_def)
qed

lemma request_inv:
  assumes "control_inv s" and "control_step c ord exec rows page (CRequest path) s = Some s'"
  shows "control_inv s'"
proof -
  obtain r n st where h: "control_serve c rows page path (ct_cc s) = ((r, n), st)" by (metis surj_pair)
  then have "s' = s\<lparr>ct_cc := st, ct_phase := (case n of None \<Rightarrow> ct_phase s | Some k \<Rightarrow> Spawned k)\<rparr>"
    using assms(2) by (simp add: control_step_def)
  then show ?thesis
    using serve_ok [OF control_inv_parts(1,2) [OF assms(1)] h] assms(1) by (simp add: control_inv_def)
qed

lemma step_inv:
  assumes "control_inv s" and "control_step c ord exec rows page ev s = Some s'"
  shows "control_inv s'"
proof -
  note e = request_inv begin_inv job_inv tick_inv stale_inv persist_inv flush_inv finish_inv
  show ?thesis using assms by (cases ev) (simp_all only: e [OF assms(1)])
qed

lemma main_inv: "control_inv (control_main now opened pinged w)"
  by (auto simp: control_main_def control_inv_def center_ok_def metrics_ok_def zero_metrics_def initYugabyte_def
      startYugabyteWorkers_def recent_list_def split: option.split)

lemma reach_inv: "control_reach c ord exec rows page s \<Longrightarrow> control_inv s"
  by (induction rule: control_reach.induct) (blast intro: main_inv step_inv)+

subsection \<open>A run can always be completed\<close>

text \<open>
  A worker that has to wait for room in the channel is released by a receive of a persistence worker.
\<close>

lemma job_enabled:
  assumes "center_ok st"
  shows "(\<exists>st'. bench_job n j t st = Some st') \<or> cc_yugaDB st \<and> length (cc_yugaChan st) \<ge> yugaCap"
  by (cases "ExecuteRules (bc_rules t) (cc_contract st) (bench_tx j (bc_now t))")
    (auto simp: bench_job_def send_yuga_def Let_def split: option.split)

lemma persist_enabled:
  assumes "center_ok st" and "cc_yugaDB st" and "cc_yugaChan st = tx # rest"
  shows "\<exists>st'. yuga_recv exec 0 st = Some st' \<and> cc_yugaChan st' = rest \<and> cc_yugaDB st' = cc_yugaDB st"
  using assms
  by (cases "length (cc_batches st ! 0 @ [tx]) \<ge> 500 \<or> length rest = 0")
    (auto simp: yuga_recv_def center_ok_def Let_def yuga_flush_def split: prod.splits option.splits)

fun control_run ::
  "'w RedisClient \<Rightarrow> ((string, i64) gomap \<Rightarrow> (string, i64) gomap) \<Rightarrow> 'w sql_exec \<Rightarrow> ('w \<Rightarrow> string + i64) \<Rightarrow> string
   \<Rightarrow> control_event list \<Rightarrow> 'w Control \<Rightarrow> 'w Control option" where
  "control_run c ord exec rows page [] s = Some s"
| "control_run c ord exec rows page (ev # evs) s =
     (case control_step c ord exec rows page ev s of None \<Rightarrow> None | Some s' \<Rightarrow> control_run c ord exec rows page evs s')"

lemma control_run_append:
  "control_run c ord exec rows page (evs @ evs') s =
     (case control_run c ord exec rows page evs s of None \<Rightarrow> None | Some s' \<Rightarrow> control_run c ord exec rows page evs' s')"
  by (induction evs arbitrary: s) (auto split: option.splits)

lemma control_run_reach:
  "control_reach c ord exec rows page s \<Longrightarrow> control_run c ord exec rows page evs s = Some s' \<Longrightarrow> control_reach c ord exec rows page s'"
  by (induction evs arbitrary: s) (auto split: option.splits intro: cr_step)

definition job_clock :: bench_clock where
  "job_clock = \<lparr>bc_now = [], bc_rules = [], bc_ledger = [], bc_log = [], bc_duration = 0\<rparr>"

lemma one_job:
  assumes "control_inv s" and "ct_phase s = Running n (j # js)"
  shows "\<exists>evs s'. control_run c ord exec rows page evs s = Some s' \<and> control_inv s' \<and> ct_phase s' = Running n js
     \<and> ct_ticking s' = ct_ticking s \<and> ct_stale s' = ct_stale s"
proof -
  note ok = control_inv_parts(1) [OF assms(1)]
  have do: "\<exists>s'. control_step c ord exec rows page (CJob j job_clock) s1 = Some s' \<and> control_inv s' \<and> ct_phase s' = Running n js
       \<and> ct_ticking s' = ct_ticking s1 \<and> ct_stale s' = ct_stale s1"
    if s1: "control_inv s1" "ct_phase s1 = Running n (j # js)" "bench_job n j job_clock (ct_cc s1) = Some st" for s1 st
    using s1(2,3) job_inv [OF s1(1), of c ord exec rows page j job_clock] by (simp add: control_step_def)
  show ?thesis
  proof (cases "\<exists>st. bench_job n j job_clock (ct_cc s) = Some st")
    case True
    then obtain s' where "control_step c ord exec rows page (CJob j job_clock) s = Some s'" "control_inv s'"
        "ct_phase s' = Running n js" "ct_ticking s' = ct_ticking s" "ct_stale s' = ct_stale s"
      using do [OF assms] by blast
    then show ?thesis by (intro exI [of _ "[CJob j job_clock]"]) simp
  next
    case False
    then have full: "cc_yugaDB (ct_cc s)" "length (cc_yugaChan (ct_cc s)) \<ge> yugaCap" using job_enabled [OF ok] by blast+
    then obtain tx rest where ch: "cc_yugaChan (ct_cc s) = tx # rest" by (cases "cc_yugaChan (ct_cc s)") (auto simp: yugaCap_def)
    then obtain st1 where y: "yuga_recv exec 0 (ct_cc s) = Some st1" "cc_yugaChan st1 = rest"
      using persist_enabled [OF ok full(1)] by blast
    let ?s1 = "s\<lparr>ct_cc := st1\<rparr>"
    have p: "control_step c ord exec rows page (CPersist 0) s = Some ?s1" using y(1) by (simp add: control_step_def)
    note i1 = persist_inv [OF assms(1) p]
    have "length (cc_yugaChan st1) < yugaCap" using ok ch y(2) by (simp add: center_ok_def)
    then obtain st where "bench_job n j job_clock (ct_cc ?s1) = Some st"
      using job_enabled [OF control_inv_parts(1) [OF i1], of n j job_clock] by auto
    then obtain s' where "control_step c ord exec rows page (CJob j job_clock) ?s1 = Some s'" "control_inv s'"
        "ct_phase s' = Running n js" "ct_ticking s' = ct_ticking s" "ct_stale s' = ct_stale s"
      using do [OF i1] assms(2) by auto
    then show ?thesis using p by (intro exI [of _ "[CPersist 0, CJob j job_clock]"]) simp
  qed
qed

lemma all_jobs:
  assumes "control_inv s" and "ct_phase s = Running n js"
  shows "\<exists>evs s'. control_run c ord exec rows page evs s = Some s' \<and> control_inv s' \<and> ct_phase s' = Running n []
     \<and> ct_ticking s' = ct_ticking s \<and> ct_stale s' = ct_stale s"
  using assms
proof (induction js arbitrary: s)
  case Nil
  then show ?case by (intro exI [of _ "[]"]) simp
next
  case (Cons j js)
  obtain evs s1 where s1: "control_run c ord exec rows page evs s = Some s1" "control_inv s1" "ct_phase s1 = Running n js"
      "ct_ticking s1 = ct_ticking s" "ct_stale s1 = ct_stale s"
    using one_job [OF Cons.prems] by metis
  obtain evs' s' where "control_run c ord exec rows page evs' s1 = Some s'" "control_inv s'" "ct_phase s' = Running n []"
      "ct_ticking s' = ct_ticking s" "ct_stale s' = ct_stale s"
    using Cons.IH [OF s1(2,3)] s1(4,5) by metis
  then show ?case using s1(1) by (intro exI [of _ "evs @ evs'"]) (simp add: control_run_append)
qed

lemma run_completes:
  assumes "control_inv s" and "ct_phase s = Running n js"
  shows "\<exists>evs s'. control_run c ord exec rows page evs s = Some s' \<and> ct_phase s' = Idle
     \<and> cc_processed (ct_cc s') = 100000 \<and> (ct_ticking s \<longrightarrow> (\<exists>l. ct_stale s' = ct_stale s @ [l]))"
proof -
  obtain evs s1 where s1: "control_run c ord exec rows page evs s = Some s1" "control_inv s1" "ct_phase s1 = Running n []"
      "ct_ticking s1 = ct_ticking s" "ct_stale s1 = ct_stale s"
    using all_jobs [OF assms] by metis
  have "unat (cc_processed (ct_cc s1)) = unat (100000 :: u64)" using control_inv_parts(2) [OF s1(2)] s1(3) by simp
  then have p: "cc_processed (ct_cc s1) = 100000" by (simp only: word_unat_eq_iff)
  obtain s' where "control_step c ord exec rows page (CFinish [] 1) s1 = Some s'" "ct_phase s' = Idle"
      "cc_processed (ct_cc s') = 100000" "ct_ticking s1 \<longrightarrow> (\<exists>l. ct_stale s' = ct_stale s1 @ [l])"
    using s1(3) p by (simp add: control_step_def bench_finish_def Let_def frame_simps)
  then show ?thesis using s1 by (intro exI [of _ "evs @ [CFinish [] 1]"]) (auto simp: control_run_append)
qed

subsection \<open>Persistence at the end of a run\<close>

text \<open>
  The rest of a persistence worker, after its loop over the channel: the batch that is left is
  written. No code closes the channel, so no worker gets here.
\<close>

definition yuga_drain :: "'w sql_exec \<Rightarrow> nat \<Rightarrow> 'w ControlCenter \<Rightarrow> 'w ControlCenter" where
  "yuga_drain exec i st =
     (let batch = cc_batches st ! i in if length batch > 0 then yuga_flush exec batch st else st)"

text \<open>
  A worker writes its batch when it holds 500 transactions or when its own receive leaves the channel
  empty. A worker whose receive did not, while another took the rest, keeps its batch until the next
  transaction is sent.
\<close>

lemma yuga_batch_stranded:
  assumes "cc_yugaDB st" and "cc_yugaChan st = [a, b]" and "cc_batches st = [[], []]"
  shows "\<exists>st1 st2. yuga_recv exec 0 st = Some st1 \<and> yuga_recv exec 1 st1 = Some st2
     \<and> cc_yugaChan st2 = [] \<and> cc_batches st2 = [[a], []] \<and> (\<forall>i. yuga_recv exec i st2 = None)"
  using assms by (auto simp: yuga_recv_def yuga_flush_def Let_def split: prod.splits option.splits)

subsection \<open>Properties\<close>

lemma start_busy:
  "mt_IsRunning (cc_metrics st) \<Longrightarrow> control_serve c rows page ''/api/start'' st
     = ((Reply (http_Error ''Benchmark already running'' StatusBadRequest), None), st)"
  by (simp add: control_serve_def mux_Handler_def control_routes_def serve_def handleStartLoadTest_def)

text \<open>
  C34 The control center is safe under every interleaving: however requests, the goroutine of a run, its
  workers and ticker, the tickers of earlier runs, the persistence workers and the flusher interleave,
  the metrics say running exactly while a run is spawned or in progress, and a request to start another
  is then refused and changes nothing; every job of a run is processed once; the metrics never show a
  failure, more than the 100000 transactions or a progress outside 0 to 100; and the log keeps at most
  200 lines, the recent transactions at most 1000.
\<close>

theorem control_center_safe:
  assumes "control_reach c ord exec rows page s"
  shows "(mt_IsRunning (handleStats (ct_cc s)) \<longleftrightarrow> ct_phase s \<noteq> Idle)
     \<and> (ct_phase s \<noteq> Idle \<longrightarrow> control_step c ord exec rows page (CRequest ''/api/start'') s = Some s)
     \<and> (\<forall>n js. ct_phase s = Running n js \<longrightarrow> unat (cc_processed (ct_cc s)) + length js = 100000)
     \<and> mt_FailedTxns (handleStats (ct_cc s)) = 0 \<and> mt_ProcessedTxns (handleStats (ct_cc s)) \<le> 100000
     \<and> 0 \<le> mt_ProgressPct (handleStats (ct_cc s)) \<and> mt_ProgressPct (handleStats (ct_cc s)) \<le> 100
     \<and> length (cc_logs (ct_cc s)) \<le> 200 \<and> length (recent_list (ct_cc s)) \<le> 1000"
proof -
  have inv: "control_inv s" by (rule reach_inv [OF assms])
  have run: "mt_IsRunning (cc_metrics (ct_cc s)) \<longleftrightarrow> ct_phase s \<noteq> Idle"
    using control_inv_parts(2) [OF inv] by (cases "ct_phase s") auto
  then have "ct_phase s \<noteq> Idle \<longrightarrow> control_step c ord exec rows page (CRequest ''/api/start'') s = Some s"
    using start_busy [of "ct_cc s" c rows page] by (auto simp: control_step_def)
  then show ?thesis using run control_inv_parts(1,2) [OF inv] by (auto simp: handleStats_def center_ok_def metrics_ok_def)
qed

lemma started_reach:
  "control_reach c ord exec rows page s \<Longrightarrow> ct_phase s = Idle \<Longrightarrow>
     \<exists>s'. control_run c ord exec rows page [CRequest ''/api/start'', CBegin []] s = Some s'
       \<and> ct_phase s' = Running 100000 (jobs_upto 100000) \<and> ct_ticking s' \<and> ct_stale s' = ct_stale s \<and> cc_processed (ct_cc s') = 0"
  using control_inv_parts(2) [OF reach_inv, of c ord exec rows page s]
  by (simp add: control_step_def control_serve_def mux_Handler_def control_routes_def serve_def handleStartLoadTest_def
      bench_start_def addLog_def Let_def)

theorem control_center_safe_witness:
  "\<exists>s. control_reach kv_client (\<lambda>b. b) (\<lambda>q vs w. (None, w)) (\<lambda>w. Inr 0) ''page'' s
     \<and> ct_phase s = Running 100000 (jobs_upto 100000) \<and> mt_IsRunning (handleStats (ct_cc s))
     \<and> control_step kv_client (\<lambda>b. b) (\<lambda>q vs w. (None, w)) (\<lambda>w. Inr 0) ''page'' (CRequest ''/api/start'') s = Some s"
proof -
  let ?s0 = "control_main ''t'' None None []"
  have r0: "control_reach kv_client (\<lambda>b. b) (\<lambda>q vs w. (None, w)) (\<lambda>w. Inr 0) ''page'' ?s0" by (rule cr_main)
  have "ct_phase ?s0 = Idle" by (simp add: control_main_def)
  from started_reach [OF r0 this] obtain s where
    s: "control_run kv_client (\<lambda>b. b) (\<lambda>q vs w. (None, w)) (\<lambda>w. Inr 0) ''page'' [CRequest ''/api/start'', CBegin []] ?s0 = Some s"
      "ct_phase s = Running 100000 (jobs_upto 100000)"
    by blast
  note r = control_run_reach [OF r0 s(1)]
  from control_center_safe [OF r] r s(2) show ?thesis by auto
qed



text \<open>
  The ticker of a finished run reports it as the next one: some reachable state is at the beginning of
  a run, nothing processed, and the next tick of the ticker left from the run before makes the metrics
  show 100000 processed transactions and 100 percent while the run goes on.
\<close>

theorem stale_ticker_reports_old_run:
  "\<exists>s s'. control_reach c ord exec rows page s \<and> ct_phase s = Running 100000 (jobs_upto 100000)
     \<and> cc_processed (ct_cc s) = 0 \<and> control_step c ord exec rows page (CStale 0 1) s = Some s'
     \<and> mt_IsRunning (handleStats (ct_cc s')) \<and> mt_ProcessedTxns (handleStats (ct_cc s')) = 100000
     \<and> mt_ProgressPct (handleStats (ct_cc s')) = 100"
proof -
  let ?R = "control_reach c ord exec rows page" and ?run = "control_run c ord exec rows page"
  obtain s0 :: "'a Control" where s0: "?R s0" "ct_phase s0 = Idle" "ct_stale s0 = []"
    using cr_main [of c ord exec rows page "[]" "Some []" None undefined] by (simp add: control_main_def)
  obtain s1 where s1: "?run [CRequest ''/api/start'', CBegin []] s0 = Some s1" "ct_phase s1 = Running 100000 (jobs_upto 100000)"
      "ct_ticking s1" "ct_stale s1 = []"
    using started_reach [OF s0(1,2)] s0(3) by auto
  note r1 = control_run_reach [OF s0(1) s1(1)]
  obtain evs s2 l where s2: "?run evs s1 = Some s2" "ct_phase s2 = Idle" "ct_stale s2 = [l]"
    using run_completes [OF reach_inv [OF r1] s1(2), of c ord exec rows page] s1(3,4) by auto
  note r2 = control_run_reach [OF r1 s2(1)]
  obtain s3 where s3: "?run [CRequest ''/api/start'', CBegin []] s2 = Some s3" "ct_phase s3 = Running 100000 (jobs_upto 100000)"
      "ct_stale s3 = [l]" "cc_processed (ct_cc s3) = 0"
    using started_reach [OF r2 s2(2)] s2(3) by auto
  note r3 = control_run_reach [OF r2 s3(1)]
  have "stale_ok l" "mt_IsRunning (cc_metrics (ct_cc s3))"
    using control_inv_parts(2,3) [OF reach_inv [OF r3]] s3(2,3) by auto
  then obtain s4 where "control_step c ord exec rows page (CStale 0 1) s3 = Some s4" "mt_IsRunning (handleStats (ct_cc s4))"
      "mt_ProcessedTxns (handleStats (ct_cc s4)) = 100000" "mt_ProgressPct (handleStats (ct_cc s4)) = 100"
    using s3(3) by (simp add: control_step_def stale_tick_def bench_tick_def stale_ok_def handleStats_def Let_def)
  then show ?thesis using r3 s3(2,4) by blast
qed

text \<open>
  Every path without a route gets the page, also those the README lists for the dashboard of
  \<^verbatim>\<open>pkg/dashboard\<close>.
\<close>

lemma unrouted_path_gets_page:
  assumes "prefix ''/'' path" and "path \<notin> fst ` set control_routes"
  shows "control_serve c rows page path st = ((Reply (handleDashboard page), None), st)"
  using control_root [OF assms] by (simp add: control_serve_def serve_def)

lemma documented_paths_get_page:
  "control_serve c rows page ''/api/metrics'' st = ((Reply (handleDashboard page), None), st)"
  "control_serve c rows page ''/api/hlf/telemetry'' st = ((Reply (handleDashboard page), None), st)"
  by (rule unrouted_path_gets_page; simp add: control_routes_def)+

end
