(* ===== verification/Engine_Pipeline.thy ===== *)
theory Engine_Pipeline
  imports State_Engine Sha256
begin

text \<open>
  The execution pipeline of \<^verbatim>\<open>pkg/engine/pipeline.go\<close>: payments stored through the active
  storage engine, counters, and events broadcast to subscribers. The state of all engines is one
  value \<open>'db\<close> on which the methods of the active engine act. Clock readings and formatted
  times are arguments. A subscriber's buffered channel is the list of its queued events.
\<close>

datatype EventType = EventRoute | EventAck | EventOrder | EventCommit | EventSys | EventErr

fun EventType_string :: "EventType \<Rightarrow> string" where
  "EventType_string EventRoute = ''ROUTE''"
| "EventType_string EventAck = ''ACK''"
| "EventType_string EventOrder = ''ORDER''"
| "EventType_string EventCommit = ''COMMIT''"
| "EventType_string EventSys = ''SYS''"
| "EventType_string EventErr = ''ERR''"

record Event =
  ev_Timestamp :: string
  ev_Type :: EventType
  ev_Shard :: string
  ev_TxUUID :: string
  ev_Message :: string

record TxPayload =
  TxUUID :: string
  AccountID :: string
  tx_Amount :: i64

record 'db EPipeline =
  ep_db :: "'db StateEngine option"
  ep_state :: 'db
  ep_shards :: int
  ep_subscribers :: "(nat, Event list) gomap"
  ep_committed :: u64
  ep_failed :: u64
  ep_engineName :: string

definition NewEPipeline :: "'db StateEngine option \<Rightarrow> 'db \<Rightarrow> int \<Rightarrow> 'db EPipeline" where
  "NewEPipeline db s initialShards =
     \<lparr>ep_db = db, ep_state = s, ep_shards = (if initialShards \<le> 0 then 1 else initialShards), ep_subscribers = [],
      ep_committed = 0, ep_failed = 0, ep_engineName = (case db of None \<Rightarrow> ''KeyDB'' | Some e \<Rightarrow> se_Name e)\<rparr>"

subsection \<open>Events\<close>

text \<open>A subscriber whose buffer of 500 is full misses the event.\<close>

definition offer :: "Event \<Rightarrow> Event list \<Rightarrow> Event list" where
  "offer evt q = (if length q < 500 then q @ [evt] else q)"

definition EmitEvent ::
  "string \<Rightarrow> EventType \<Rightarrow> string \<Rightarrow> string \<Rightarrow> string \<Rightarrow> 'db EPipeline \<Rightarrow> 'db EPipeline" where
  "EmitEvent ts typ shard txUUID msg p =
     (let evt = \<lparr>ev_Timestamp = ts, ev_Type = typ, ev_Shard = shard, ev_TxUUID = txUUID, ev_Message = msg\<rparr>
      in p\<lparr>ep_subscribers := map (\<lambda>(ch, q). (ch, offer evt q)) (ep_subscribers p)\<rparr>)"

text \<open>The channel made by a subscription is a fresh name.\<close>

definition fresh_chan :: "(nat, Event list) gomap \<Rightarrow> nat" where
  "fresh_chan m = Suc (Max (insert 0 (gm_keys m)))"

definition SubscribeEvents :: "'db EPipeline \<Rightarrow> nat \<times> 'db EPipeline" where
  "SubscribeEvents p =
     (let ch = fresh_chan (ep_subscribers p)
      in (ch, p\<lparr>ep_subscribers := AList.update ch [] (ep_subscribers p)\<rparr>))"

definition UnsubscribeEvents :: "nat \<Rightarrow> 'db EPipeline \<Rightarrow> 'db EPipeline" where
  "UnsubscribeEvents ch p = p\<lparr>ep_subscribers := AList.delete ch (ep_subscribers p)\<rparr>"

subsection \<open>Configuration\<close>

definition SetStorageEngine :: "string \<Rightarrow> 'db StateEngine option \<Rightarrow> 'db EPipeline \<Rightarrow> 'db EPipeline" where
  "SetStorageEngine ts db p =
     (let p1 = p\<lparr>ep_db := db\<rparr>
      in case db of
           None \<Rightarrow> p1
         | Some e \<Rightarrow> EmitEvent ts EventSys '''' '''' (''Switched active storage engine to ['' @ se_Name e @ '']'')
             (p1\<lparr>ep_engineName := se_Name e\<rparr>))"

definition SetShards :: "string \<Rightarrow> int \<Rightarrow> 'db EPipeline \<Rightarrow> 'db EPipeline" where
  "SetShards ts cnt p =
     (if cnt \<le> 0 then p
      else EmitEvent ts EventSys '''' '''' (''Updated sharded gateway topology to '' @ show_int cnt @ '' channels'')
             (p\<lparr>ep_shards := cnt\<rparr>))"

definition EngineName :: "'db EPipeline \<Rightarrow> string" where
  "EngineName p = ep_engineName p"

definition TotalCommitted :: "'db EPipeline \<Rightarrow> u64" where
  "TotalCommitted p = ep_committed p"

definition TotalFailed :: "'db EPipeline \<Rightarrow> u64" where
  "TotalFailed p = ep_failed p"

subsection \<open>Submission\<close>

definition shard_name :: "string \<Rightarrow> int \<Rightarrow> string" where
  "shard_name uuid shardCount =
     ''shard-'' @ show_int (if length uuid > 0 then of_char (uuid ! 0) mod shardCount else 0)"

definition fail_tx :: "'db EPipeline \<Rightarrow> 'db EPipeline" where
  "fail_tx p = p\<lparr>ep_failed := ep_failed p + 1\<rparr>"

definition SubmitTransaction ::
  "string \<Rightarrow> int \<Rightarrow> TxPayload option \<Rightarrow> 'db EPipeline \<Rightarrow> (string \<times> int \<times> string option) \<times> 'db EPipeline" where
  "SubmitTransaction ts lat txp p =
     (case txp of
        None \<Rightarrow> (('''', 0, Some ''nil transaction payload''), fail_tx p)
      | Some tx \<Rightarrow>
          (let shardName = shard_name (TxUUID tx) (ep_shards p);
               (err, p1) = (case ep_db p of
                              None \<Rightarrow> (None, p)
                            | Some e \<Rightarrow>
                                (case se_PutState e shardName (''acc:'' @ AccountID tx)
                                        (Some (show_int (sint (tx_Amount tx)))) (ep_state p) of
                                   (r, s) \<Rightarrow> (r, p\<lparr>ep_state := s\<rparr>)))
           in case err of
                Some e \<Rightarrow> ((shardName, lat, Some e),
                  EmitEvent ts EventErr shardName (TxUUID tx)
                    (''Execution failed on engine ['' @ EngineName p1 @ '']: '' @ e) (fail_tx p1))
              | None \<Rightarrow>
                  (let p2 = p1\<lparr>ep_committed := ep_committed p1 + 1\<rparr>
                   in ((shardName, lat, None),
                       if ep_committed p2 mod 1000 = 0
                       then EmitEvent ts EventCommit shardName (TxUUID tx)
                              (''Persisted state ['' @ AccountID tx @ ''] balance='' @ show_int (sint (tx_Amount tx))
                               @ '' via '' @ EngineName p2) p2
                       else p2))))"

text \<open>The hexadecimal printing of \<^verbatim>\<open>strconv.FormatInt\<close> for a value that is not negative.\<close>

fun show_hex :: "nat \<Rightarrow> string" where
  "show_hex n = (if n < 16 then [hex_digit n] else show_hex (n div 16) @ [hex_digit (n mod 16)])"

declare show_hex.simps [simp del]

definition GenerateUUID :: "time \<Rightarrow> string" where
  "GenerateUUID now = (if now < 0 then ''-'' @ show_hex (nat (- now)) else show_hex (nat now))"

subsection \<open>Runs\<close>

datatype 'db ep_op =
    EpSubmit string int "TxPayload option"
  | EpShards string int
  | EpEngine string "'db StateEngine option"
  | EpSubscribe
  | EpUnsubscribe nat

fun ep_step :: "'db ep_op \<Rightarrow> 'db EPipeline \<Rightarrow> 'db EPipeline" where
  "ep_step (EpSubmit ts lat tx) p = snd (SubmitTransaction ts lat tx p)"
| "ep_step (EpShards ts n) p = SetShards ts n p"
| "ep_step (EpEngine ts e) p = SetStorageEngine ts e p"
| "ep_step EpSubscribe p = snd (SubscribeEvents p)"
| "ep_step (EpUnsubscribe ch) p = UnsubscribeEvents ch p"

fun is_submit :: "'db ep_op \<Rightarrow> bool" where
  "is_submit (EpSubmit ts lat tx) = True"
| "is_submit _ = False"

text \<open>There is at least one shard, and no subscriber is queued more than its buffer holds.\<close>

definition ep_inv :: "'db EPipeline \<Rightarrow> bool" where
  "ep_inv p \<longleftrightarrow> 0 < ep_shards p \<and> gm_ok (ep_subscribers p)
     \<and> (\<forall>q \<in> snd ` set (ep_subscribers p). length q \<le> 500)"

definition ep_counted :: "'db EPipeline \<Rightarrow> u64" where
  "ep_counted p = ep_committed p + ep_failed p"

lemma Emit_frame [frame_simps]:
  "ep_db (EmitEvent ts t s u m p) = ep_db p" "ep_state (EmitEvent ts t s u m p) = ep_state p"
  "ep_shards (EmitEvent ts t s u m p) = ep_shards p" "ep_committed (EmitEvent ts t s u m p) = ep_committed p"
  "ep_failed (EmitEvent ts t s u m p) = ep_failed p" "ep_engineName (EmitEvent ts t s u m p) = ep_engineName p"
  by (simp_all add: EmitEvent_def Let_def)

lemma ep_inv_Emit: "ep_inv p \<Longrightarrow> ep_inv (EmitEvent ts t s u m p)"
  by (fastforce simp: ep_inv_def EmitEvent_def Let_def gm_ok_def offer_def comp_def split_def)

lemma ep_inv_cong:
  "ep_shards p' = ep_shards p \<Longrightarrow> ep_subscribers p' = ep_subscribers p \<Longrightarrow> ep_inv p' = ep_inv p"
  by (simp add: ep_inv_def)

lemma alist_update_mem: "kv \<in> set (AList.update k v m) \<Longrightarrow> kv = (k, v) \<or> kv \<in> set m"
  by (induction m) (auto split: if_splits)

lemma ep_inv_Subscribe: "ep_inv p \<Longrightarrow> ep_inv (snd (SubscribeEvents p))"
  by (auto simp: ep_inv_def SubscribeEvents_def Let_def gm_ok_update dest!: alist_update_mem)

lemma ep_inv_Unsubscribe: "ep_inv p \<Longrightarrow> ep_inv (UnsubscribeEvents ch p)"
  using gm_ok_delete [of "ep_subscribers p" ch]
  by (auto simp: ep_inv_def UnsubscribeEvents_def AList.delete_eq)

text \<open>The outcome of one submission on each branch.\<close>

lemma Submit_nil: "SubmitTransaction ts lat None p = (('''', 0, Some ''nil transaction payload''), fail_tx p)"
  by (simp add: SubmitTransaction_def)

lemma Submit_counts:
  assumes "SubmitTransaction ts lat tx p = ((sh, l, err), p')"
  shows "ep_committed p' = ep_committed p + (if err = None then 1 else 0)"
    and "ep_failed p' = ep_failed p + (if err = None then 0 else 1)" and "ep_shards p' = ep_shards p"
  using assms
  by (auto simp: SubmitTransaction_def Let_def fail_tx_def frame_simps split: option.splits prod.splits if_splits)

lemma ep_inv_Submit:
  assumes "ep_inv p" and "SubmitTransaction ts lat tx p = (r, p')"
  shows "ep_inv p'"
proof -
  have "ep_inv (p\<lparr>ep_failed := x\<rparr>)" "ep_inv (p\<lparr>ep_committed := x\<rparr>)" "ep_inv (p\<lparr>ep_state := s, ep_failed := x\<rparr>)"
    "ep_inv (p\<lparr>ep_state := s, ep_committed := x\<rparr>)" for x s
    using assms(1) by (simp_all add: ep_inv_def)
  then show ?thesis
    using assms(2)
    by (auto simp: SubmitTransaction_def Let_def fail_tx_def ep_inv_Emit split: option.splits prod.splits if_splits)
qed

lemma ep_step_inv: "ep_inv p \<Longrightarrow> ep_inv (ep_step x p)"
proof (cases x)
  case (EpSubmit ts lat tx)
  then show "ep_inv p \<Longrightarrow> ep_inv (ep_step x p)" using ep_inv_Submit by (metis ep_step.simps(1) prod.collapse)
next
  case (EpShards ts n)
  have "ep_inv p \<Longrightarrow> 0 < n \<Longrightarrow> ep_inv (p\<lparr>ep_shards := n\<rparr>)" by (simp add: ep_inv_def)
  then show "ep_inv p \<Longrightarrow> ep_inv (ep_step x p)" using EpShards by (simp add: SetShards_def ep_inv_Emit)
next
  case (EpEngine ts e)
  have "ep_inv p \<Longrightarrow> ep_inv (p\<lparr>ep_db := d\<rparr>)" "ep_inv p \<Longrightarrow> ep_inv (p\<lparr>ep_db := d, ep_engineName := n\<rparr>)" for d n
    by (simp_all add: ep_inv_def)
  then show "ep_inv p \<Longrightarrow> ep_inv (ep_step x p)"
    using EpEngine by (auto simp: SetStorageEngine_def Let_def ep_inv_Emit split: option.splits)
qed (simp_all add: ep_inv_Subscribe ep_inv_Unsubscribe)

lemma ep_step_counted: "ep_counted (ep_step x p) = ep_counted p + (if is_submit x then 1 else 0)"
proof (cases x)
  case (EpSubmit ts lat tx)
  obtain sh l err p' where r: "SubmitTransaction ts lat tx p = ((sh, l, err), p')" by (metis prod.collapse)
  show ?thesis using Submit_counts [OF r] EpSubmit r by (simp add: ep_counted_def)
qed (auto simp: ep_counted_def SetShards_def SetStorageEngine_def SubscribeEvents_def UnsubscribeEvents_def Let_def
    frame_simps split: option.splits)

lemma ep_run_effect:
  "ep_inv p \<Longrightarrow> ep_inv (fold ep_step ops p)
    \<and> ep_counted (fold ep_step ops p) = ep_counted p + of_nat (length (filter is_submit ops))"
  by (induction ops arbitrary: p) (simp_all add: ep_step_inv ep_step_counted)

subsection \<open>Storage through an engine\<close>

context state_engine
begin

lemma Submit_stores:
  assumes "ep_db p = Some E" and "SubmitTransaction ts lat (Some tx) p = ((sh, l, None), p')"
  shows "sh = shard_name (TxUUID tx) (ep_shards p)
    \<and> view (ep_state p') = (view (ep_state p))(addr sh (''acc:'' @ AccountID tx) := Some (show_int (sint (tx_Amount tx))))"
  using assms put_ok
  by (auto simp: SubmitTransaction_def Let_def frame_simps split: option.splits prod.splits if_splits)

end

lemma shard_in_range:
  assumes "ep_inv p"
  shows "\<exists>i. 0 \<le> i \<and> i < ep_shards p \<and> shard_name u (ep_shards p) = ''shard-'' @ show_int i"
  using assms unfolding ep_inv_def shard_name_def
  by (intro exI [of _ "if length u > 0 then of_char (u ! 0) mod ep_shards p else 0"]) simp

subsection \<open>Identifiers of the clock\<close>

lemma show_hex_hd: "n > 0 \<Longrightarrow> 16 ^ k \<le> n \<Longrightarrow> n < 2 * 16 ^ k \<Longrightarrow> show_hex n ! 0 = CHR ''1''"
proof (induction k arbitrary: n)
  case 0
  then have "n = 1" by simp
  moreover have "hex_digit 1 = CHR ''1''" by code_simp
  ultimately show ?case by (simp add: show_hex.simps)
next
  case (Suc k)
  have "16 ^ k \<le> n div 16" "n div 16 < 2 * 16 ^ k" using Suc.prems(2,3) by (auto simp: less_mult_imp_div_less)
  moreover from this have "0 < n div 16" by (metis gr0I power_eq_0_iff zero_neq_numeral le_zero_eq)
  ultimately have IH: "show_hex (n div 16) ! 0 = CHR ''1''" using Suc.IH by blast
  have "16 \<le> n" using \<open>0 < n div 16\<close> by (simp add: div_greater_zero_iff)
  moreover have "show_hex (n div 16) \<noteq> []" by (subst show_hex.simps) simp
  ultimately show ?case using IH by (simp add: show_hex.simps [of n] nth_append)
qed

subsection \<open>Properties\<close>

text \<open>
  Every submission is counted exactly once, as committed or as failed: over every sequence of
  submissions (of nil payloads too), shard changes, engine changes and subscriptions, with engines
  that may fail, the two counters together advance by the number of submissions; the shard of every
  payload is one of the configured ones, and no subscriber is queued more than 500 events.
\<close>

theorem engine_counts_every_submission:
  shows "TotalCommitted (fold ep_step ops (NewEPipeline e s n)) + TotalFailed (fold ep_step ops (NewEPipeline e s n))
      = of_nat (length (filter is_submit ops))
    \<and> (\<exists>i. 0 \<le> i \<and> i < ep_shards (fold ep_step ops (NewEPipeline e s n))
         \<and> shard_name u (ep_shards (fold ep_step ops (NewEPipeline e s n))) = ''shard-'' @ show_int i)
    \<and> ep_inv (fold ep_step ops (NewEPipeline e s n))"
proof -
  have inv: "ep_inv (NewEPipeline e s n)" by (simp add: ep_inv_def NewEPipeline_def)
  let ?p = "fold ep_step ops (NewEPipeline e s n)"
  have "ep_inv ?p" and c: "ep_counted ?p = ep_counted (NewEPipeline e s n) + of_nat (length (filter is_submit ops))"
    using ep_run_effect [OF inv, of ops] by blast+
  moreover have "ep_counted (NewEPipeline e s n) = 0" by (simp add: ep_counted_def NewEPipeline_def)
  ultimately show ?thesis
    using shard_in_range [of ?p u] by (simp only: TotalCommitted_def TotalFailed_def ep_counted_def) simp
qed

text \<open>
  The identifiers the benchmark makes all go to one shard: the shard is chosen by the first character
  of the identifier, which is the hexadecimal clock, and for every reading between the years 2006
  and 2043 that character is the digit 1, so the shard is 49 modulo the number of shards.
\<close>

theorem clock_uuids_share_a_shard:
  assumes "2 ^ 60 \<le> now" and "now < 2 ^ 61" and "0 < n"
  shows "shard_name (GenerateUUID now) n = ''shard-'' @ show_int (49 mod n)"
proof -
  have "16 ^ 15 \<le> nat now" "nat now < 2 * 16 ^ 15" using assms(1,2) by (simp_all add: nat_le_iff le_nat_iff nat_less_iff)
  then have "show_hex (nat now) ! 0 = CHR ''1''" using show_hex_hd [of "nat now" 15] assms(1) by simp
  moreover have "show_hex (nat now) \<noteq> []" by (subst show_hex.simps) simp
  ultimately show ?thesis using assms(1) by (simp add: shard_name_def GenerateUUID_def)
qed

theorem clock_uuids_share_a_shard_witness:
  "(2 :: int) ^ 60 \<le> 1760000000000000000 \<and> (1760000000000000000 :: int) < 2 ^ 61
    \<and> shard_name (GenerateUUID 1760000000000000000) 32 = ''shard-'' @ show_int (49 mod 32)"
  using clock_uuids_share_a_shard [of 1760000000000000000 32] by simp

end
