(* ===== verification/HLF_Committer.thy ===== *)
theory HLF_Committer
  imports Engine_Pipeline HED_Hash
begin

text \<open>
  The batching committer of \<^verbatim>\<open>pkg/hlf/committer.go\<close>: bounded queues, one per partition, and
  worker goroutines that gather batches and hand them to a commit function. Each communication of a
  worker is one step, and any interleaving of steps is a run. The commit function is a parameter
  that sees whether the context is cancelled and acts on a state \<open>'w\<close>.
\<close>

record BatchConfig =
  MaxBatchSize :: int
  FlushTimeout :: duration
  WorkerCount :: int
  QueueSize :: int
  Partitions :: int

text \<open>A worker takes from its queue, drains it once the context is done, and returns.\<close>

datatype worker_mode = Running | Draining | Returned

record 'w HLFCommitter =
  hc_queues :: "TxPayload list list"
  hc_qcap :: int
  hc_batches :: "TxPayload list list"
  hc_modes :: "worker_mode list"
  hc_committed :: u64
  hc_failed :: u64
  hc_dropped :: u64
  hc_cfg :: BatchConfig
  hc_stopped :: bool
  hc_commitFn :: "(bool \<Rightarrow> TxPayload list \<Rightarrow> 'w \<Rightarrow> string option \<times> 'w) option"
  hc_world :: 'w

definition norm_config :: "BatchConfig \<Rightarrow> BatchConfig" where
  "norm_config cfg =
     (let c1 = (if MaxBatchSize cfg \<le> 0 then cfg\<lparr>MaxBatchSize := 2000\<rparr> else cfg);
          c2 = (if FlushTimeout c1 \<le> 0 then c1\<lparr>FlushTimeout := 2 * Millisecond\<rparr> else c1);
          c3 = (if WorkerCount c2 \<le> 0 then c2\<lparr>WorkerCount := 32\<rparr> else c2);
          c4 = (if QueueSize c3 \<le> 0 then c3\<lparr>QueueSize := 500000\<rparr> else c3);
          c5 = (if Partitions c4 \<le> 0 then c4\<lparr>Partitions := 8\<rparr> else c4)
      in if Partitions c5 > WorkerCount c5 then c5\<lparr>Partitions := WorkerCount c5\<rparr> else c5)"

text \<open>Starting the workers gives each an empty batch; worker \<open>i\<close> reads queue \<open>i mod\<close> the partitions.\<close>

definition startWorkers :: "'w HLFCommitter \<Rightarrow> 'w HLFCommitter" where
  "startWorkers c =
     c\<lparr>hc_batches := replicate (nat (WorkerCount (hc_cfg c))) [],
       hc_modes := replicate (nat (WorkerCount (hc_cfg c))) Running\<rparr>"

definition NewHLFCommitter :: "BatchConfig \<Rightarrow> 'w \<Rightarrow> 'w HLFCommitter" where
  "NewHLFCommitter cfg0 w =
     (let cfg = norm_config cfg0;
          queueSize = (let q = QueueSize cfg div Partitions cfg in if q < 1 then 1 else q)
      in startWorkers \<lparr>hc_queues = replicate (nat (Partitions cfg)) [], hc_qcap = queueSize, hc_batches = [],
           hc_modes = [], hc_committed = 0, hc_failed = 0, hc_dropped = 0, hc_cfg = cfg, hc_stopped = False,
           hc_commitFn = None, hc_world = w\<rparr>)"

definition partitionFor :: "'w HLFCommitter \<Rightarrow> TxPayload \<Rightarrow> nat" where
  "partitionFor c tx = unat (fnv32a (TxUUID tx) mod of_nat (length (hc_queues c)))"

definition hc_SubmitTx :: "TxPayload option \<Rightarrow> 'w HLFCommitter \<Rightarrow> bool \<times> 'w HLFCommitter" where
  "hc_SubmitTx txp c =
     (case txp of
        None \<Rightarrow> (False, c\<lparr>hc_failed := hc_failed c + 1\<rparr>)
      | Some tx \<Rightarrow>
          (if hc_stopped c then (False, c\<lparr>hc_failed := hc_failed c + 1\<rparr>)
           else let p = partitionFor c tx
                in if int (length (hc_queues c ! p)) < hc_qcap c
                   then (True, c\<lparr>hc_queues := (hc_queues c)[p := hc_queues c ! p @ [tx]]\<rparr>)
                   else (False, c\<lparr>hc_failed := hc_failed c + 1, hc_dropped := hc_dropped c + 1\<rparr>)))"

subsection \<open>Flushing\<close>

text \<open>The result says whether the batch was committed.\<close>

definition flushBatch :: "TxPayload list \<Rightarrow> 'w HLFCommitter \<Rightarrow> bool \<times> 'w HLFCommitter" where
  "flushBatch batch c =
     (if batch = [] then (True, c)
      else case hc_commitFn c of
             None \<Rightarrow> (True, c\<lparr>hc_committed := hc_committed c + of_nat (length batch)\<rparr>)
           | Some fn \<Rightarrow>
               (case fn (hc_stopped c) batch (hc_world c) of
                  (Some e, w) \<Rightarrow> (False, c\<lparr>hc_world := w, hc_failed := hc_failed c + of_nat (length batch)\<rparr>)
                | (None, w) \<Rightarrow> (True, c\<lparr>hc_world := w, hc_committed := hc_committed c + of_nat (length batch)\<rparr>)))"

datatype hc_event = HAccepted TxPayload | HRejected | HCommitted "TxPayload list" | HFailed "TxPayload list"

text \<open>The flush of worker \<open>i\<close>: its batch is handed over and emptied.\<close>

definition worker_flush :: "nat \<Rightarrow> 'w HLFCommitter \<Rightarrow> hc_event list \<times> 'w HLFCommitter" where
  "worker_flush i c =
     (let batch = hc_batches c ! i
      in if batch = [] then ([], c)
         else case flushBatch batch c of
                (ok, c') \<Rightarrow> ([if ok then HCommitted batch else HFailed batch],
                            c'\<lparr>hc_batches := (hc_batches c')[i := []]\<rparr>))"

definition worker_queue :: "nat \<Rightarrow> 'w HLFCommitter \<Rightarrow> nat" where
  "worker_queue i c = i mod length (hc_queues c)"

subsection \<open>The steps of a worker\<close>

datatype hc_op = OpSubmit "TxPayload option" | OpRecv nat | OpTick nat | OpCtxDone nat | OpReturn nat | OpStop

text \<open>
  \<^verbatim>\<open>case tx := <-queue\<close>, in the loop and while draining; \<^verbatim>\<open>case <-ticker.C\<close>; \<^verbatim>\<open>case
  <-ctx.Done()\<close>, which starts draining; and the default branch of the drain, taken when the queue is
  empty. A step that is not enabled changes nothing.
\<close>

definition worker_recv :: "nat \<Rightarrow> 'w HLFCommitter \<Rightarrow> hc_event list \<times> 'w HLFCommitter" where
  "worker_recv i c =
     (if i < length (hc_modes c) \<and> hc_modes c ! i \<noteq> Returned
      then (case hc_queues c ! worker_queue i c of
              [] \<Rightarrow> ([], c)
            | tx # rest \<Rightarrow>
                (let b = hc_batches c ! i @ [tx];
                     c' = c\<lparr>hc_queues := (hc_queues c)[worker_queue i c := rest], hc_batches := (hc_batches c)[i := b]\<rparr>
                 in if int (length b) \<ge> MaxBatchSize (hc_cfg c) then worker_flush i c' else ([], c')))
      else ([], c))"

definition worker_tick :: "nat \<Rightarrow> 'w HLFCommitter \<Rightarrow> hc_event list \<times> 'w HLFCommitter" where
  "worker_tick i c =
     (if i < length (hc_modes c) \<and> hc_modes c ! i = Running then worker_flush i c else ([], c))"

definition worker_done :: "nat \<Rightarrow> 'w HLFCommitter \<Rightarrow> hc_event list \<times> 'w HLFCommitter" where
  "worker_done i c =
     (if i < length (hc_modes c) \<and> hc_modes c ! i = Running \<and> hc_stopped c
      then ([], c\<lparr>hc_modes := (hc_modes c)[i := Draining]\<rparr>) else ([], c))"

definition worker_return :: "nat \<Rightarrow> 'w HLFCommitter \<Rightarrow> hc_event list \<times> 'w HLFCommitter" where
  "worker_return i c =
     (if i < length (hc_modes c) \<and> hc_modes c ! i = Draining \<and> hc_queues c ! worker_queue i c = []
      then (case worker_flush i c of (es, c') \<Rightarrow> (es, c'\<lparr>hc_modes := (hc_modes c')[i := Returned]\<rparr>))
      else ([], c))"

text \<open>\<^verbatim>\<open>Stop\<close> closes admission and cancels the context, then waits until every worker has returned.\<close>

definition hc_Stop :: "'w HLFCommitter \<Rightarrow> 'w HLFCommitter" where
  "hc_Stop c = c\<lparr>hc_stopped := True\<rparr>"

definition hc_joined :: "'w HLFCommitter \<Rightarrow> bool" where
  "hc_joined c \<longleftrightarrow> hc_stopped c \<and> (\<forall>m \<in> set (hc_modes c). m = Returned)"

fun hc_step :: "hc_op \<Rightarrow> 'w HLFCommitter \<Rightarrow> hc_event list \<times> 'w HLFCommitter" where
  "hc_step (OpSubmit tx) c =
     (case hc_SubmitTx tx c of
        (True, c') \<Rightarrow> ((case tx of Some t \<Rightarrow> [HAccepted t] | None \<Rightarrow> []), c')
      | (False, c') \<Rightarrow> ([HRejected], c'))"
| "hc_step (OpRecv i) c = worker_recv i c"
| "hc_step (OpTick i) c = worker_tick i c"
| "hc_step (OpCtxDone i) c = worker_done i c"
| "hc_step (OpReturn i) c = worker_return i c"
| "hc_step OpStop c = ([], hc_Stop c)"

fun hc_run :: "hc_op list \<Rightarrow> 'w HLFCommitter \<Rightarrow> hc_event list \<times> 'w HLFCommitter" where
  "hc_run [] c = ([], c)"
| "hc_run (x # xs) c = (case hc_step x c of (es, c') \<Rightarrow> (case hc_run xs c' of (es', c'') \<Rightarrow> (es @ es', c'')))"

definition SetCommitFunc ::
  "(bool \<Rightarrow> TxPayload list \<Rightarrow> 'w \<Rightarrow> string option \<times> 'w) option \<Rightarrow> 'w HLFCommitter \<Rightarrow> 'w HLFCommitter" where
  "SetCommitFunc fn c = c\<lparr>hc_commitFn := fn\<rparr>"

definition hc_TotalCommitted :: "'w HLFCommitter \<Rightarrow> u64" where
  "hc_TotalCommitted c = hc_committed c"

definition hc_TotalFailed :: "'w HLFCommitter \<Rightarrow> u64" where
  "hc_TotalFailed c = hc_failed c"

definition hc_TotalDropped :: "'w HLFCommitter \<Rightarrow> u64" where
  "hc_TotalDropped c = hc_dropped c"

definition QueueDepth :: "'w HLFCommitter \<Rightarrow> int" where
  "QueueDepth c = sum_list (map (\<lambda>q. int (length q)) (hc_queues c))"

definition QueueCapacity :: "'w HLFCommitter \<Rightarrow> int" where
  "QueueCapacity c = sum_list (map (\<lambda>q. hc_qcap c) (hc_queues c))"

subsection \<open>What is accepted, held and handed over\<close>

fun ev_accepted :: "hc_event list \<Rightarrow> TxPayload list" where
  "ev_accepted [] = []"
| "ev_accepted (HAccepted t # es) = t # ev_accepted es"
| "ev_accepted (_ # es) = ev_accepted es"

fun ev_committed :: "hc_event list \<Rightarrow> TxPayload list" where
  "ev_committed [] = []"
| "ev_committed (HCommitted b # es) = b @ ev_committed es"
| "ev_committed (_ # es) = ev_committed es"

fun ev_failed :: "hc_event list \<Rightarrow> TxPayload list" where
  "ev_failed [] = []"
| "ev_failed (HFailed b # es) = b @ ev_failed es"
| "ev_failed (_ # es) = ev_failed es"

fun ev_rejected :: "hc_event list \<Rightarrow> nat" where
  "ev_rejected [] = 0"
| "ev_rejected (HRejected # es) = Suc (ev_rejected es)"
| "ev_rejected (_ # es) = ev_rejected es"

lemma ev_append:
  "ev_accepted (es @ fs) = ev_accepted es @ ev_accepted fs"
  "ev_committed (es @ fs) = ev_committed es @ ev_committed fs"
  "ev_failed (es @ fs) = ev_failed es @ ev_failed fs"
  "ev_rejected (es @ fs) = ev_rejected es + ev_rejected fs"
proof -
  show "ev_accepted (es @ fs) = ev_accepted es @ ev_accepted fs" by (induction es rule: ev_accepted.induct) simp_all
  show "ev_committed (es @ fs) = ev_committed es @ ev_committed fs" by (induction es rule: ev_committed.induct) simp_all
  show "ev_failed (es @ fs) = ev_failed es @ ev_failed fs" by (induction es rule: ev_failed.induct) simp_all
  show "ev_rejected (es @ fs) = ev_rejected es + ev_rejected fs" by (induction es rule: ev_rejected.induct) simp_all
qed

definition held :: "'w HLFCommitter \<Rightarrow> TxPayload multiset" where
  "held c = mset (concat (hc_queues c)) + mset (concat (hc_batches c))"

text \<open>
  Every worker has a batch, every queue has a worker, no queue exceeds its capacity, and a worker
  that has returned left an empty queue and an empty batch behind, after admission was closed.
\<close>

definition hc_inv :: "'w HLFCommitter \<Rightarrow> bool" where
  "hc_inv c \<longleftrightarrow> 0 < length (hc_queues c) \<and> length (hc_queues c) \<le> length (hc_modes c)
     \<and> length (hc_queues c) < 2 ^ 32
     \<and> length (hc_batches c) = length (hc_modes c)
     \<and> (\<forall>q \<in> set (hc_queues c). int (length q) \<le> hc_qcap c)
     \<and> (\<forall>i < length (hc_modes c). hc_modes c ! i \<noteq> Running \<longrightarrow> hc_stopped c)
     \<and> (\<forall>i < length (hc_modes c). hc_modes c ! i = Returned
          \<longrightarrow> hc_batches c ! i = [] \<and> hc_queues c ! worker_queue i c = [])"

lemma mset_concat_update:
  "i < length xs \<Longrightarrow> mset (concat (xs[i := ys])) + mset (xs ! i) = mset (concat xs) + mset ys"
proof (induction xs arbitrary: i)
  case Nil
  then show ?case by simp
next
  case (Cons x xs)
  show ?case
  proof (cases i)
    case 0
    then show ?thesis by simp
  next
    case (Suc j)
    with Cons.IH [of j] Cons.prems show ?thesis by (simp add: union_assoc union_lcomm)
  qed
qed

lemma partition_less:
  assumes "0 < length (hc_queues c)" and "length (hc_queues c) < 2 ^ 32"
  shows "partitionFor c tx < length (hc_queues c)"
  using assms by (simp add: partitionFor_def unat_mod_distrib unat_of_nat)

text \<open>What one step may do: payloads move, and the counters follow the events.\<close>

definition hc_moves :: "'w HLFCommitter \<Rightarrow> hc_event list \<Rightarrow> 'w HLFCommitter \<Rightarrow> bool" where
  "hc_moves c es c' \<longleftrightarrow>
     held c' + mset (ev_committed es) + mset (ev_failed es) = held c + mset (ev_accepted es)
     \<and> hc_committed c' = hc_committed c + of_nat (length (ev_committed es))
     \<and> hc_failed c' = hc_failed c + of_nat (ev_rejected es + length (ev_failed es))"

lemma hc_moves_refl: "hc_moves c [] c"
  by (simp add: hc_moves_def)

lemma hc_moves_trans:
  assumes "hc_moves a es b" and "hc_moves b fs c"
  shows "hc_moves a (es @ fs) c"
proof -
  have "held c + mset (ev_committed (es @ fs)) + mset (ev_failed (es @ fs))
      = (held c + mset (ev_committed fs) + mset (ev_failed fs)) + mset (ev_committed es) + mset (ev_failed es)"
    by (simp add: ev_append)
  also have "\<dots> = (held b + mset (ev_committed es) + mset (ev_failed es)) + mset (ev_accepted fs)"
    using assms(2) by (simp add: hc_moves_def union_assoc union_lcomm union_commute)
  also have "\<dots> = held a + mset (ev_accepted (es @ fs))"
    using assms(1) by (simp add: hc_moves_def ev_append)
  finally show ?thesis using assms by (simp add: hc_moves_def ev_append)
qed

lemma worker_flush_effect:
  assumes "i < length (hc_batches c)" and "worker_flush i c = (es, c')"
  shows "hc_moves c es c' \<and> hc_queues c' = hc_queues c \<and> hc_qcap c' = hc_qcap c \<and> hc_modes c' = hc_modes c
    \<and> hc_cfg c' = hc_cfg c \<and> hc_stopped c' = hc_stopped c \<and> hc_batches c' = (hc_batches c)[i := []]"
proof (cases "hc_batches c ! i = []")
  case True
  then have "(hc_batches c)[i := []] = hc_batches c" using list_update_id [of "hc_batches c" i] by simp
  with True assms(2) show ?thesis by (simp add: worker_flush_def hc_moves_refl)
next
  case False
  obtain ok c1 where f: "flushBatch (hc_batches c ! i) c = (ok, c1)" by force
  have eff: "hc_queues c1 = hc_queues c \<and> hc_qcap c1 = hc_qcap c \<and> hc_modes c1 = hc_modes c \<and> hc_cfg c1 = hc_cfg c
    \<and> hc_stopped c1 = hc_stopped c \<and> hc_batches c1 = hc_batches c
    \<and> hc_committed c1 = hc_committed c + (if ok then of_nat (length (hc_batches c ! i)) else 0)
    \<and> hc_failed c1 = hc_failed c + (if ok then 0 else of_nat (length (hc_batches c ! i)))"
    using f False by (auto simp: flushBatch_def split: option.splits prod.splits)
  have c': "es = [if ok then HCommitted (hc_batches c ! i) else HFailed (hc_batches c ! i)]"
    "c' = c1\<lparr>hc_batches := (hc_batches c)[i := []]\<rparr>"
    using assms(2) False f eff by (auto simp: worker_flush_def Let_def)
  have "mset (concat ((hc_batches c)[i := []])) + mset (hc_batches c ! i) = mset (concat (hc_batches c))"
    using mset_concat_update [OF assms(1), of "[]"] by simp
  then have "hc_moves c es c'" using eff by (cases ok) (simp_all add: hc_moves_def held_def c' union_assoc)
  then show ?thesis using eff c' by simp
qed

lemma hc_Submit_effect:
  assumes "hc_inv c" and "hc_step (OpSubmit tx) c = (es, c')"
  shows "hc_inv c' \<and> hc_moves c es c'"
proof (cases "hc_SubmitTx tx c")
  case (Pair ok c1)
  show ?thesis
  proof (cases ok)
    case True
    then obtain t where t: "tx = Some t" "\<not> hc_stopped c" "int (length (hc_queues c ! partitionFor c t)) < hc_qcap c"
      "c1 = c\<lparr>hc_queues := (hc_queues c)[partitionFor c t := hc_queues c ! partitionFor c t @ [t]]\<rparr>"
      using Pair by (auto simp: hc_SubmitTx_def Let_def split: option.splits if_splits)
    let ?p = "partitionFor c t"
    have p: "?p < length (hc_queues c)" using assms(1) by (simp add: hc_inv_def partition_less)
    have es: "es = [HAccepted t]" "c' = c1" using assms(2) Pair True t(1) by simp_all
    have run: "hc_modes c ! i = Running" if "i < length (hc_modes c)" for i
      using assms(1) t(2) that by (auto simp: hc_inv_def)
    have "mset (concat ((hc_queues c)[?p := hc_queues c ! ?p @ [t]])) = add_mset t (mset (concat (hc_queues c)))"
      using mset_concat_update [OF p, of "hc_queues c ! ?p @ [t]"] by simp
    then have "hc_moves c es c'" by (simp add: hc_moves_def held_def es t(4))
    moreover have "hc_inv c'"
      using assms(1) t(3) run unfolding hc_inv_def es(2) t(4)
      by (auto simp: set_update_subset_insert [THEN subsetD] dest!: set_update_subset_insert [THEN subsetD])
    ultimately show ?thesis by simp
  next
    case False
    then have c1: "hc_queues c1 = hc_queues c" "hc_batches c1 = hc_batches c" "hc_modes c1 = hc_modes c"
      "hc_qcap c1 = hc_qcap c" "hc_stopped c1 = hc_stopped c" "hc_committed c1 = hc_committed c" "hc_failed c1 = hc_failed c + 1"
      using Pair by (auto simp: hc_SubmitTx_def Let_def split: option.splits if_splits)
    have es: "es = [HRejected]" "c' = c1" using assms(2) Pair False by simp_all
    have "hc_inv c1" using assms(1) by (simp add: hc_inv_def c1 worker_queue_def)
    then show ?thesis using es c1 by (simp add: hc_moves_def held_def)
  qed
qed

lemma worker_queue_less: "hc_inv c \<Longrightarrow> worker_queue i c < length (hc_queues c)"
  by (simp add: hc_inv_def worker_queue_def)

text \<open>Moving the head of a queue to the batch of its worker.\<close>

lemma recv_moved:
  assumes inv: "hc_inv c" and i: "i < length (hc_modes c)" "hc_modes c ! i \<noteq> Returned"
    and q: "hc_queues c ! worker_queue i c = t # rest"
    and c': "c' = c\<lparr>hc_queues := (hc_queues c)[worker_queue i c := rest], hc_batches := (hc_batches c)[i := hc_batches c ! i @ [t]]\<rparr>"
  shows "hc_inv c'" and "hc_moves c [] c'"
proof -
  let ?q = "worker_queue i c" and ?b = "hc_batches c ! i @ [t]"
  have ql: "?q < length (hc_queues c)" by (rule worker_queue_less [OF inv])
  have ib: "i < length (hc_batches c)" using inv i by (simp add: hc_inv_def)
  have "mset (concat (hc_queues c)) = add_mset t (mset (concat ((hc_queues c)[?q := rest])))"
    using mset_concat_update [OF ql, of rest] q by simp
  moreover have "mset (concat ((hc_batches c)[i := ?b])) = add_mset t (mset (concat (hc_batches c)))"
    using mset_concat_update [OF ib, of ?b] by simp
  ultimately show "hc_moves c [] c'" by (simp add: hc_moves_def held_def c')
  have "int (length (hc_queues c ! ?q)) \<le> hc_qcap c" using inv ql by (simp add: hc_inv_def)
  then have len: "int (length s) \<le> hc_qcap c" if "s \<in> set ((hc_queues c)[?q := rest])" for s
    using inv q subsetD [OF set_update_subset_insert that] by (auto simp: hc_inv_def)
  have wq: "worker_queue j c' = worker_queue j c" for j by (simp add: worker_queue_def c')
  have "hc_batches c' ! j = [] \<and> hc_queues c' ! worker_queue j c = []"
    if "j < length (hc_modes c)" "hc_modes c ! j = Returned" for j
    using that inv i q by (auto simp: hc_inv_def nth_update_any c')
  with inv len wq show "hc_inv c'" unfolding hc_inv_def by (simp add: c')
qed

lemma hc_Recv_effect:
  assumes "hc_inv c" and "worker_recv i c = (es, c')"
  shows "hc_inv c' \<and> hc_moves c es c'"
proof (cases "i < length (hc_modes c) \<and> hc_modes c ! i \<noteq> Returned \<and> hc_queues c ! worker_queue i c \<noteq> []")
  case False
  then have "es = []" "c' = c" using assms(2) by (auto simp: worker_recv_def split: list.splits if_splits)
  then show ?thesis using assms(1) hc_moves_refl by blast
next
  case True
  let ?q = "worker_queue i c"
  obtain t rest where q: "hc_queues c ! ?q = t # rest" using True by (cases "hc_queues c ! ?q") auto
  let ?b = "hc_batches c ! i @ [t]"
  define c0 where "c0 = c\<lparr>hc_queues := (hc_queues c)[?q := rest], hc_batches := (hc_batches c)[i := ?b]\<rparr>"
  note m = recv_moved [OF assms(1) conjunct1 [OF True] conjunct1 [OF conjunct2 [OF True]] q c0_def]
  have r: "(if int (length ?b) \<ge> MaxBatchSize (hc_cfg c) then worker_flush i c0 else ([], c0)) = (es, c')"
    using assms(2) True q unfolding c0_def by (simp add: worker_recv_def Let_def split del: if_split)
  show ?thesis
  proof (cases "int (length ?b) \<ge> MaxBatchSize (hc_cfg c)")
    case False
    then show ?thesis using r m by auto
  next
    case big: True
    then have f: "worker_flush i c0 = (es, c')" using r by simp
    have "i < length (hc_batches c0)" using assms(1) True by (simp add: hc_inv_def c0_def)
    note F = worker_flush_effect [OF this f]
    have "hc_inv c'" using m(1) F unfolding hc_inv_def worker_queue_def by (auto simp: nth_update_any)
    moreover have "hc_moves c es c'" using hc_moves_trans [OF m(2), of es c'] F by simp
    ultimately show ?thesis by simp
  qed
qed

lemma hc_Tick_effect:
  assumes "hc_inv c" and "worker_tick i c = (es, c')"
  shows "hc_inv c' \<and> hc_moves c es c'"
proof (cases "i < length (hc_modes c) \<and> hc_modes c ! i = Running")
  case False
  then show ?thesis using assms hc_moves_refl by (auto simp: worker_tick_def)
next
  case True
  have i: "i < length (hc_batches c)" using assms(1) True by (simp add: hc_inv_def)
  have "worker_flush i c = (es, c')" using assms(2) True by (simp add: worker_tick_def)
  note F = worker_flush_effect [OF i this]
  have "hc_inv c'" using assms(1) F unfolding hc_inv_def worker_queue_def by (auto simp: nth_update_any)
  then show ?thesis using F by simp
qed

lemma hc_Done_effect:
  assumes "hc_inv c" and "worker_done i c = (es, c')"
  shows "hc_inv c' \<and> hc_moves c es c'"
proof -
  have "es = [] \<and> (c' = c \<or> hc_stopped c \<and> hc_modes c ! i = Running \<and> c' = c\<lparr>hc_modes := (hc_modes c)[i := Draining]\<rparr>)"
    using assms(2) by (auto simp: worker_done_def split: if_splits)
  then show ?thesis
    using assms(1) by (auto simp: hc_moves_def held_def hc_inv_def worker_queue_def nth_update_any split: if_splits)
qed

lemma hc_Return_effect:
  assumes "hc_inv c" and "worker_return i c = (es, c')"
  shows "hc_inv c' \<and> hc_moves c es c'"
proof (cases "i < length (hc_modes c) \<and> hc_modes c ! i = Draining \<and> hc_queues c ! worker_queue i c = []")
  case False
  then show ?thesis using assms hc_moves_refl by (auto simp: worker_return_def split: if_splits)
next
  case True
  have i: "i < length (hc_batches c)" using assms(1) True by (simp add: hc_inv_def)
  obtain c1 where f: "worker_flush i c = (es, c1)" "c' = c1\<lparr>hc_modes := (hc_modes c1)[i := Returned]\<rparr>"
    using assms(2) True by (auto simp: worker_return_def split: prod.splits)
  note F = worker_flush_effect [OF i f(1)]
  have st: "hc_stopped c" using assms(1) True by (auto simp: hc_inv_def)
  have "hc_inv c'"
    using assms(1) F True st i unfolding hc_inv_def f(2) worker_queue_def by (auto simp: nth_update_any)
  moreover have "held c' = held c1" "hc_committed c' = hc_committed c1" "hc_failed c' = hc_failed c1"
    by (simp_all add: held_def f(2))
  then have "hc_moves c es c'" using F by (simp add: hc_moves_def)
  ultimately show ?thesis by simp
qed

lemma hc_step_effect:
  assumes "hc_inv c" and "hc_step x c = (es, c')"
  shows "hc_inv c' \<and> hc_moves c es c'"
proof (cases x)
  case OpStop
  then show ?thesis using assms by (auto simp: hc_Stop_def hc_inv_def hc_moves_def held_def worker_queue_def)
next
  case (OpSubmit tx)
  then show ?thesis using hc_Submit_effect assms by blast
next
  case (OpRecv i)
  then show ?thesis using hc_Recv_effect [OF assms(1)] assms(2) by simp
next
  case (OpTick i)
  then show ?thesis using hc_Tick_effect [OF assms(1)] assms(2) by simp
next
  case (OpCtxDone i)
  then show ?thesis using hc_Done_effect [OF assms(1)] assms(2) by simp
next
  case (OpReturn i)
  then show ?thesis using hc_Return_effect [OF assms(1)] assms(2) by simp
qed

lemma hc_run_effect: "hc_inv c \<Longrightarrow> hc_run xs c = (es, c') \<Longrightarrow> hc_inv c' \<and> hc_moves c es c'"
proof (induction xs arbitrary: c es)
  case Nil
  then show ?case by (simp add: hc_moves_refl)
next
  case (Cons x xs)
  obtain e1 c1 where s: "hc_step x c = (e1, c1)" by force
  obtain e2 where r: "hc_run xs c1 = (e2, c')" "es = e1 @ e2" using Cons.prems(2) s by (auto split: prod.splits)
  note S = hc_step_effect [OF Cons.prems(1) s]
  then have "hc_inv c1" by blast
  with Cons.IH [OF this r(1)] S r(2) hc_moves_trans show ?case by blast
qed

lemma norm_config_pos:
  "0 < Partitions (norm_config cfg) \<and> Partitions (norm_config cfg) \<le> WorkerCount (norm_config cfg)
    \<and> 0 < MaxBatchSize (norm_config cfg)"
  by (simp add: norm_config_def Let_def)

lemma hc_inv_New:
  assumes "Partitions (norm_config cfg) < 2 ^ 32"
  shows "hc_inv (SetCommitFunc fn (NewHLFCommitter cfg w))"
  using assms norm_config_pos [of cfg]
  by (auto simp: hc_inv_def SetCommitFunc_def NewHLFCommitter_def startWorkers_def Let_def nat_le_iff nat_mono nat_less_iff)

text \<open>When every worker has returned, nothing is held.\<close>

lemma hc_joined_empty:
  assumes "hc_inv c" and "hc_joined c"
  shows "held c = {#}"
proof -
  have ret: "hc_modes c ! i = Returned" if "i < length (hc_modes c)" for i
    using assms(2) that by (simp add: hc_joined_def)
  have "b = []" if "b \<in> set (hc_batches c)" for b
    using that assms(1) ret by (auto simp: hc_inv_def in_set_conv_nth)
  moreover have "q = []" if q: "q \<in> set (hc_queues c)" for q
  proof -
    obtain j where j: "j < length (hc_queues c)" "q = hc_queues c ! j" using q unfolding in_set_conv_nth by blast
    moreover have "j < length (hc_modes c)" using j assms(1) by (simp add: hc_inv_def)
    moreover have "worker_queue j c = j" using j by (simp add: worker_queue_def)
    ultimately show ?thesis using assms(1) ret [of j] unfolding hc_inv_def by metis
  qed
  ultimately show ?thesis by (auto simp: held_def)
qed

subsection \<open>Properties\<close>

text \<open>
  C7 The batching committer loses and duplicates no accepted transaction: over every interleaving of
  submissions, workers and Stop, with any commit function, the accepted payloads are, with
  multiplicity, those committed, those whose batch failed and those still queued or batched; the
  counters say how many were committed, and how many were refused or failed; no queue exceeds its
  capacity; and once Stop has returned nothing is left, so every accepted payload was handed to the
  commit function exactly once.
\<close>

theorem hlf_committer_exact:
  assumes "Partitions (norm_config cfg) < 2 ^ 32" and "hc_run xs (SetCommitFunc fn (NewHLFCommitter cfg w)) = (es, c)"
  shows "mset (ev_accepted es) = mset (ev_committed es) + mset (ev_failed es) + held c
    \<and> hc_TotalCommitted c = of_nat (length (ev_committed es))
    \<and> hc_TotalFailed c = of_nat (ev_rejected es + length (ev_failed es))
    \<and> (hc_joined c \<longrightarrow> mset (ev_accepted es) = mset (ev_committed es) + mset (ev_failed es))"
proof -
  have "hc_inv (SetCommitFunc fn (NewHLFCommitter cfg w))" by (rule hc_inv_New [OF assms(1)])
  from hc_run_effect [OF this assms(2)]
  have inv: "hc_inv c" and m: "hc_moves (SetCommitFunc fn (NewHLFCommitter cfg w)) es c" by blast+
  have z: "held (SetCommitFunc fn (NewHLFCommitter cfg w)) = {#}"
    "hc_committed (SetCommitFunc fn (NewHLFCommitter cfg w)) = 0" "hc_failed (SetCommitFunc fn (NewHLFCommitter cfg w)) = 0"
    by (simp_all add: held_def SetCommitFunc_def NewHLFCommitter_def startWorkers_def Let_def)
  have "mset (ev_accepted es) = mset (ev_committed es) + mset (ev_failed es) + held c"
    using m z by (simp add: hc_moves_def ac_simps)
  then show ?thesis
    using m z hc_joined_empty [OF inv] by (simp add: hc_moves_def hc_TotalCommitted_def hc_TotalFailed_def)
qed

theorem hlf_committer_exact_witness:
  "\<exists>es c. hc_run [OpSubmit (Some \<lparr>TxUUID = ''a'', AccountID = ''x'', tx_Amount = 1\<rparr>), OpSubmit None, OpRecv 0, OpStop, OpCtxDone 0, OpReturn 0]
      (SetCommitFunc None (NewHLFCommitter \<lparr>MaxBatchSize = 10, FlushTimeout = 1, WorkerCount = 1, QueueSize = 5, Partitions = 1\<rparr> ())) = (es, c)
    \<and> mset (ev_accepted es) = mset (ev_committed es) + mset (ev_failed es) + held c
    \<and> hc_TotalCommitted c = of_nat (length (ev_committed es))"
proof -
  let ?cfg = "\<lparr>MaxBatchSize = 10, FlushTimeout = 1, WorkerCount = 1, QueueSize = 5, Partitions = 1\<rparr>"
  let ?xs = "[OpSubmit (Some \<lparr>TxUUID = ''a'', AccountID = ''x'', tx_Amount = 1\<rparr>), OpSubmit None, OpRecv 0, OpStop, OpCtxDone 0, OpReturn 0]"
  have p: "Partitions (norm_config ?cfg) < 2 ^ 32" by (simp add: norm_config_def)
  obtain es c where r: "hc_run ?xs (SetCommitFunc None (NewHLFCommitter ?cfg ())) = (es, c)" by force
  from hlf_committer_exact [OF p r] r show ?thesis by blast
qed

end
