(* ===== verification/HLF_Deployer.thy ===== *)
theory HLF_Deployer
  imports Go_Json Go_Strings
begin

text \<open>
  The Fabric deployment of \<^verbatim>\<open>pkg/hlf\<close>: the defaults of \<^verbatim>\<open>config.go\<close> and the staged
  deployer of \<^verbatim>\<open>deployer.go\<close>. The operating system is a parameter over a state \<open>'w\<close>: the
  working directory, the environment, file operations, the commands it runs with the chunks of
  output they stream, the state of the context, and the printed durations. Listeners are buffered
  channels, kept as their capacity and the messages queued.
\<close>

subsection \<open>Configuration\<close>

definition DefaultFabricVersion :: string where "DefaultFabricVersion = ''2.5.16''"
definition DefaultChannelID :: string where "DefaultChannelID = ''mychannel''"
definition DefaultChaincodeName :: string where "DefaultChaincodeName = ''basic''"
definition DefaultChaincodePath :: string where "DefaultChaincodePath = ''../asset-transfer-basic/chaincode-go''"
definition DefaultChaincodeLang :: string where "DefaultChaincodeLang = ''go''"
definition TargetGoVersion :: string where "TargetGoVersion = ''1.22''"
definition FabricRuntimeDir :: string where "FabricRuntimeDir = ''.hed''"
definition FabricSamplesDir :: string where "FabricSamplesDir = FabricRuntimeDir @ ''/fabric-samples''"

record DeployOptions =
  do_FabricVersion :: string
  do_ChannelID :: string
  do_Channels :: "string list"
  do_ChaincodeName :: string
  do_TargetGoVer :: string

definition DefaultOptions :: DeployOptions where
  "DefaultOptions = \<lparr>do_FabricVersion = DefaultFabricVersion, do_ChannelID = DefaultChannelID,
     do_Channels = [DefaultChannelID], do_ChaincodeName = DefaultChaincodeName, do_TargetGoVer = TargetGoVersion\<rparr>"

subsection \<open>The deployer\<close>

datatype StageStatus = StatusPending | StatusInProgress | StatusCompleted | StatusFailed

fun StageStatus_string :: "StageStatus \<Rightarrow> string" where
  "StageStatus_string StatusPending = ''pending''"
| "StageStatus_string StatusInProgress = ''in_progress''"
| "StageStatus_string StatusCompleted = ''completed''"
| "StageStatus_string StatusFailed = ''failed''"

record DeploymentStage =
  ds_ID :: string
  ds_Name :: string
  ds_Description :: string
  ds_Status :: StageStatus
  ds_Duration :: string
  ds_Color :: string

record Deployer =
  dp_opts :: DeployOptions
  dp_listeners :: "(nat, nat \<times> string list) gomap"
  dp_stages :: "DeploymentStage list"
  dp_logHistory :: "string list"

definition stage_of :: "string \<Rightarrow> string \<Rightarrow> string \<Rightarrow> string \<Rightarrow> DeploymentStage" where
  "stage_of i n d c = \<lparr>ds_ID = i, ds_Name = n, ds_Description = d, ds_Status = StatusPending, ds_Duration = '''', ds_Color = c\<rparr>"

definition NewDeployer :: "DeployOptions \<Rightarrow> Deployer" where
  "NewDeployer opts = \<lparr>dp_opts = opts, dp_listeners = [],
     dp_stages =
       [stage_of ''stage_1'' ''Pre-requisites Check'' ''Verify Docker & Go versions'' ''#38bdf8'',
        stage_of ''stage_2'' ''Binary Bootstrap'' ''Download Fabric binaries and images'' ''#818cf8'',
        stage_of ''stage_3'' ''Network Teardown & Spin-up'' ''Clean stale ledgers and launch Docker containers'' ''#fbbf24'',
        stage_of ''stage_4'' ''Channel Creation & Join'' ''Create channel and join peers'' ''#f472b6'',
        stage_of ''stage_5'' ''Chaincode Deployment'' ''Install & commit HED Smart Contracts'' ''#34d399''],
     dp_logHistory = []\<rparr>"

subsection \<open>Messages to listeners\<close>

definition stage_json :: "DeploymentStage \<Rightarrow> json" where
  "stage_json s = JObj [(''id'', JStr (ds_ID s)), (''name'', JStr (ds_Name s)), (''description'', JStr (ds_Description s)),
     (''status'', JStr (StageStatus_string (ds_Status s))), (''duration'', JStr (ds_Duration s)), (''color'', JStr (ds_Color s))]"

definition eventPayload :: "Deployer \<Rightarrow> string \<Rightarrow> string" where
  "eventPayload d logLine =
     print_json (JObj [(''stages'', JArr (map stage_json (dp_stages d))), (''log'', JStr logLine)])"

definition sse_message :: "string \<Rightarrow> string" where
  "sse_message payload = ''data: '' @ payload @ [CHR 0x0A, CHR 0x0A]"

text \<open>A send to a full channel takes the default branch and is dropped.\<close>

definition try_send :: "string \<Rightarrow> nat \<times> string list \<Rightarrow> nat \<times> string list" where
  "try_send m cq = (case cq of (cap, q) \<Rightarrow> if length q < cap then (cap, q @ [m]) else (cap, q))"

definition RegisterListener :: "nat \<Rightarrow> nat \<times> string list \<Rightarrow> Deployer \<Rightarrow> Deployer" where
  "RegisterListener ch cq d =
     (let cq' = fold (\<lambda>past. try_send (sse_message (eventPayload d past))) (dp_logHistory d) cq
      in d\<lparr>dp_listeners := AList.update ch cq' (dp_listeners d)\<rparr>)"

definition UnregisterListener :: "nat \<Rightarrow> Deployer \<Rightarrow> Deployer" where
  "UnregisterListener ch d = d\<lparr>dp_listeners := AList.delete ch (dp_listeners d)\<rparr>"

definition broadcast :: "string \<Rightarrow> Deployer \<Rightarrow> Deployer" where
  "broadcast logLine d =
     (let d1 = d\<lparr>dp_logHistory := dp_logHistory d @ [logLine]\<rparr>;
          m = sse_message (eventPayload d1 logLine)
      in d1\<lparr>dp_listeners := map (\<lambda>(ch, cq). (ch, try_send m cq)) (dp_listeners d1)\<rparr>)"

text \<open>The symbols in front of some log lines, as their bytes.\<close>

definition cross_mark :: string where "cross_mark = map (char_of :: nat \<Rightarrow> char) [0xE2, 0x9D, 0x8C]"
definition check_mark :: string where "check_mark = map (char_of :: nat \<Rightarrow> char) [0xE2, 0x9C, 0x85]"
definition warn_mark :: string where "warn_mark = map (char_of :: nat \<Rightarrow> char) [0xE2, 0x9A, 0xA0, 0xEF, 0xB8, 0x8F]"

subsection \<open>The operating system\<close>

record command =
  cm_args :: "string list"
  cm_dir :: string
  cm_env :: "string list option"

record 'w os_env =
  os_Getwd :: "string + string"
  os_Environ :: "string list"
  os_Getenv :: "string \<Rightarrow> string"
  os_RemoveAll :: "string \<Rightarrow> 'w \<Rightarrow> string option \<times> 'w"
  os_MkdirAll :: "string \<Rightarrow> 'w \<Rightarrow> string option \<times> 'w"
  os_Chmod :: "string \<Rightarrow> 'w \<Rightarrow> string option \<times> 'w"
  os_Stat :: "string \<Rightarrow> 'w \<Rightarrow> string option"
  os_Run :: "command \<Rightarrow> 'w \<Rightarrow> (string list \<times> string option) \<times> 'w"
  os_Ctx :: "'w \<Rightarrow> string option"
  os_Elapsed :: "'w \<Rightarrow> string"

type_synonym 'w action = "Deployer \<times> 'w \<Rightarrow> string option \<times> Deployer \<times> 'w"

text \<open>Running a command with its output streamed, and one whose output is collected.\<close>

definition streamCmdOutput :: "'w os_env \<Rightarrow> command \<Rightarrow> 'w action" where
  "streamCmdOutput env cmd s =
     (case os_Run env cmd (snd s) of ((chunks, err), w) \<Rightarrow> (err, fold broadcast chunks (fst s), w))"

definition runCmdContext :: "'w os_env \<Rightarrow> command \<Rightarrow> 'w action" where
  "runCmdContext env cmd s =
     (case os_Run env cmd (snd s) of ((chunks, err), w) \<Rightarrow>
        (let out = concat chunks;
             d = (if length out > 0 then broadcast out (fst s) else fst s)
         in (case err of None \<Rightarrow> None | Some e \<Rightarrow> (case os_Ctx env w of Some c \<Rightarrow> Some c | None \<Rightarrow> Some e), d, w)))"

definition set_stage :: "nat \<Rightarrow> (DeploymentStage \<Rightarrow> DeploymentStage) \<Rightarrow> Deployer \<Rightarrow> Deployer" where
  "set_stage idx f d = d\<lparr>dp_stages := (dp_stages d)[idx := f (dp_stages d ! idx)]\<rparr>"

definition executeStage :: "'w os_env \<Rightarrow> nat \<Rightarrow> 'w action \<Rightarrow> 'w action" where
  "executeStage env idx fn s =
     (case s of (d, w) \<Rightarrow>
      (case os_Ctx env w of
         Some e \<Rightarrow> (Some e, d, w)
       | None \<Rightarrow>
           (let name = ds_Name (dp_stages d ! idx);
                d1 = broadcast (''=== Starting Stage: '' @ name @ '' ==='') (set_stage idx (\<lambda>s. s\<lparr>ds_Status := StatusInProgress\<rparr>) d)
            in case fn (d1, w) of (r, d2, w2) \<Rightarrow>
                 (let d3 = set_stage idx (\<lambda>s. s\<lparr>ds_Duration := os_Elapsed env w2\<rparr>) d2
                  in case r of
                       Some e \<Rightarrow>
                         (let e' = (case os_Ctx env w2 of Some c \<Rightarrow> c | None \<Rightarrow> e);
                              d4 = set_stage idx (\<lambda>s. s\<lparr>ds_Status := StatusFailed\<rparr>) d3
                          in (Some (name @ '': '' @ e'), broadcast (cross_mark @ '' Error in '' @ name @ '': '' @ e') d4, w2))
                     | None \<Rightarrow>
                         (let d4 = set_stage idx (\<lambda>s. s\<lparr>ds_Status := StatusCompleted\<rparr>) d3
                          in (None, broadcast (check_mark @ '' Completed Stage: '' @ name @ '' in '' @ os_Elapsed env w2) d4, w2))))))"

subsection \<open>The stages\<close>

definition channels :: "Deployer \<Rightarrow> string list" where
  "channels d =
     (let c1 = do_Channels (dp_opts d);
          c2 = (if length c1 = 0 \<and> do_ChannelID (dp_opts d) \<noteq> '''' then [do_ChannelID (dp_opts d)] else c1)
      in if length c2 = 0 then [DefaultChannelID] else c2)"

definition wrap :: "string \<Rightarrow> 'w action \<Rightarrow> 'w action" where
  "wrap msg a s = (case a s of (Some e, s') \<Rightarrow> (Some (msg @ '': '' @ e), s') | (None, s') \<Rightarrow> (None, s'))"

definition seq_act :: "'w action \<Rightarrow> 'w action \<Rightarrow> 'w action" where
  "seq_act a b s = (case a s of (Some e, s') \<Rightarrow> (Some e, s') | (None, s') \<Rightarrow> b s')"

definition stage_docker :: "'w os_env \<Rightarrow> 'w action" where
  "stage_docker env = wrap ''docker unavailable''
     (runCmdContext env \<lparr>cm_args = [''docker'', ''version''], cm_dir = '''', cm_env = None\<rparr>)"

definition stage_download :: "'w os_env \<Rightarrow> string \<Rightarrow> 'w action" where
  "stage_download env runtimeDir s =
     (let script = filepath_Join [runtimeDir, ''install-fabric.sh''];
          cmd = \<lparr>cm_args = [''curl'', ''-fsSL'', ''--retry'', ''5'', ''--retry-delay'', ''2'',
                   ''https://raw.githubusercontent.com/hyperledger/fabric/main/scripts/install-fabric.sh'', ''-o'', script],
                 cm_dir = '''', cm_env = None\<rparr>
      in case os_Run env cmd (snd s) of
           ((out, Some e), w) \<Rightarrow> (Some (''download Fabric installer: '' @ e @ '': '' @ concat out), fst s, w)
         | ((out, None), w) \<Rightarrow>
             (case os_Chmod env script w of
                (Some e, w') \<Rightarrow> (Some (''make Fabric installer executable: '' @ e), fst s, w')
              | (None, w') \<Rightarrow> (None, fst s, w')))"

definition stage_install :: "'w os_env \<Rightarrow> string \<Rightarrow> string \<Rightarrow> 'w action" where
  "stage_install env runtimeDir fabricDir s =
     seq_act (stage_download env runtimeDir)
      (seq_act
        (\<lambda>s. wrap (''install Fabric '' @ do_FabricVersion (dp_opts (fst s)))
           (streamCmdOutput env \<lparr>cm_args = [''./install-fabric.sh'', ''docker'', ''binary'', ''-f'', do_FabricVersion (dp_opts (fst s))],
              cm_dir = runtimeDir, cm_env = None\<rparr>) s)
        (\<lambda>s. (map_option (\<lambda>e. ''Fabric installation incomplete: test-network/network.sh not found: '' @ e)
                (os_Stat env (filepath_Join [fabricDir, ''test-network'', ''network.sh'']) (snd s)), s))) s"

definition network_cmd :: "string \<Rightarrow> string list \<Rightarrow> string list \<Rightarrow> command" where
  "network_cmd fabricDir envVars args =
     \<lparr>cm_args = ''./network.sh'' # args, cm_dir = filepath_Join [fabricDir, ''test-network''], cm_env = Some envVars\<rparr>"

definition stage_network :: "'w os_env \<Rightarrow> string \<Rightarrow> string list \<Rightarrow> 'w action" where
  "stage_network env fabricDir envVars s =
     seq_act
      (\<lambda>s. case streamCmdOutput env (network_cmd fabricDir envVars [''down'']) s of
             (None, d, w) \<Rightarrow> (None, d, w)
           | (Some e, d, w) \<Rightarrow>
               (case os_Ctx env w of
                  Some c \<Rightarrow> (Some c, d, w)
                | None \<Rightarrow> (None, broadcast (warn_mark @ '' network teardown notice: '' @ e) d, w)))
      (streamCmdOutput env (network_cmd fabricDir envVars [''up'', ''-ca''])) s"

fun for_channels :: "(string \<Rightarrow> 'w action) \<Rightarrow> string list \<Rightarrow> 'w action" where
  "for_channels f [] s = (None, s)"
| "for_channels f (c # cs) s = seq_act (f c) (for_channels f cs) s"

definition stage_channels :: "'w os_env \<Rightarrow> string \<Rightarrow> string list \<Rightarrow> 'w action" where
  "stage_channels env fabricDir envVars s =
     for_channels (\<lambda>c. wrap (''create channel '' @ go_quote c)
       (streamCmdOutput env (network_cmd fabricDir envVars [''createChannel'', ''-c'', c]))) (channels (fst s)) s"

definition tabs :: "nat \<Rightarrow> string" where
  "tabs n = CHR 0x0A # replicate n (CHR 0x09)"

definition sed_line :: "string \<Rightarrow> string \<Rightarrow> string" where
  "sed_line from to = ''sed -i '' @ [CHR 0x27] @ ''s/'' @ from @ ''/'' @ to @ ''/g'' @ [CHR 0x27] @ '' go.mod || true''"

definition fix_script :: "string \<Rightarrow> string" where
  "fix_script targetVer =
     tabs 3 @ ''if [ -f '' @ [CHR 0x22] @ ''go.mod'' @ [CHR 0x22] @ '' ]; then''
     @ tabs 4 @ sed_line ''go 1.25'' targetVer
     @ tabs 4 @ sed_line ''go 1.24'' targetVer
     @ tabs 3 @ ''fi'' @ tabs 2"

definition stage_fix :: "'w os_env \<Rightarrow> string \<Rightarrow> 'w action" where
  "stage_fix env ccDir s =
     (let v = (if do_TargetGoVer (dp_opts (fst s)) = '''' then TargetGoVersion else do_TargetGoVer (dp_opts (fst s)))
      in case os_Run env \<lparr>cm_args = [''sh'', ''-c'', fix_script v], cm_dir = ccDir, cm_env = None\<rparr> (snd s) of
           ((out, Some e), w) \<Rightarrow> (os_Ctx env w, fst s, w)
         | ((out, None), w) \<Rightarrow> (None, fst s, w))"

definition stage_vendor :: "'w os_env \<Rightarrow> string \<Rightarrow> 'w action" where
  "stage_vendor env ccDir s =
     (case os_Run env \<lparr>cm_args = [''sh'', ''-c'', ''go mod tidy && go mod vendor''], cm_dir = ccDir, cm_env = None\<rparr> (snd s) of
        ((out, Some e), w) \<Rightarrow>
          (case os_Ctx env w of
             Some c \<Rightarrow> (Some c, fst s, w)
           | None \<Rightarrow> (Some (''prepare chaincode dependencies: '' @ e @ '': '' @ concat out), fst s, w))
      | ((out, None), w) \<Rightarrow> (None, fst s, w))"

definition stage_chaincode :: "'w os_env \<Rightarrow> string \<Rightarrow> string list \<Rightarrow> 'w action" where
  "stage_chaincode env fabricDir envVars s =
     (let ccDir = filepath_Join [fabricDir, ''asset-transfer-basic'', ''chaincode-go'']
      in seq_act (stage_fix env ccDir) (seq_act (stage_vendor env ccDir)
           (\<lambda>s. for_channels (\<lambda>c. wrap (''deploy chaincode on channel '' @ go_quote c)
              (streamCmdOutput env (network_cmd fabricDir envVars
                 [''deployCC'', ''-c'', c, ''-ccn'', do_ChaincodeName (dp_opts (fst s)), ''-ccp'', DefaultChaincodePath,
                  ''-ccl'', DefaultChaincodeLang]))) (channels (fst s)) s)) s)"

definition prepare_runtime :: "'w os_env \<Rightarrow> string \<Rightarrow> 'w action" where
  "prepare_runtime env runtimeDir =
     seq_act (\<lambda>s. (os_Ctx env (snd s), s))
      (seq_act (\<lambda>s. case os_RemoveAll env runtimeDir (snd s) of
                      (e, w) \<Rightarrow> (map_option (\<lambda>m. ''reset Fabric runtime: '' @ m) e, fst s, w))
               (\<lambda>s. case os_MkdirAll env runtimeDir (snd s) of
                      (e, w) \<Rightarrow> (map_option (\<lambda>m. ''create Fabric runtime: '' @ m) e, fst s, w)))"

definition run_stages :: "'w os_env \<Rightarrow> string \<Rightarrow> string \<Rightarrow> string list \<Rightarrow> 'w action" where
  "run_stages env runtimeDir fabricDir envVars =
     seq_act (executeStage env 0 (stage_docker env))
      (seq_act (executeStage env 1 (stage_install env runtimeDir fabricDir))
      (seq_act (executeStage env 2 (stage_network env fabricDir envVars))
      (seq_act (executeStage env 3 (stage_channels env fabricDir envVars))
        (executeStage env 4 (stage_chaincode env fabricDir envVars)))))"

definition RunDeploymentContext :: "'w os_env \<Rightarrow> 'w action" where
  "RunDeploymentContext env s =
     (case os_Getwd env of
        Inl e \<Rightarrow> (Some (''resolve working directory: '' @ e), s)
      | Inr absPath \<Rightarrow>
          (let runtimeDir = filepath_Join [absPath, FabricRuntimeDir]; fabricDir = filepath_Join [absPath, FabricSamplesDir];
               envVars = os_Environ env @ [''PATH='' @ os_Getenv env ''PATH'' @ '':'' @ filepath_Join [fabricDir, ''bin''],
                           ''FABRIC_CFG_PATH='' @ filepath_Join [fabricDir, ''config'']]
           in seq_act (prepare_runtime env runtimeDir) (run_stages env runtimeDir fabricDir envVars) s))"

definition RunDeployment :: "'w os_env \<Rightarrow> Deployer \<times> 'w \<Rightarrow> Deployer \<times> 'w" where
  "RunDeployment env s =
     (case RunDeploymentContext env s of
        (Some e, d, w) \<Rightarrow> (broadcast (cross_mark @ '' Deployment failed: '' @ e) d, w)
      | (None, d, w) \<Rightarrow> (d, w))"

subsection \<open>Stages and their statuses\<close>

definition statuses :: "Deployer \<Rightarrow> StageStatus list" where
  "statuses d = map ds_Status (dp_stages d)"

text \<open>An action inside a stage writes to the log and to listeners only.\<close>

definition keeps :: "'w action \<Rightarrow> bool" where
  "keeps a \<longleftrightarrow> (\<forall>s. dp_stages (fst (snd (a s))) = dp_stages (fst s))"

lemma keepsD: "keeps a \<Longrightarrow> a (d, w) = (r, d', w') \<Longrightarrow> dp_stages d' = dp_stages d"
  unfolding keeps_def by (metis fst_conv snd_conv)

lemma broadcast_stages [simp]: "dp_stages (broadcast m d) = dp_stages d"
  by (simp add: broadcast_def Let_def)

lemma broadcasts_stages [simp]: "dp_stages (fold broadcast ms d) = dp_stages d"
  by (induction ms arbitrary: d) simp_all

lemma keeps_stream: "keeps (streamCmdOutput env cmd)"
  by (simp add: keeps_def streamCmdOutput_def split: prod.splits)

lemma keeps_run: "keeps (runCmdContext env cmd)"
  by (simp add: keeps_def runCmdContext_def Let_def split: prod.splits)

lemma keeps_wrap: "keeps a \<Longrightarrow> keeps (wrap m a)"
  by (auto simp: keeps_def wrap_def split: prod.splits option.splits) (metis fst_conv snd_conv)+

lemma keeps_seq: "keeps a \<Longrightarrow> keeps b \<Longrightarrow> keeps (seq_act a b)"
  by (auto simp: keeps_def seq_act_def split: prod.splits option.splits) (metis fst_conv snd_conv)+

lemma keeps_for: "(\<And>c. keeps (f c)) \<Longrightarrow> keeps (for_channels f cs)"
proof (induction cs)
  case Nil
  then show ?case by (simp add: keeps_def)
next
  case (Cons c cs)
  then have "keeps (for_channels f cs)" "keeps (f c)" by blast+
  then have "keeps (seq_act (f c) (for_channels f cs))" by (rule keeps_seq [rotated])
  then show ?case by (simp add: keeps_def)
qed

text \<open>The same for actions that look at the state they start from.\<close>

lemma keeps_wrap_dep:
  assumes "\<And>s. keeps (g s)"
  shows "keeps (\<lambda>s. wrap (m s) (g s) s)"
  unfolding keeps_def using keeps_wrap [OF assms] unfolding keeps_def by blast

lemma keeps_for_dep:
  assumes "\<And>s c. keeps (f s c)"
  shows "keeps (\<lambda>s. for_channels (f s) (g s) s)"
proof -
  have "keeps (for_channels (f s) (g s))" for s by (rule keeps_for) (rule assms)
  then show ?thesis by (simp add: keeps_def)
qed

lemma keeps_test: "keeps (\<lambda>s. (g s, s))"
  by (simp add: keeps_def)

lemmas keeps_intros = keeps_seq keeps_wrap keeps_for keeps_stream keeps_run

lemma keeps_docker: "keeps (stage_docker env)"
  unfolding stage_docker_def by (intro keeps_intros)

lemma keeps_download: "keeps (stage_download env r)"
  by (simp add: keeps_def stage_download_def Let_def split: prod.splits option.splits)

lemma keeps_install: "keeps (stage_install env r f)"
proof -
  have eq: "stage_install env r f = seq_act (stage_download env r)
      (seq_act
        (\<lambda>s. wrap (''install Fabric '' @ do_FabricVersion (dp_opts (fst s)))
           (streamCmdOutput env \<lparr>cm_args = [''./install-fabric.sh'', ''docker'', ''binary'', ''-f'', do_FabricVersion (dp_opts (fst s))],
              cm_dir = r, cm_env = None\<rparr>) s)
        (\<lambda>s. (map_option (\<lambda>e. ''Fabric installation incomplete: test-network/network.sh not found: '' @ e)
                (os_Stat env (filepath_Join [f, ''test-network'', ''network.sh'']) (snd s)), s)))"
    by (rule ext) (simp only: stage_install_def)
  show ?thesis
    unfolding eq by (intro keeps_seq keeps_download keeps_wrap_dep keeps_stream keeps_test)
qed

lemma keeps_network: "keeps (stage_network env f ev)"
proof -
  have "keeps (\<lambda>s. case streamCmdOutput env (network_cmd f ev [''down'']) s of
             (None, d, w) \<Rightarrow> (None, d, w)
           | (Some e, d, w) \<Rightarrow>
               (case os_Ctx env w of
                  Some c \<Rightarrow> (Some c, d, w)
                | None \<Rightarrow> (None, broadcast (warn_mark @ '' network teardown notice: '' @ e) d, w)))"
    by (auto simp: keeps_def split: prod.splits option.splits dest: keepsD [OF keeps_stream])
  from keeps_seq [OF this keeps_stream] show ?thesis unfolding keeps_def stage_network_def by blast
qed

lemma keeps_channels: "keeps (stage_channels env f ev)"
proof -
  have eq: "stage_channels env f ev = (\<lambda>s. for_channels (\<lambda>c. wrap (''create channel '' @ go_quote c)
       (streamCmdOutput env (network_cmd f ev [''createChannel'', ''-c'', c]))) (channels (fst s)) s)"
    by (rule ext) (simp only: stage_channels_def)
  show ?thesis unfolding eq by (intro keeps_for_dep keeps_wrap keeps_stream)
qed

lemma keeps_fix: "keeps (stage_fix env c)" and keeps_vendor: "keeps (stage_vendor env c)"
  by (simp_all add: keeps_def stage_fix_def stage_vendor_def Let_def split: prod.splits option.splits)

lemma keeps_chaincode: "keeps (stage_chaincode env f ev)"
proof -
  let ?cc = "filepath_Join [f, ''asset-transfer-basic'', ''chaincode-go'']"
  have eq: "stage_chaincode env f ev = seq_act (stage_fix env ?cc) (seq_act (stage_vendor env ?cc)
           (\<lambda>s. for_channels (\<lambda>c. wrap (''deploy chaincode on channel '' @ go_quote c)
              (streamCmdOutput env (network_cmd f ev
                 [''deployCC'', ''-c'', c, ''-ccn'', do_ChaincodeName (dp_opts (fst s)), ''-ccp'', DefaultChaincodePath,
                  ''-ccl'', DefaultChaincodeLang]))) (channels (fst s)) s))"
    by (rule ext) (simp only: stage_chaincode_def Let_def)
  show ?thesis
    unfolding eq by (intro keeps_seq keeps_fix keeps_vendor keeps_for_dep keeps_wrap keeps_stream)
qed

lemma statuses_set_stage:
  "idx < length (dp_stages d) \<Longrightarrow> statuses (set_stage idx f d) = (statuses d)[idx := ds_Status (f (dp_stages d ! idx))]"
  by (simp add: statuses_def set_stage_def map_update)

lemma executeStage_statuses:
  assumes "keeps fn" and "idx < length (dp_stages d)" and "executeStage env idx fn (d, w) = (r, d', w')"
  shows "length (dp_stages d') = length (dp_stages d)
    \<and> (r = None \<longrightarrow> statuses d' = (statuses d)[idx := StatusCompleted])
    \<and> (\<forall>e. r = Some e \<longrightarrow> statuses d' = statuses d \<or> statuses d' = (statuses d)[idx := StatusFailed])"
proof (cases "os_Ctx env w")
  case (Some e)
  then show ?thesis using assms(3) by (auto simp: executeStage_def)
next
  case None
  let ?d1 = "broadcast (''=== Starting Stage: '' @ ds_Name (dp_stages d ! idx) @ '' ==='')
    (set_stage idx (\<lambda>s. s\<lparr>ds_Status := StatusInProgress\<rparr>) d)"
  obtain r2 d2 w2 where f: "fn (?d1, w) = (r2, d2, w2)" by (metis prod_cases3)
  have "dp_stages d2 = dp_stages ?d1" by (rule keepsD [OF assms(1) f])
  then have s2: "dp_stages d2 = (dp_stages d)[idx := (dp_stages d ! idx)\<lparr>ds_Status := StatusInProgress\<rparr>]"
    by (simp add: set_stage_def)
  have fin: "dp_stages d' = (dp_stages d)[idx := (dp_stages d ! idx)\<lparr>ds_Duration := os_Elapsed env w2,
      ds_Status := (if r2 = None then StatusCompleted else StatusFailed)\<rparr>]"
    and "(r = None) = (r2 = None)"
    using assms(2,3) None f s2
    by (auto simp: executeStage_def Let_def set_stage_def split: option.splits)
  then show ?thesis by (auto simp: statuses_def map_update)
qed

text \<open>
  The statuses after a run that stopped in front of or in stage \<open>k\<close>: the stages before it are
  completed, it is failed or was not started, the later ones are pending.
\<close>

definition fail_fast :: "StageStatus list \<Rightarrow> bool" where
  "fail_fast st \<longleftrightarrow> (\<exists>k < 5. st = replicate k StatusCompleted @ replicate (5 - k) StatusPending
     \<or> st = replicate k StatusCompleted @ [StatusFailed] @ replicate (4 - k) StatusPending)"

definition upto_stage :: "nat \<Rightarrow> StageStatus list" where
  "upto_stage k = replicate k StatusCompleted @ replicate (5 - k) StatusPending"

lemma upto_fail_fast: "k < 5 \<Longrightarrow> fail_fast (upto_stage k)"
  unfolding fail_fast_def upto_stage_def by blast

lemma fail_fast_statuses:
  assumes "fail_fast st"
  shows "st \<noteq> replicate 5 StatusCompleted" and "StatusInProgress \<notin> set st"
proof -
  have "StatusPending \<in> set st \<or> StatusFailed \<in> set st" using assms by (auto simp: fail_fast_def)
  then show "st \<noteq> replicate 5 StatusCompleted" by auto
  show "StatusInProgress \<notin> set st" using assms by (auto simp: fail_fast_def)
qed

lemma upto_stage_step:
  "k < 5 \<Longrightarrow> (upto_stage k)[k := StatusCompleted] = upto_stage (Suc k)"
  "k < 5 \<Longrightarrow> fail_fast ((upto_stage k)[k := StatusFailed])"
proof -
  assume k: "k < 5"
  then have "(5 - k) = Suc (4 - k)" by simp
  then have upd: "(upto_stage k)[k := x] = replicate k StatusCompleted @ [x] @ replicate (4 - k) StatusPending" for x
    by (simp add: upto_stage_def list_update_append)
  show "(upto_stage k)[k := StatusCompleted] = upto_stage (Suc k)"
    unfolding upd by (simp add: upto_stage_def replicate_app_Cons_same)
  show "fail_fast ((upto_stage k)[k := StatusFailed])"
    using k unfolding upd fail_fast_def by blast
qed

text \<open>A stage, then the rest of the deployment.\<close>

definition deploys_from :: "nat \<Rightarrow> 'w action \<Rightarrow> bool" where
  "deploys_from k a \<longleftrightarrow> (\<forall>d w r d' w'. length (dp_stages d) = 5 \<longrightarrow> statuses d = upto_stage k \<longrightarrow> a (d, w) = (r, d', w')
     \<longrightarrow> (r = None \<and> statuses d' = upto_stage 5) \<or> ((\<exists>e. r = Some e) \<and> fail_fast (statuses d')))"

lemma deploys_stage:
  assumes "keeps fn" and "deploys_from k' rest" and "k < 5" and "k' = Suc k"
  shows "deploys_from k (seq_act (executeStage env k fn) rest)"
  unfolding deploys_from_def
proof (intro allI impI)
  fix d w r d' w'
  assume l: "length (dp_stages d) = 5" and st: "statuses d = upto_stage k"
    and run: "seq_act (executeStage env k fn) rest (d, w) = (r, d', w')"
  obtain r1 d1 w1 where e: "executeStage env k fn (d, w) = (r1, d1, w1)" by (metis prod_cases3)
  have S: "length (dp_stages d1) = 5"
    "r1 = None \<Longrightarrow> statuses d1 = upto_stage (Suc k)" "\<And>x. r1 = Some x \<Longrightarrow> fail_fast (statuses d1)"
    using executeStage_statuses [OF assms(1) _ e] l st assms(3) upto_stage_step [OF assms(3)] upto_fail_fast [OF assms(3)]
    by auto
  show "(r = None \<and> statuses d' = upto_stage 5) \<or> ((\<exists>e. r = Some e) \<and> fail_fast (statuses d'))"
  proof (cases r1)
    case (Some x)
    then show ?thesis using run e S(3) by (auto simp: seq_act_def)
  next
    case None
    then have "rest (d1, w1) = (r, d', w')" using run e by (simp add: seq_act_def)
    then show ?thesis using assms(2) S(1) S(2) [OF None] unfolding assms(4) deploys_from_def by blast
  qed
qed

lemma deploys_last:
  assumes "keeps fn"
  shows "deploys_from 4 (executeStage env 4 fn)"
proof -
  have "deploys_from 5 (\<lambda>s. (None, s))" by (simp add: deploys_from_def)
  then have "deploys_from 4 (seq_act (executeStage env 4 fn) (\<lambda>s. (None, s)))"
    by (intro deploys_stage assms) simp_all
  moreover have "seq_act (executeStage env 4 fn) (\<lambda>s. (None, s)) = executeStage env 4 fn"
    by (auto simp: fun_eq_iff seq_act_def split: prod.splits option.splits)
  ultimately show ?thesis by simp
qed

lemma deploys_prepare:
  assumes "keeps a" and "deploys_from 0 rest"
  shows "deploys_from 0 (seq_act a rest)"
  unfolding deploys_from_def
proof (intro allI impI)
  fix d w r d' w'
  assume l: "length (dp_stages d) = 5" and st: "statuses d = upto_stage 0" and run: "seq_act a rest (d, w) = (r, d', w')"
  obtain r1 d1 w1 where e: "a (d, w) = (r1, d1, w1)" by (metis prod_cases3)
  have "dp_stages d1 = dp_stages d" by (rule keepsD [OF assms(1) e])
  then have d1: "length (dp_stages d1) = 5" "statuses d1 = upto_stage 0" using l st by (simp_all add: statuses_def)
  show "(r = None \<and> statuses d' = upto_stage 5) \<or> ((\<exists>e. r = Some e) \<and> fail_fast (statuses d'))"
  proof (cases r1)
    case (Some x)
    then show ?thesis using run e d1 upto_fail_fast [of 0] by (auto simp: seq_act_def)
  next
    case None
    then have "rest (d1, w1) = (r, d', w')" using run e by (simp add: seq_act_def)
    then show ?thesis using assms(2) d1 unfolding deploys_from_def by blast
  qed
qed

lemma keeps_prepare: "keeps (prepare_runtime env r)"
  unfolding prepare_runtime_def by (intro keeps_seq) (auto simp: keeps_def split: prod.splits)

lemma deploys_stages: "deploys_from 0 (run_stages env r f ev)"
  unfolding run_stages_def
  by (rule deploys_stage [OF keeps_docker deploys_stage [OF keeps_install deploys_stage [OF keeps_network
        deploys_stage [OF keeps_channels deploys_last [OF keeps_chaincode]]]]]) simp_all

subsection \<open>Properties\<close>

text \<open>
  C33 A deployment runs its five stages in order and stops at the first that fails: whatever the operating
  system and the context do, a run of a new deployer reports success exactly when all stages are
  completed; otherwise the stages before one of them are completed, that one is failed or was never
  started, the later ones are still pending, and no stage is left in progress.
\<close>

theorem deployment_fails_fast:
  assumes "RunDeploymentContext env (NewDeployer opts, w) = (r, d', w')"
  shows "(r = None \<longleftrightarrow> statuses d' = replicate 5 StatusCompleted)
    \<and> (r \<noteq> None \<longrightarrow> fail_fast (statuses d')) \<and> StatusInProgress \<notin> set (statuses d')"
proof -
  have new: "length (dp_stages (NewDeployer opts)) = 5" "statuses (NewDeployer opts) = upto_stage 0"
    by (simp_all add: NewDeployer_def stage_of_def statuses_def upto_stage_def numeral_eq_Suc)
  have "(r = None \<and> statuses d' = upto_stage 5) \<or> ((\<exists>e. r = Some e) \<and> fail_fast (statuses d'))"
  proof (cases "os_Getwd env")
    case (Inl e)
    then show ?thesis using assms new upto_fail_fast [of 0] by (auto simp: RunDeploymentContext_def)
  next
    case (Inr absPath)
    then obtain rt f ev where "seq_act (prepare_runtime env rt) (run_stages env rt f ev) (NewDeployer opts, w) = (r, d', w')"
      using assms by (auto simp: RunDeploymentContext_def Let_def)
    moreover have "deploys_from 0 (seq_act (prepare_runtime env rt) (run_stages env rt f ev))"
      by (intro deploys_prepare keeps_prepare deploys_stages)
    ultimately show ?thesis using new unfolding deploys_from_def by blast
  qed
  then show ?thesis
    by (auto simp: upto_stage_def dest: fail_fast_statuses)
qed

theorem deployment_fails_fast_witness:
  "\<exists>r d' w'. RunDeploymentContext
      \<lparr>os_Getwd = Inr ''/x'', os_Environ = [], os_Getenv = (\<lambda>v. ''''), os_RemoveAll = (\<lambda>p w. (None, w)),
       os_MkdirAll = (\<lambda>p w. (None, w)), os_Chmod = (\<lambda>p w. (None, w)), os_Stat = (\<lambda>p w. Some ''missing''),
       os_Run = (\<lambda>c w. (([''out''], None), w)), os_Ctx = (\<lambda>w. None), os_Elapsed = (\<lambda>w. ''1s'')\<rparr>
      (NewDeployer DefaultOptions, ()) = (r, d', w')
    \<and> StatusInProgress \<notin> set (statuses d')"
proof -
  let ?env = "\<lparr>os_Getwd = Inr ''/x'', os_Environ = [], os_Getenv = (\<lambda>v. ''''), os_RemoveAll = (\<lambda>p w. (None, w)),
       os_MkdirAll = (\<lambda>p w. (None, w)), os_Chmod = (\<lambda>p w. (None, w)), os_Stat = (\<lambda>p w. Some ''missing''),
       os_Run = (\<lambda>c w. (([''out''], None), w)), os_Ctx = (\<lambda>w. None), os_Elapsed = (\<lambda>w. ''1s'')\<rparr>"
  obtain r d' w' where x: "RunDeploymentContext ?env (NewDeployer DefaultOptions, ()) = (r, d', w')" by (metis prod_cases3)
  from deployment_fails_fast [OF x] x show ?thesis by blast
qed

end
