(* ===== verification/HLF_Network.thy ===== *)
theory HLF_Network
  imports Go_Http "HOL-Library.Sublist"
begin

text \<open>
  The view of a Fabric network of \<^verbatim>\<open>pkg/hlf/network.go\<close>: copies of its peers, channels and
  recent ledger transactions, and the throughput over the last ten seconds. Times are in
  nanoseconds; rates are exact rational numbers.
\<close>

record NetPeer =
  np_Name :: string
  np_Org :: string
  np_Role :: string
  np_Status :: string
  np_MSPID :: string
  np_Blocks :: i64
  np_Latency :: string
  np_Address :: string

record ChannelInfo =
  ci_Name :: string
  ci_CommittedChaincode :: string
  ci_JoinedPeers :: "string list"
  ci_TxCount :: i64

record TxRecord =
  tr_TxID :: string
  tr_Channel :: string
  tr_Chaincode :: string
  tr_Function :: string
  tr_Args :: string
  tr_Endorsers :: "string list"
  tr_BlockNumber :: u64
  tr_TxValidationCode :: string
  tr_Payload :: bytes
  tr_Timestamp :: time
  tr_Latency :: duration

record Network =
  nw_peers :: "NetPeer list"
  nw_channels :: "ChannelInfo list"
  nw_txHistory :: "TxRecord list"
  nw_peakTPS :: rat

definition NewNetwork :: Network where
  "NewNetwork = \<lparr>nw_peers = [], nw_channels = [], nw_txHistory = [], nw_peakTPS = 0\<rparr>"

definition GetPeers :: "Network \<Rightarrow> NetPeer list" where
  "GetPeers n = nw_peers n"

definition GetChannels :: "Network \<Rightarrow> ChannelInfo list" where
  "GetChannels n = nw_channels n"

definition GetRecentLedgerTransactions :: "Network \<Rightarrow> TxRecord list" where
  "GetRecentLedgerTransactions n =
     (let start = (if length (nw_txHistory n) > 50 then length (nw_txHistory n) - 50 else 0)
      in drop start (nw_txHistory n))"

text \<open>The loop from the newest transaction back to the first that is older than the window.\<close>

fun window_count :: "time \<Rightarrow> duration \<Rightarrow> TxRecord list \<Rightarrow> nat" where
  "window_count now window [] = 0"
| "window_count now window (t # ts) =
     (if now - tr_Timestamp t \<le> window then Suc (window_count now window ts) else 0)"

definition GetTPSMetrics :: "time \<Rightarrow> Network \<Rightarrow> (rat \<times> rat \<times> int) \<times> Network" where
  "GetTPSMetrics now n =
     (let totalTx = int (length (nw_txHistory n))
      in if totalTx = 0 then ((0, nw_peakTPS n, 0), n)
         else let currentTPS = of_nat (window_count now (10 * Second) (rev (nw_txHistory n))) / 10;
                  n' = (if currentTPS > nw_peakTPS n then n\<lparr>nw_peakTPS := currentTPS\<rparr> else n)
              in ((currentTPS, nw_peakTPS n', totalTx), n'))"

lemma window_count_sorted:
  assumes "sorted_wrt (\<lambda>a b. tr_Timestamp b \<le> tr_Timestamp a) ts"
  shows "window_count now w ts = length (filter (\<lambda>t. now - tr_Timestamp t \<le> w) ts)"
  using assms
proof (induction ts)
  case (Cons t ts)
  show ?case
  proof (cases "now - tr_Timestamp t \<le> w")
    case False
    then have "\<forall>x \<in> set ts. \<not> now - tr_Timestamp x \<le> w" using Cons.prems by force
    then have "filter (\<lambda>t. now - tr_Timestamp t \<le> w) ts = []" by (simp add: filter_empty_conv)
    then show ?thesis using False by simp
  qed (use Cons in simp)
qed simp

text \<open>
  The reported throughput is that of the last ten seconds: when the history is in order of time, the
  current rate is one tenth of the number of transactions not older than ten seconds, the peak is
  the larger of the old peak and the current rate and never falls, and at most the fifty newest
  records of the history are returned as recent.
\<close>

theorem network_tps_window:
  assumes "sorted_wrt (\<lambda>a b. tr_Timestamp a \<le> tr_Timestamp b) (nw_txHistory n)"
    and "nw_txHistory n \<noteq> []" and "GetTPSMetrics now n = ((cur, peak, tot), n')"
  shows "cur = of_nat (length (filter (\<lambda>t. now - tr_Timestamp t \<le> 10 * Second) (nw_txHistory n))) / 10
    \<and> peak = max (nw_peakTPS n) cur \<and> nw_peakTPS n' = peak \<and> tot = int (length (nw_txHistory n))
    \<and> nw_txHistory n' = nw_txHistory n
    \<and> length (GetRecentLedgerTransactions n) = min 50 (length (nw_txHistory n))
    \<and> suffix (GetRecentLedgerTransactions n) (nw_txHistory n)"
proof -
  have "sorted_wrt (\<lambda>a b. tr_Timestamp b \<le> tr_Timestamp a) (rev (nw_txHistory n))"
    using assms(1) by (simp add: sorted_wrt_rev)
  note W = window_count_sorted [OF this, of now "10 * Second"]
  have "length (filter P (rev xs)) = length (filter P xs)" for P and xs :: "TxRecord list"
    by (simp add: rev_filter [symmetric])
  then have "window_count now (10 * Second) (rev (nw_txHistory n))
      = length (filter (\<lambda>t. now - tr_Timestamp t \<le> 10 * Second) (nw_txHistory n))" using W by simp
  then show ?thesis
    using assms(2,3)
    by (auto simp: GetTPSMetrics_def Let_def GetRecentLedgerTransactions_def suffix_drop split: if_splits)
qed

theorem network_tps_window_witness:
  "\<exists>cur peak tot n'. GetTPSMetrics (11 * Second)
      (NewNetwork\<lparr>nw_txHistory := map (\<lambda>i. \<lparr>tr_TxID = show_nat i, tr_Channel = '''', tr_Chaincode = '''', tr_Function = '''',
         tr_Args = '''', tr_Endorsers = [], tr_BlockNumber = 0, tr_TxValidationCode = '''', tr_Payload = [],
         tr_Timestamp = int i * Second, tr_Latency = 0\<rparr>) [0, 1, 5]\<rparr>) = ((cur, peak, tot), n')
    \<and> cur = 2 / 10 \<and> tot = 3"
proof -
  let ?n = "NewNetwork\<lparr>nw_txHistory := map (\<lambda>i. \<lparr>tr_TxID = show_nat i, tr_Channel = '''', tr_Chaincode = '''', tr_Function = '''',
         tr_Args = '''', tr_Endorsers = [], tr_BlockNumber = 0, tr_TxValidationCode = '''', tr_Payload = [],
         tr_Timestamp = int i * Second, tr_Latency = 0\<rparr>) [0, 1, 5]\<rparr>"
  have "\<exists>a b t m. X = ((a, b, t), m)" for X :: "(rat \<times> rat \<times> int) \<times> Network" by (metis surj_pair)
  then obtain cur peak tot n' where r: "GetTPSMetrics (11 * Second) ?n = ((cur, peak, tot), n')" by blast
  have s: "sorted_wrt (\<lambda>a b. tr_Timestamp a \<le> tr_Timestamp b) (nw_txHistory ?n)" "nw_txHistory ?n \<noteq> []"
    by (simp_all add: NewNetwork_def Second_def)
  from network_tps_window [OF s r]
  have "cur = 2 / 10 \<and> tot = 3" by (simp add: NewNetwork_def Second_def)
  then show ?thesis using r by blast
qed

end
