(* ===== verification/HLF_Server.thy ===== *)
theory HLF_Server
  imports HLF_Deployer HLF_Network
begin

text \<open>
  The Fabric page's server of \<^verbatim>\<open>pkg/dashboard/hlf_server.go\<close>: what was installed and deployed,
  the five phases, two bounded logs, and the handlers. Clock readings are arguments. The simulated
  lifecycle is the sequence of its calls; the deployment it starts in a goroutine of its own is
  that of the deployer and does not touch the server's state.
\<close>

record PeerInfo =
  pi_Name :: string
  pi_Org :: string
  pi_MSP :: string
  pi_Endpoint :: string
  pi_Status :: string

record PhaseStatus =
  ph_ID :: string
  ph_Name :: string
  ph_Description :: string
  ph_Status :: string

record LogEntry =
  lg_timestamp :: string
  lg_node :: string
  lg_message :: string

record HLFServer =
  hs_network :: Network
  hs_peerCount :: int
  hs_orgCount :: int
  hs_channelName :: string
  hs_channels :: "string list"
  hs_contractVersion :: string
  hs_lastInstalledAt :: string
  hs_installed :: bool
  hs_phases :: "PhaseStatus list"
  hs_logs :: "LogEntry list"
  hs_txLogs :: "LogEntry list"
  hs_deployer :: Deployer

definition phase :: "string \<Rightarrow> string \<Rightarrow> string \<Rightarrow> PhaseStatus" where
  "phase i n d = \<lparr>ph_ID = i, ph_Name = n, ph_Description = d, ph_Status = ''PENDING''\<rparr>"

definition resetPhases :: "HLFServer \<Rightarrow> HLFServer" where
  "resetPhases s = s\<lparr>hs_phases :=
     [phase ''P1'' ''1. Binaries & Docker Images'' ''Downloading fabric-samples & hyperledger binaries'',
      phase ''P2'' ''2. Crypto Material Generation'' ''Generating MSP certificates via cryptogen'',
      phase ''P3'' ''3. Genesis Block & Channels'' ''Configuring Raft orderer & channel artifacts'',
      phase ''P4'' ''4. Peer Container Launch'' ''Starting peer and orderer Docker containers'',
      phase ''P5'' ''5. Smart Contract Deployment'' ''Packaging, installing & committing chaincode'']\<rparr>"

definition NewHLFServer :: "Network \<Rightarrow> HLFServer" where
  "NewHLFServer net = resetPhases
     \<lparr>hs_network = net, hs_peerCount = 4, hs_orgCount = 2, hs_channelName = DefaultChannelID,
      hs_channels = [DefaultChannelID], hs_contractVersion = ''hed-cc v1.0'', hs_lastInstalledAt = '''', hs_installed = False,
      hs_phases = [], hs_logs = [], hs_txLogs = [], hs_deployer = NewDeployer DefaultOptions\<rparr>"

text \<open>The conversion \<^verbatim>\<open>string(rune(n))\<close>: \<open>n\<close> as an \<^verbatim>\<open>int32\<close>, encoded in UTF-8.\<close>

definition rune_string :: "int \<Rightarrow> string" where
  "rune_string n =
     (let r = (n + 2147483648) mod 4294967296 - 2147483648
      in if r < 0 then rune_error else utf8_encode (nat r))"

subsection \<open>Logs\<close>

definition push_log :: "LogEntry \<Rightarrow> LogEntry list \<Rightarrow> LogEntry list" where
  "push_log e ls = (let l = e # ls in if length l > 50 then take 50 l else l)"

definition hs_addLog :: "string \<Rightarrow> string \<Rightarrow> string \<Rightarrow> HLFServer \<Rightarrow> HLFServer" where
  "hs_addLog now node msg s =
     s\<lparr>hs_logs := push_log \<lparr>lg_timestamp = now, lg_node = node, lg_message = msg\<rparr> (hs_logs s)\<rparr>"

definition hs_addTxLog :: "string \<Rightarrow> string \<Rightarrow> string \<Rightarrow> HLFServer \<Rightarrow> HLFServer" where
  "hs_addTxLog now node msg s =
     s\<lparr>hs_txLogs := push_log \<lparr>lg_timestamp = now, lg_node = node, lg_message = msg\<rparr> (hs_txLogs s)\<rparr>"

subsection \<open>Installation and deployment\<close>

definition channel_parts :: "string \<Rightarrow> string list" where
  "channel_parts chans = filter (\<lambda>p. p \<noteq> '''') (map TrimSpace (split_on (CHR '','') chans))"

definition set_channels :: "string \<Rightarrow> string \<Rightarrow> HLFServer \<Rightarrow> HLFServer" where
  "set_channels channelName chans s =
     (if chans \<noteq> ''''
      then (let parts = channel_parts chans
            in if length parts > 0
               then (let s1 = s\<lparr>hs_channels := parts\<rparr>
                     in if hs_channelName s1 = '''' \<or> hs_channelName s1 = DefaultChannelID
                        then s1\<lparr>hs_channelName := hd parts\<rparr> else s1)
               else s)
      else if length (hs_channels s) = 0 \<and> channelName \<noteq> '''' then s\<lparr>hs_channels := [channelName]\<rparr>
      else s)"

definition complete :: "PhaseStatus \<Rightarrow> PhaseStatus" where
  "complete p = p\<lparr>ph_Status := ''COMPLETED''\<rparr>"

definition on_channels :: "HLFServer \<Rightarrow> string" where
  "on_channels s =
     (if length (hs_channels s) > 0 then '' channels '' @ [CHR 0x27] @ strings_Join '', '' (hs_channels s) @ [CHR 0x27]
      else '' channel '' @ [CHR 0x27] @ hs_channelName s @ [CHR 0x27])"

definition applyInstall :: "string \<Rightarrow> string \<Rightarrow> int \<Rightarrow> int \<Rightarrow> string \<Rightarrow> string \<Rightarrow> HLFServer \<Rightarrow> HLFServer" where
  "applyInstall stamp now peerCount orgCount channelName chans s =
     (let s1 = (if peerCount > 0 then s\<lparr>hs_peerCount := peerCount\<rparr> else s);
          s2 = (if orgCount > 0 then s1\<lparr>hs_orgCount := orgCount\<rparr> else s1);
          s3 = (if channelName \<noteq> '''' then s2\<lparr>hs_channelName := channelName\<rparr> else s2);
          s4 = (set_channels channelName chans s3)\<lparr>hs_installed := True, hs_lastInstalledAt := stamp\<rparr>;
          s5 = s4\<lparr>hs_phases := map complete (take 4 (hs_phases s4)) @ drop 4 (hs_phases s4)\<rparr>
      in hs_addLog now ''DOCKER'' (''Network test-network initialized on'' @ on_channels s5)
          (hs_addLog now ''SYSTEM''
            (''Provisioning HLF cluster with '' @ rune_string (48 + hs_peerCount s5) @ '' peers across ''
             @ rune_string (48 + hs_orgCount s5) @ '' orgs'') s5))"

definition applyDeploy :: "string \<Rightarrow> HLFServer \<Rightarrow> HLFServer" where
  "applyDeploy now s =
     (let s1 = (if length (hs_phases s) \<ge> 5 then s\<lparr>hs_phases := (hs_phases s)[4 := complete (hs_phases s ! 4)]\<rparr> else s);
          s2 = s1\<lparr>hs_contractVersion := ''hed-cc v1.1 (Deployed)'', hs_installed := True\<rparr>
      in hs_addLog now ''CHAINCODE'' (''Package hed-cc.tar.gz installed and committed to'' @ on_channels s2) s2)"

definition BeginLifecycleSimulation :: "string \<Rightarrow> string \<Rightarrow> HLFServer \<Rightarrow> HLFServer" where
  "BeginLifecycleSimulation stamp now s =
     (let s1 = hs_addLog now ''SYSTEM'' ''Starting Fabric deployment pipeline'' s;
          s2 = applyInstall stamp now 4 2 (hs_channelName s1) (strings_Join '','' (hs_channels s1)) s1;
          s3 = hs_addLog now ''SYSTEM'' (''Launching Fabric deployer for channel '' @ hs_channelName s2) s2
      in applyDeploy now s3)"

definition IsInstalled :: "HLFServer \<Rightarrow> bool" where
  "IsInstalled s = hs_installed s"

definition IsDeployed :: "HLFServer \<Rightarrow> bool" where
  "IsDeployed s = (hs_installed s \<and> hs_contractVersion s \<noteq> ''hed-cc v1.0'')"

subsection \<open>Handlers\<close>

text \<open>The remainder by \<open>orgCount\<close> panics when it is zero.\<close>

definition peer_of :: "int \<Rightarrow> int \<Rightarrow> PeerInfo" where
  "peer_of orgCount i =
     (let orgID = (i - 1) mod orgCount + 1; org = rune_string (48 + orgID)
      in \<lparr>pi_Name = ''peer0.org'' @ org @ ''.example.com'', pi_Org = ''Org'' @ org, pi_MSP = ''Org'' @ org @ ''MSP'',
          pi_Endpoint = ''grpc://localhost:'' @ rune_string (55 + i - 1) @ ''051'', pi_Status = ''CONNECTED''\<rparr>)"

definition telemetry_peers :: "HLFServer \<Rightarrow> PeerInfo list option" where
  "telemetry_peers s =
     (if \<not> hs_installed s then Some []
      else if hs_orgCount s = 0 \<and> hs_peerCount s \<ge> 1 then None
      else Some (map (peer_of (hs_orgCount s)) [1..hs_peerCount s]))"

definition telemetry_channels :: "HLFServer \<Rightarrow> string list" where
  "telemetry_channels s =
     (if hs_installed s
      then (if length (hs_channels s) > 0 then hs_channels s
            else if hs_channelName s \<noteq> '''' then [hs_channelName s] else [])
      else [])"

definition peer_json :: "PeerInfo \<Rightarrow> json" where
  "peer_json p = JObj [(''name'', JStr (pi_Name p)), (''org'', JStr (pi_Org p)), (''msp'', JStr (pi_MSP p)),
     (''endpoint'', JStr (pi_Endpoint p)), (''status'', JStr (pi_Status p))]"

definition phase_json :: "PhaseStatus \<Rightarrow> json" where
  "phase_json p = JObj [(''id'', JStr (ph_ID p)), (''name'', JStr (ph_Name p)), (''description'', JStr (ph_Description p)),
     (''status'', JStr (ph_Status p))]"

definition handleTelemetry :: "HLFServer \<Rightarrow> Response option" where
  "handleTelemetry s =
     map_option (\<lambda>peers. json_reply StatusOK (JObj
       [(''channel_name'', JStr (hs_channelName s)), (''channels'', JArr (map JStr (telemetry_channels s))),
        (''contract_version'', JStr (hs_contractVersion s)), (''installed'', JBool (hs_installed s)),
        (''last_installed_at'', JStr (hs_lastInstalledAt s)), (''org_count'', json_int (hs_orgCount s)),
        (''peer_count'', json_int (hs_peerCount s)), (''peers'', JArr (map peer_json peers)),
        (''phases'', JArr (map phase_json (hs_phases s)))])) (telemetry_peers s)"

text \<open>A request is its method and the decoded body: the error, or counts, channel name and channels.\<close>

definition ok_reply :: Response where
  "ok_reply = plain_reply StatusOK (JObj [(''status'', JStr ''ok'')])"

definition handleInstall ::
  "string \<Rightarrow> string \<Rightarrow> string \<Rightarrow> string + int \<times> int \<times> string \<times> string \<Rightarrow> HLFServer \<Rightarrow> Response \<times> HLFServer" where
  "handleInstall stamp now httpMethod body s =
     (if httpMethod \<noteq> ''POST'' then (http_Error ''Method not allowed'' StatusMethodNotAllowed, s)
      else case body of
             Inl e \<Rightarrow> (\<lparr>rs_Status = StatusBadRequest, rs_Type = '''', rs_Body = ''''\<rparr>, s)
           | Inr (peerCount, orgCount, channelName, chans) \<Rightarrow>
               (ok_reply, applyInstall stamp now peerCount orgCount channelName chans s))"

definition handleDeploy :: "string \<Rightarrow> HLFServer \<Rightarrow> Response \<times> HLFServer" where
  "handleDeploy now s = (ok_reply, applyDeploy now s)"

definition log_json :: "LogEntry \<Rightarrow> json" where
  "log_json e = JObj [(''message'', JStr (lg_message e)), (''node'', JStr (lg_node e)), (''timestamp'', JStr (lg_timestamp e))]"

definition logs_json :: "LogEntry list \<Rightarrow> json" where
  "logs_json ls = (case ls of [] \<Rightarrow> JNull | _ \<Rightarrow> JArr (map log_json ls))"

definition hs_handleLogs :: "HLFServer \<Rightarrow> Response" where
  "hs_handleLogs s = json_reply StatusOK (JObj [(''logs'', logs_json (hs_logs s)), (''txLogs'', logs_json (hs_txLogs s))])"

subsection \<open>Invariant\<close>

datatype hs_op =
    OpInstall string string string "string + int \<times> int \<times> string \<times> string"
  | OpDeploy string
  | OpLifecycle string string
  | OpTxLog string string string

fun hs_step :: "hs_op \<Rightarrow> HLFServer \<Rightarrow> HLFServer" where
  "hs_step (OpInstall stamp now meth body) s = snd (handleInstall stamp now meth body s)"
| "hs_step (OpDeploy now) s = snd (handleDeploy now s)"
| "hs_step (OpLifecycle stamp now) s = BeginLifecycleSimulation stamp now s"
| "hs_step (OpTxLog now node msg) s = hs_addTxLog now node msg s"

definition hs_run :: "Network \<Rightarrow> hs_op list \<Rightarrow> HLFServer" where
  "hs_run net ops = fold hs_step ops (NewHLFServer net)"

definition phase_done :: "HLFServer \<Rightarrow> nat \<Rightarrow> bool" where
  "phase_done s i \<longleftrightarrow> ph_Status (hs_phases s ! i) = ''COMPLETED''"

definition hs_inv :: "HLFServer \<Rightarrow> bool" where
  "hs_inv s \<longleftrightarrow> 1 \<le> hs_orgCount s \<and> 1 \<le> hs_peerCount s \<and> hs_channels s \<noteq> [] \<and> length (hs_phases s) = 5
     \<and> length (hs_logs s) \<le> 50 \<and> length (hs_txLogs s) \<le> 50
     \<and> phase_done s 1 = phase_done s 0 \<and> phase_done s 2 = phase_done s 0 \<and> phase_done s 3 = phase_done s 0
     \<and> phase_done s 4 = (hs_contractVersion s \<noteq> ''hed-cc v1.0'') \<and> hs_installed s = (phase_done s 0 \<or> phase_done s 4)"

lemma push_log_bound: "length (push_log e ls) \<le> 50"
  by (auto simp: push_log_def Let_def)

lemma addLog_inv [inv_intros]: "hs_inv s \<Longrightarrow> hs_inv (hs_addLog now node msg s)"
  by (simp add: hs_inv_def hs_addLog_def phase_done_def push_log_bound)

lemma addTxLog_inv [inv_intros]: "hs_inv s \<Longrightarrow> hs_inv (hs_addTxLog now node msg s)"
  by (simp add: hs_inv_def hs_addTxLog_def phase_done_def push_log_bound)

lemma set_channels_frame:
  "hs_phases (set_channels n cs s) = hs_phases s" "hs_orgCount (set_channels n cs s) = hs_orgCount s"
  "hs_peerCount (set_channels n cs s) = hs_peerCount s" "hs_logs (set_channels n cs s) = hs_logs s"
  "hs_txLogs (set_channels n cs s) = hs_txLogs s" "hs_contractVersion (set_channels n cs s) = hs_contractVersion s"
  "hs_channels s \<noteq> [] \<Longrightarrow> hs_channels (set_channels n cs s) \<noteq> []"
  by (simp_all add: set_channels_def Let_def)

lemma five: "length xs = 5 \<Longrightarrow> \<exists>a b c d e. xs = [a, b, c, d, e]"
  by (auto simp: eval_nat_numeral length_Suc_conv)

text \<open>The installation without its log entries.\<close>

definition install_core :: "string \<Rightarrow> int \<Rightarrow> int \<Rightarrow> string \<Rightarrow> string \<Rightarrow> HLFServer \<Rightarrow> HLFServer" where
  "install_core stamp p m n cs s =
     (let s1 = (if p > 0 then s\<lparr>hs_peerCount := p\<rparr> else s);
          s2 = (if m > 0 then s1\<lparr>hs_orgCount := m\<rparr> else s1);
          s3 = (if n \<noteq> '''' then s2\<lparr>hs_channelName := n\<rparr> else s2);
          s4 = (set_channels n cs s3)\<lparr>hs_installed := True, hs_lastInstalledAt := stamp\<rparr>
      in s4\<lparr>hs_phases := map complete (take 4 (hs_phases s4)) @ drop 4 (hs_phases s4)\<rparr>)"

lemma install_core_inv:
  assumes "hs_inv s"
  shows "hs_inv (install_core stamp p m n cs s)"
proof -
  obtain a b c d e where ph: "hs_phases s = [a, b, c, d, e]" using assms five unfolding hs_inv_def by blast
  define s3 where "s3 = (let s1 = (if p > 0 then s\<lparr>hs_peerCount := p\<rparr> else s);
      s2 = (if m > 0 then s1\<lparr>hs_orgCount := m\<rparr> else s1) in if n \<noteq> '''' then s2\<lparr>hs_channelName := n\<rparr> else s2)"
  have s3: "hs_phases s3 = [a, b, c, d, e]" "1 \<le> hs_orgCount s3" "1 \<le> hs_peerCount s3" "hs_channels s3 \<noteq> []"
    "length (hs_logs s3) \<le> 50" "length (hs_txLogs s3) \<le> 50" "hs_contractVersion s3 = hs_contractVersion s"
    using assms ph by (auto simp: s3_def Let_def hs_inv_def)
  have "ph_Status e = ''COMPLETED'' \<longleftrightarrow> hs_contractVersion s \<noteq> ''hed-cc v1.0''"
    using assms ph by (simp add: hs_inv_def phase_done_def)
  then have "hs_inv ((set_channels n cs s3)\<lparr>hs_installed := True, hs_lastInstalledAt := stamp,
      hs_phases := map complete [a, b, c, d] @ [e]\<rparr>)"
    using s3 set_channels_frame [where n = n and cs = cs and s = s3] by (simp add: hs_inv_def phase_done_def complete_def)
  moreover have "install_core stamp p m n cs s = (set_channels n cs s3)\<lparr>hs_installed := True, hs_lastInstalledAt := stamp,
      hs_phases := map complete [a, b, c, d] @ [e]\<rparr>"
    using s3(1) by (simp add: install_core_def s3_def Let_def set_channels_frame)
  ultimately show ?thesis by simp
qed

lemma applyInstall_inv [inv_intros]: "hs_inv s \<Longrightarrow> hs_inv (applyInstall stamp now p m n cs s)"
  unfolding applyInstall_def Let_def
  by (intro addLog_inv install_core_inv [unfolded install_core_def Let_def])

lemma applyDeploy_inv [inv_intros]:
  assumes "hs_inv s"
  shows "hs_inv (applyDeploy now s)"
proof -
  obtain a b c d e where ph: "hs_phases s = [a, b, c, d, e]" using assms five unfolding hs_inv_def by blast
  have "hs_inv (s\<lparr>hs_phases := [a, b, c, d, complete e], hs_contractVersion := ''hed-cc v1.1 (Deployed)'', hs_installed := True\<rparr>)"
    using assms ph by (simp add: hs_inv_def phase_done_def complete_def)
  from addLog_inv [OF this] ph show ?thesis by (simp add: applyDeploy_def Let_def)
qed

lemma hs_step_inv: "hs_inv s \<Longrightarrow> hs_inv (hs_step x s)"
  by (cases x) (auto simp: handleInstall_def handleDeploy_def BeginLifecycleSimulation_def Let_def
      intro!: inv_intros split: sum.splits)

lemma NewHLFServer_inv: "hs_inv (NewHLFServer net)"
  by (simp add: NewHLFServer_def resetPhases_def hs_inv_def phase_done_def phase_def)

lemma hs_run_inv: "hs_inv s \<Longrightarrow> hs_inv (fold hs_step ops s)"
  by (induction ops arbitrary: s) (simp_all add: hs_step_inv)

text \<open>
  The Fabric page shows a consistent state: after any sequence of install, deploy and lifecycle requests
  and log entries from a new server, the telemetry handler answers (it never divides by zero), a
  contract is reported as deployed exactly when the fifth phase is completed, the network as
  installed exactly when the first four phases or the fifth are completed, the first four phases
  always agree, and both logs keep at most fifty entries.
\<close>

theorem hlf_server_consistent:
  "handleTelemetry (hs_run net ops) \<noteq> None
    \<and> (IsDeployed (hs_run net ops) \<longleftrightarrow> phase_done (hs_run net ops) 4)
    \<and> (IsInstalled (hs_run net ops) \<longleftrightarrow> phase_done (hs_run net ops) 0 \<or> phase_done (hs_run net ops) 4)
    \<and> phase_done (hs_run net ops) 1 = phase_done (hs_run net ops) 0 \<and> phase_done (hs_run net ops) 2 = phase_done (hs_run net ops) 0
    \<and> phase_done (hs_run net ops) 3 = phase_done (hs_run net ops) 0
    \<and> length (hs_logs (hs_run net ops)) \<le> 50 \<and> length (hs_txLogs (hs_run net ops)) \<le> 50"
proof -
  have "hs_inv (hs_run net ops)" unfolding hs_run_def by (rule hs_run_inv [OF NewHLFServer_inv])
  then show ?thesis
    by (auto simp: hs_inv_def handleTelemetry_def telemetry_peers_def IsDeployed_def IsInstalled_def)
qed

end
