(* ===== verification/TPS_Report.thy ===== *)
theory TPS_Report
  imports Go_Http
begin

text \<open>
  The performance report of \<^verbatim>\<open>pkg/engine/report.go\<close>: the sequence of drawing commands it
  sends to the PDF library, in order. Laying out and writing the document is the library's work;
  the outcome of \<^verbatim>\<open>Output\<close> is an argument. The drawing commands are shared with the report
  handler of the dashboard.
\<close>

datatype pdf_op =
    AddPage
  | SetFont string string int
  | Cell int int string
  | CellFormat int int string string int string bool
  | Ln int
  | SetFillColor int int int
  | SetTextColor int int int

record SummaryReport =
  sr_EngineName :: string
  sr_TotalCommitted :: u64
  sr_TotalFailed :: u64
  sr_DurationSec :: rat
  sr_AverageTPS :: rat
  sr_AvgLatencyUs :: i64

definition report_title :: "string \<Rightarrow> string \<Rightarrow> pdf_op list" where
  "report_title title now =
     [AddPage, SetFont ''Arial'' ''B'' 20, Cell 190 10 title, Ln 12,
      SetFont ''Arial'' ''I'' 10, Cell 190 6 (''Generated on: '' @ now), Ln 10]"

definition report_context :: "string \<Rightarrow> string \<Rightarrow> string \<Rightarrow> string \<Rightarrow> rat \<Rightarrow> pdf_op list" where
  "report_context heading engineLabel engine durationLabel seconds =
     [SetFont ''Arial'' ''B'' 14, Cell 190 8 heading, Ln 8,
      SetFont ''Arial'' '''' 11, Cell 60 6 engineLabel, Cell 130 6 engine, Ln 6,
      Cell 60 6 durationLabel, Cell 130 6 (show_fixed2 seconds @ '' seconds''), Ln 10]"

definition metric_row :: "string \<times> string \<Rightarrow> pdf_op list" where
  "metric_row m = [CellFormat 95 7 (fst m) ''1'' 0 ''L'' False, CellFormat 95 7 (snd m) ''1'' 1 ''L'' False]"

definition report_table :: "string \<Rightarrow> (string \<times> string) list \<Rightarrow> pdf_op list" where
  "report_table heading metrics =
     [SetFont ''Arial'' ''B'' 14, Cell 190 8 heading, Ln 8,
      SetFont ''Arial'' ''B'' 11, SetFillColor 230 230 230,
      CellFormat 95 7 ''Metric'' ''1'' 0 ''L'' True, CellFormat 95 7 ''Value'' ''1'' 1 ''L'' True,
      SetFont ''Arial'' '''' 11]
     @ concat (map metric_row metrics) @ [Ln 12]"

definition report_status :: "string \<Rightarrow> u64 \<Rightarrow> pdf_op list" where
  "report_status good failed =
     SetFont ''Arial'' ''B'' 12 #
     (if failed = 0 then [SetTextColor 0 128 0, Cell 190 8 good]
      else [SetTextColor 200 0 0, Cell 190 8 (''STATUS: Completed with '' @ show_nat (unat failed) @ '' errors.'')])"

definition GenerateTPSReport :: "string \<Rightarrow> (pdf_op list \<Rightarrow> string option) \<Rightarrow> SummaryReport \<Rightarrow> string option" where
  "GenerateTPSReport now output r =
     output (report_title ''HED-Core Engine Performance Report'' now
       @ report_context ''1. System Context'' ''Active Storage Engine:'' (sr_EngineName r) ''Execution Duration:'' (sr_DurationSec r)
       @ report_table ''2. Throughput & Execution Summary''
           [(''Committed Transactions'', show_nat (unat (sr_TotalCommitted r))),
            (''Failed Transactions'', show_nat (unat (sr_TotalFailed r))),
            (''Average Throughput (TPS)'', show_fixed2 (sr_AverageTPS r) @ '' ops/sec''),
            (''Average Latency'', show_int (sint (sr_AvgLatencyUs r)) @ '' us'')]
       @ report_status ''STATUS: Execution completed with zero failures.'' (sr_TotalFailed r))"

end
