(* ===== verification/Dashboard_Server.thy ===== *)
theory Dashboard_Server
  imports HLF_Committer HLF_Server TPS_Report
begin

text \<open>
  The dashboard server of \<^verbatim>\<open>pkg/dashboard/server.go\<close>: the handlers for submissions, metrics,
  configuration, the benchmark, the event stream and the report. A benchmark run has a cancel flag
  (its context), a limit and a counter of its own; \<^verbatim>\<open>cancelTest\<close> is the run whose context the
  stored function cancels. Its workers are goroutines: each is at the select, in front of the
  counter, or in front of the submission, and \<open>worker_step\<close> is one move of one worker, so a run is
  any sequence of moves and requests. Sleeping between submissions leaves no trace. Routes and the
  dispatch of requests are in \<open>Dashboard_Routes\<close>.
\<close>

datatype bench_pc = AtSelect | AtCount | AtSubmit | Returned

record bench_worker =
  bw_run :: nat
  bw_id :: nat
  bw_pc :: bench_pc

record bench_ctx =
  bx_cancelled :: bool
  bx_limit :: i64
  bx_sent :: i64

record ('db, 'w) Server =
  sv_pipeline :: "'db EPipeline"
  sv_registry :: "'db Registry"
  sv_hlfServer :: HLFServer
  sv_committer :: "'w HLFCommitter option"
  sv_isTesting :: bool
  sv_cancelTest :: "nat option"
  sv_netErrCount :: u64
  sv_runs :: "bench_ctx list"
  sv_workers :: "bench_worker list"

definition NewServer ::
  "'db Registry \<Rightarrow> 'db StateEngine option \<Rightarrow> 'db \<Rightarrow> HLFServer \<Rightarrow> 'w HLFCommitter option \<Rightarrow> ('db, 'w) Server" where
  "NewServer reg db s hlfSrv committer =
     \<lparr>sv_pipeline = NewEPipeline db s 32, sv_registry = reg, sv_hlfServer = hlfSrv, sv_committer = committer,
      sv_isTesting = False, sv_cancelTest = None, sv_netErrCount = 0, sv_runs = [], sv_workers = []\<rparr>"

definition method_error :: Response where
  "method_error = http_Error ''Method not allowed'' StatusMethodNotAllowed"

subsection \<open>Submission, metrics and configuration\<close>

definition handleTxSubmission ::
  "string \<Rightarrow> int \<Rightarrow> string \<Rightarrow> string + TxPayload \<Rightarrow> ('db, 'w) Server \<Rightarrow> Response \<times> ('db, 'w) Server" where
  "handleTxSubmission ts lat httpMethod body sv =
     (if httpMethod \<noteq> ''POST'' then (method_error, sv)
      else case body of
             Inl e \<Rightarrow> (http_Error e StatusBadRequest, sv)
           | Inr req \<Rightarrow>
               (case SubmitTransaction ts lat (Some req) (sv_pipeline sv) of
                  ((shardName, ack, err), p) \<Rightarrow>
                    (case err of
                       Some e \<Rightarrow> json_reply StatusInternalServerError
                         (JObj [(''error'', JStr e), (''status'', JStr ''FAILED''), (''tx_uuid'', JStr (TxUUID req))])
                     | None \<Rightarrow> json_reply StatusAccepted
                         (JObj [(''ack_time_us'', json_int ack), (''shard'', JStr shardName), (''status'', JStr ''ACKNOWLEDGED''),
                                (''tx_uuid'', JStr (TxUUID req))]),
                     sv\<lparr>sv_pipeline := p\<rparr>)))"

definition committed_total :: "('db, 'w) Server \<Rightarrow> u64" where
  "committed_total sv =
     (case sv_committer sv of None \<Rightarrow> 0 | Some c \<Rightarrow> hc_TotalCommitted c) + TotalCommitted (sv_pipeline sv)"

definition failed_total :: "('db, 'w) Server \<Rightarrow> u64" where
  "failed_total sv = TotalFailed (sv_pipeline sv) + sv_netErrCount sv"

definition handleMetrics :: "('db, 'w) Server \<Rightarrow> Response" where
  "handleMetrics sv = json_reply StatusOK
     (JObj [(''committed_txs'', json_nat (unat (committed_total sv))), (''engine'', JStr (EngineName (sv_pipeline sv))),
            (''failed_txs'', json_nat (unat (failed_total sv))), (''is_testing'', JBool (sv_isTesting sv))])"

definition status_reply :: "string \<Rightarrow> Response" where
  "status_reply st = plain_reply StatusOK (JObj [(''status'', JStr st)])"

text \<open>An engine name the registry does not know is ignored, and the answer is the same.\<close>

definition handleConfig ::
  "string \<Rightarrow> string \<Rightarrow> string + string \<times> int \<Rightarrow> ('db, 'w) Server \<Rightarrow> Response \<times> ('db, 'w) Server" where
  "handleConfig ts httpMethod body sv =
     (if httpMethod \<noteq> ''POST'' then (method_error, sv)
      else case body of
             Inl e \<Rightarrow> (http_Error e StatusBadRequest, sv)
           | Inr (engine, chans) \<Rightarrow>
               (let p1 = (if chans > 0 then SetShards ts chans (sv_pipeline sv) else sv_pipeline sv);
                    p2 = (if engine \<noteq> ''''
                          then (case Registry_Get engine (sv_registry sv) of
                                  Inr db \<Rightarrow> SetStorageEngine ts (Some db) p1
                                | Inl e \<Rightarrow> p1)
                          else p1)
                in (status_reply ''updated'', sv\<lparr>sv_pipeline := p2\<rparr>)))"

subsection \<open>The benchmark\<close>

record BenchRequest =
  rq_Action :: string
  rq_Workers :: int
  rq_Channels :: int
  rq_DelayUs :: int
  rq_Limit :: i64

definition sys_event :: "string \<Rightarrow> string \<Rightarrow> ('db, 'w) Server \<Rightarrow> ('db, 'w) Server" where
  "sys_event ts msg sv = sv\<lparr>sv_pipeline := EmitEvent ts EventSys '''' '''' msg (sv_pipeline sv)\<rparr>"

text \<open>Calling the stored cancel function.\<close>

definition cancel_run :: "('db, 'w) Server \<Rightarrow> ('db, 'w) Server" where
  "cancel_run sv =
     (case sv_cancelTest sv of
        None \<Rightarrow> sv
      | Some r \<Rightarrow> sv\<lparr>sv_runs := (sv_runs sv)[r := (sv_runs sv ! r)\<lparr>bx_cancelled := True\<rparr>]\<rparr>)"

definition rocket_mark :: string where "rocket_mark = utf8_encode 0x1F680"
definition target_mark :: string where "target_mark = utf8_encode 0x1F3AF"

definition start_run :: "string \<Rightarrow> int \<Rightarrow> i64 \<Rightarrow> ('db, 'w) Server \<Rightarrow> ('db, 'w) Server" where
  "start_run ts workers limit sv =
     (let r = length (sv_runs sv);
          limitText = (if sint limit > 0 then show_int (sint limit) @ '' transactions'' else ''Continuous'');
          sv1 = sv\<lparr>sv_runs := sv_runs sv @ [\<lparr>bx_cancelled = False, bx_limit = limit, bx_sent = 0\<rparr>],
                   sv_cancelTest := Some r, sv_isTesting := True\<rparr>;
          sv2 = sys_event ts (rocket_mark @ '' Launching Direct In-Memory Engine Benchmark ['' @ show_int workers
                  @ '' Workers | Target Limit: '' @ limitText @ '']'') sv1
      in sv2\<lparr>sv_workers := sv_workers sv2 @ map (\<lambda>i. \<lparr>bw_run = r, bw_id = i, bw_pc = AtSelect\<rparr>) [0..<nat workers]\<rparr>)"

definition handleBenchmark ::
  "string \<Rightarrow> string \<Rightarrow> string + BenchRequest \<Rightarrow> ('db, 'w) Server \<Rightarrow> Response \<times> ('db, 'w) Server" where
  "handleBenchmark ts httpMethod body sv =
     (if httpMethod \<noteq> ''POST'' then (method_error, sv)
      else case body of
             Inl e \<Rightarrow> (http_Error e StatusBadRequest, sv)
           | Inr req \<Rightarrow>
               (if rq_Action req = ''stop''
                then (status_reply ''stopped'',
                      sys_event ts ''Benchmark generator stopped manually.''
                        ((cancel_run sv)\<lparr>sv_cancelTest := None, sv_isTesting := False\<rparr>))
                else if sv_isTesting sv then (status_reply ''already_running'', sv)
                else (status_reply ''started'',
                      start_run ts (if rq_Workers req \<le> 0 then 128 else rq_Workers req) (rq_Limit req) sv)))"

definition set_pc :: "nat \<Rightarrow> bench_pc \<Rightarrow> ('db, 'w) Server \<Rightarrow> ('db, 'w) Server" where
  "set_pc i pc sv = sv\<lparr>sv_workers := (sv_workers sv)[i := (sv_workers sv ! i)\<lparr>bw_pc := pc\<rparr>]\<rparr>"

text \<open>The counter of the run; the first worker beyond the limit ends the benchmark.\<close>

definition reach_limit :: "string \<Rightarrow> i64 \<Rightarrow> ('db, 'w) Server \<Rightarrow> ('db, 'w) Server" where
  "reach_limit ts limit sv =
     (if sv_isTesting sv
      then cancel_run (sys_event ts (target_mark @ '' Target limit reached ('' @ show_int (sint limit)
             @ '' txs). Benchmark complete.'') (sv\<lparr>sv_isTesting := False\<rparr>))
      else sv)"

definition count_sent :: "string \<Rightarrow> nat \<Rightarrow> nat \<Rightarrow> ('db, 'w) Server \<Rightarrow> ('db, 'w) Server" where
  "count_sent ts i r sv =
     (let b = sv_runs sv ! r
      in if sint (bx_limit b) > 0
         then (let current = bx_sent b + 1; sv1 = sv\<lparr>sv_runs := (sv_runs sv)[r := b\<lparr>bx_sent := current\<rparr>]\<rparr>
               in if sint current > sint (bx_limit b)
                  then set_pc i Returned (reach_limit ts (bx_limit b) sv1)
                  else set_pc i AtSubmit sv1)
         else set_pc i AtSubmit sv)"

definition submit_one :: "string \<Rightarrow> int \<Rightarrow> int \<Rightarrow> nat \<Rightarrow> ('db, 'w) Server \<Rightarrow> ('db, 'w) Server" where
  "submit_one ts lat nanos i sv =
     (let payload = \<lparr>TxUUID = GenerateUUID nanos, AccountID = ''acc_'' @ show_nat (bw_id (sv_workers sv ! i) mod 1000),
                     tx_Amount = 100\<rparr>
      in case SubmitTransaction ts lat (Some payload) (sv_pipeline sv) of
           ((_, _, err), p) \<Rightarrow>
             set_pc i AtSelect (sv\<lparr>sv_pipeline := p,
               sv_netErrCount := (if err = None then sv_netErrCount sv else sv_netErrCount sv + 1)\<rparr>))"

definition worker_step :: "string \<Rightarrow> int \<Rightarrow> int \<Rightarrow> nat \<Rightarrow> ('db, 'w) Server \<Rightarrow> ('db, 'w) Server" where
  "worker_step ts lat nanos i sv =
     (if i < length (sv_workers sv)
      then (let r = bw_run (sv_workers sv ! i)
            in case bw_pc (sv_workers sv ! i) of
                 AtSelect \<Rightarrow> set_pc i (if bx_cancelled (sv_runs sv ! r) then Returned else AtCount) sv
               | AtCount \<Rightarrow> count_sent ts i r sv
               | AtSubmit \<Rightarrow> submit_one ts lat nanos i sv
               | Returned \<Rightarrow> sv)
      else sv)"

subsection \<open>Event stream and report\<close>

definition sse_event :: "Event \<Rightarrow> string" where
  "sse_event evt = ''data: '' @ print_json (JObj [(''level'', JStr (EventType_string (ev_Type evt))),
     (''message'', JStr (ev_Message evt)), (''shard'', JStr (ev_Shard evt)), (''timestamp'', JStr (ev_Timestamp evt)),
     (''tx_uuid'', JStr (ev_TxUUID evt))]) @ [CHR 0x0A, CHR 0x0A]"

text \<open>
  A client of the stream subscribes, receives the events of its channel one by one, and is
  unsubscribed when its request ends, or at once when the connection cannot be flushed.
\<close>

definition sse_open :: "bool \<Rightarrow> ('db, 'w) Server \<Rightarrow> nat option \<times> ('db, 'w) Server" where
  "sse_open canFlush sv =
     (case SubscribeEvents (sv_pipeline sv) of
        (ch, p) \<Rightarrow> if canFlush then (Some ch, sv\<lparr>sv_pipeline := p\<rparr>)
                   else (None, sv\<lparr>sv_pipeline := UnsubscribeEvents ch p\<rparr>))"

definition sse_receive :: "nat \<Rightarrow> ('db, 'w) Server \<Rightarrow> (string \<times> ('db, 'w) Server) option" where
  "sse_receive ch sv =
     (case map_of (ep_subscribers (sv_pipeline sv)) ch of
        Some (evt # q) \<Rightarrow>
          Some (sse_event evt, sv\<lparr>sv_pipeline := (sv_pipeline sv)
            \<lparr>ep_subscribers := AList.update ch q (ep_subscribers (sv_pipeline sv))\<rparr>\<rparr>)
      | _ \<Rightarrow> None)"

definition sse_close :: "nat \<Rightarrow> ('db, 'w) Server \<Rightarrow> ('db, 'w) Server" where
  "sse_close ch sv = sv\<lparr>sv_pipeline := UnsubscribeEvents ch (sv_pipeline sv)\<rparr>"

definition report_ops :: "string \<Rightarrow> rat \<Rightarrow> ('db, 'w) Server \<Rightarrow> pdf_op list" where
  "report_ops now durationSec sv =
     (let totalCommitted = committed_total sv; totalFailed = failed_total sv;
          avgTPS = (if durationSec > 0 then of_nat (unat totalCommitted) / durationSec else 0)
      in report_title ''HED-Core Performance & TPS Report'' now
         @ report_context ''1. Active Configuration'' ''Storage Engine:'' (EngineName (sv_pipeline sv)) ''Uptime Duration:'' durationSec
         @ report_table ''2. Execution Summary''
             [(''Committed Transactions'', show_nat (unat totalCommitted)),
              (''Failed / Error Transactions'', show_nat (unat totalFailed)),
              (''Average Throughput (TPS)'', show_fixed2 avgTPS @ '' ops/sec'')]
         @ report_status ''STATUS: Operational - Zero Errors Recorded.'' totalFailed)"

text \<open>The document is the library's rendering of the commands, or its error.\<close>

definition handlePDFReport :: "(pdf_op list \<Rightarrow> string + bytes) \<Rightarrow> string \<Rightarrow> rat \<Rightarrow> ('db, 'w) Server \<Rightarrow> Response" where
  "handlePDFReport render now durationSec sv =
     (case render (report_ops now durationSec sv) of
        Inr doc \<Rightarrow> \<lparr>rs_Status = StatusOK, rs_Type = ''application/pdf'', rs_Body = doc\<rparr>
      | Inl e \<Rightarrow> http_Error (''Failed to generate PDF: '' @ e) StatusInternalServerError)"

subsection \<open>A limited run\<close>

text \<open>
  The number of workers at a point, and the invariant of the first run of a server with a limit:
  \<open>S\<close> submissions are done, the others that the counter admitted are in front of their
  submission; nobody has returned before the counter passed the limit, and from then on the run is
  cancelled and the server no longer testing. Each worker passes the limit at most once.
\<close>

definition at_pc :: "bench_pc \<Rightarrow> bench_worker list \<Rightarrow> nat" where
  "at_pc pc ws = sum_list (map (\<lambda>w. if bw_pc w = pc then 1 else 0) ws)"

definition run_inv :: "i64 \<Rightarrow> nat \<Rightarrow> u64 \<Rightarrow> u64 \<Rightarrow> nat \<Rightarrow> bench_ctx \<Rightarrow> ('db, 'w) Server \<Rightarrow> bool" where
  "run_inv L n c0 e0 S b sv \<longleftrightarrow> sv_runs sv = [b] \<and> sv_cancelTest sv = Some 0 \<and> bx_limit b = L
     \<and> length (sv_workers sv) = n \<and> (\<forall>w \<in> set (sv_workers sv). bw_run w = 0)
     \<and> ep_counted (sv_pipeline sv) = c0 + of_nat S \<and> sv_netErrCount sv = e0 + ep_failed (sv_pipeline sv)
     \<and> 0 \<le> sint (bx_sent b) \<and> sint (bx_sent b) \<le> sint L + int (at_pc Returned (sv_workers sv))
     \<and> int S + int (at_pc AtSubmit (sv_workers sv)) = min (sint (bx_sent b)) (sint L)
     \<and> (if sint (bx_sent b) \<le> sint L
        then at_pc Returned (sv_workers sv) = 0 \<and> sv_isTesting sv \<and> \<not> bx_cancelled b
        else \<not> sv_isTesting sv \<and> bx_cancelled b)"

text \<open>What is left to do: three moves per admitted transaction, and the moves of each worker to its return.\<close>

fun pc_weight :: "bench_pc \<Rightarrow> nat" where
  "pc_weight AtSelect = 2"
| "pc_weight AtCount = 1"
| "pc_weight AtSubmit = 3"
| "pc_weight Returned = 0"

definition moves_left :: "bench_ctx \<Rightarrow> ('db, 'w) Server \<Rightarrow> nat" where
  "moves_left b sv = 3 * nat (sint (bx_limit b) - sint (bx_sent b)) + sum_list (map (pc_weight \<circ> bw_pc) (sv_workers sv))"

lemma at_pc_update:
  "i < length ws \<Longrightarrow> at_pc pc (ws[i := (ws ! i)\<lparr>bw_pc := q\<rparr>]) + (if bw_pc (ws ! i) = pc then 1 else 0)
    = at_pc pc ws + (if q = pc then 1 else 0)"
  using sum_list_update_nat [of i "map (\<lambda>w. if bw_pc w = pc then 1 else 0) ws" "if q = pc then 1 else 0"]
  by (simp add: at_pc_def map_update)

lemma at_pc_le: "at_pc pc ws \<le> length ws"
  by (induction ws) (auto simp: at_pc_def)

lemma weight_update:
  "i < length ws \<Longrightarrow> sum_list (map (pc_weight \<circ> bw_pc) (ws[i := (ws ! i)\<lparr>bw_pc := q\<rparr>])) + pc_weight (bw_pc (ws ! i))
    = sum_list (map (pc_weight \<circ> bw_pc) ws) + pc_weight q"
  using sum_list_update_nat [of i "map (pc_weight \<circ> bw_pc) ws" "pc_weight q"] by (simp add: map_update)

lemma set_pc_sel [simp]:
  "sv_runs (set_pc i q sv) = sv_runs sv" "sv_cancelTest (set_pc i q sv) = sv_cancelTest sv"
  "sv_pipeline (set_pc i q sv) = sv_pipeline sv" "sv_netErrCount (set_pc i q sv) = sv_netErrCount sv"
  "sv_isTesting (set_pc i q sv) = sv_isTesting sv"
  "sv_workers (set_pc i q sv) = (sv_workers sv)[i := (sv_workers sv ! i)\<lparr>bw_pc := q\<rparr>]"
  by (simp_all add: set_pc_def)

lemma runs_update:
  "\<forall>w \<in> set ws. bw_run w = (r :: nat) \<Longrightarrow> \<forall>w \<in> set (ws[i := (ws ! i)\<lparr>bw_pc := q\<rparr>]). bw_run w = r"
  by (cases "i < length ws") (auto dest!: set_update_subset_insert [THEN subsetD] simp: list_update_beyond)

lemma reach_limit_sel [simp]:
  "sv_workers (reach_limit ts L sv) = sv_workers sv" "ep_counted (sv_pipeline (reach_limit ts L sv)) = ep_counted (sv_pipeline sv)"
  "ep_failed (sv_pipeline (reach_limit ts L sv)) = ep_failed (sv_pipeline sv)"
  "sv_netErrCount (reach_limit ts L sv) = sv_netErrCount sv" "sv_cancelTest (reach_limit ts L sv) = sv_cancelTest sv"
  "sv_isTesting (reach_limit ts L sv) = False"
  by (simp_all add: reach_limit_def cancel_run_def sys_event_def ep_counted_def frame_simps split: option.splits)

lemma reach_limit_runs:
  "sv_runs sv = [b] \<Longrightarrow> sv_cancelTest sv = Some 0 \<Longrightarrow> sv_isTesting sv \<or> bx_cancelled b \<Longrightarrow>
    sv_runs (reach_limit ts L sv) = [b\<lparr>bx_cancelled := True\<rparr>]"
  by (auto simp: reach_limit_def cancel_run_def sys_event_def)

lemma sent_step: "0 \<le> sint (s :: i64) \<Longrightarrow> sint s + 1 < 2 ^ 63 \<Longrightarrow> sint (s + 1) = sint s + 1"
  using sint_of_int_i64 [of "sint s + 1"] by simp

text \<open>
  One move of a worker that has not returned keeps the invariant and uses up a move: at the select, at
  the counter, and at the submission.
\<close>

definition progress :: "i64 \<Rightarrow> nat \<Rightarrow> u64 \<Rightarrow> u64 \<Rightarrow> bench_ctx \<Rightarrow> ('db, 'w) Server \<Rightarrow> ('db, 'w) Server \<Rightarrow> bool" where
  "progress L n c0 e0 b sv sv' \<longleftrightarrow> (\<exists>S' b'. run_inv L n c0 e0 S' b' sv' \<and> moves_left b' sv' < moves_left b sv)"

lemma run_inv_worker:
  assumes "run_inv L n c0 e0 S b sv" and "i < n"
  shows "i < length (sv_workers sv)" and "bw_run (sv_workers sv ! i) = 0"
    and "\<forall>w \<in> set ((sv_workers sv)[i := (sv_workers sv ! i)\<lparr>bw_pc := q\<rparr>]). bw_run w = 0"
  using assms runs_update [of "sv_workers sv" 0 i q] by (auto simp: run_inv_def)

lemma select_progress:
  assumes inv: "run_inv L n c0 e0 S b sv" and i: "i < n" and pc: "bw_pc (sv_workers sv ! i) = AtSelect"
  shows "progress L n c0 e0 b sv (worker_step ts lat nn i sv)"
proof -
  let ?q = "if bx_cancelled b then Returned else AtCount"
  note I = inv [unfolded run_inv_def] and w = run_inv_worker [OF inv i]
  have "worker_step ts lat nn i sv = set_pc i ?q sv" using pc w I by (simp add: worker_step_def)
  moreover have "run_inv L n c0 e0 S b (set_pc i ?q sv)"
    using I at_pc_update [OF w(1), of AtSubmit ?q] at_pc_update [OF w(1), of Returned ?q] pc w(3) [of ?q]
    by (auto simp: run_inv_def split: if_splits)
  moreover have "moves_left b (set_pc i ?q sv) < moves_left b sv"
    using weight_update [OF w(1), of ?q] pc by (auto simp: moves_left_def split: if_splits)
  ultimately show ?thesis unfolding progress_def by metis
qed

lemma count_progress:
  assumes inv: "run_inv L n c0 e0 S b sv" and L: "0 < sint L" "sint L + int n < 2 ^ 63"
    and i: "i < n" and pc: "bw_pc (sv_workers sv ! i) = AtCount"
  shows "progress L n c0 e0 b sv (worker_step ts lat nn i sv)"
proof -
  let ?ws = "sv_workers sv" and ?c = "bx_sent b + 1" and ?b = "b\<lparr>bx_sent := bx_sent b + 1\<rparr>"
  note I = inv [unfolded run_inv_def] and wk = run_inv_worker [OF inv i]
  note at = at_pc_update [OF wk(1)] and wt = weight_update [OF wk(1)]
  have "at_pc Returned ?ws < n"
    using at [of Returned Returned] pc I at_pc_le [of Returned "?ws[i := (?ws ! i)\<lparr>bw_pc := Returned\<rparr>]"] by simp
  then have c: "sint ?c = sint (bx_sent b) + 1" using I L by (intro sent_step) auto
  show ?thesis
  proof (cases "sint ?c > sint L")
    case True
    let ?sv = "sv\<lparr>sv_runs := [?b]\<rparr>"
    have w: "worker_step ts lat nn i sv = set_pc i Returned (reach_limit ts L ?sv)"
      using pc wk I L True by (simp add: worker_step_def count_sent_def Let_def)
    have r: "sv_runs (reach_limit ts L ?sv) = [?b\<lparr>bx_cancelled := True\<rparr>]"
      using I by (intro reach_limit_runs) (auto split: if_splits)
    have "run_inv L n c0 e0 S (?b\<lparr>bx_cancelled := True\<rparr>) (set_pc i Returned (reach_limit ts L ?sv))"
      using I at [of AtSubmit Returned] at [of Returned Returned] pc wk(3) [of Returned] r c True
      by (auto simp: run_inv_def split: if_splits)
    moreover have "moves_left (?b\<lparr>bx_cancelled := True\<rparr>) (set_pc i Returned (reach_limit ts L ?sv)) < moves_left b sv"
      using wt [of Returned] pc c by (auto simp: moves_left_def)
    ultimately show ?thesis unfolding progress_def using w by metis
  next
    case False
    let ?sv = "set_pc i AtSubmit (sv\<lparr>sv_runs := [?b]\<rparr>)"
    have w: "worker_step ts lat nn i sv = ?sv"
      using pc wk I L False by (simp add: worker_step_def count_sent_def Let_def)
    have "run_inv L n c0 e0 S ?b ?sv"
      using I at [of AtSubmit AtSubmit] at [of Returned AtSubmit] pc wk(3) [of AtSubmit] c False
      by (auto simp: run_inv_def split: if_splits)
    moreover have "moves_left ?b ?sv < moves_left b sv"
      using wt [of AtSubmit] pc c False I by (auto simp: moves_left_def)
    ultimately show ?thesis unfolding progress_def using w by metis
  qed
qed

lemma submit_progress:
  assumes inv: "run_inv L n c0 e0 S b sv" and i: "i < n" and pc: "bw_pc (sv_workers sv ! i) = AtSubmit"
  shows "progress L n c0 e0 b sv (worker_step ts lat nn i sv)"
proof -
  note I = inv [unfolded run_inv_def] and wk = run_inv_worker [OF inv i]
  obtain sh l err p where s: "SubmitTransaction ts lat (Some \<lparr>TxUUID = GenerateUUID nn,
      AccountID = ''acc_'' @ show_nat (bw_id (sv_workers sv ! i) mod 1000), tx_Amount = 100\<rparr>) (sv_pipeline sv) = ((sh, l, err), p)"
    by (metis prod.collapse)
  let ?sv = "set_pc i AtSelect (sv\<lparr>sv_pipeline := p,
      sv_netErrCount := (if err = None then sv_netErrCount sv else sv_netErrCount sv + 1)\<rparr>)"
  have w: "worker_step ts lat nn i sv = ?sv"
    using pc wk(1) s by (simp add: worker_step_def submit_one_def Let_def)
  have "run_inv L n c0 e0 (Suc S) b ?sv"
    using I at_pc_update [OF wk(1), of AtSubmit AtSelect] at_pc_update [OF wk(1), of Returned AtSelect] pc wk(3) [of AtSelect]
      Submit_counts(1,2) [OF s]
    by (auto simp: run_inv_def ep_counted_def split: if_splits)
  moreover have "moves_left b ?sv < moves_left b sv"
    using weight_update [OF wk(1), of AtSelect] pc by (auto simp: moves_left_def)
  ultimately show ?thesis unfolding progress_def using w by metis
qed

lemma worker_step_inv:
  assumes "run_inv L n c0 e0 S b sv" and "0 < sint L" "sint L + int n < 2 ^ 63"
    and "i < n" and "bw_pc (sv_workers sv ! i) \<noteq> Returned"
  shows "\<exists>S' b'. run_inv L n c0 e0 S' b' (worker_step ts lat nn i sv)
    \<and> moves_left b' (worker_step ts lat nn i sv) < moves_left b sv"
proof -
  note p = select_progress [OF assms(1,4)] count_progress [OF assms(1-4)] submit_progress [OF assms(1,4)]
  show ?thesis using assms(5) p [unfolded progress_def] by (cases "bw_pc (sv_workers sv ! i)") simp_all
qed

text \<open>A sequence of moves, and that each is one of a worker that has not returned.\<close>

type_synonym bench_move = "string \<times> int \<times> int \<times> nat"

fun server_moves :: "bench_move list \<Rightarrow> ('db, 'w) Server \<Rightarrow> ('db, 'w) Server" where
  "server_moves [] sv = sv"
| "server_moves ((ts, lat, nanos, i) # ms) sv = server_moves ms (worker_step ts lat nanos i sv)"

fun live_moves :: "bench_move list \<Rightarrow> ('db, 'w) Server \<Rightarrow> bool" where
  "live_moves [] sv = True"
| "live_moves ((ts, lat, nanos, i) # ms) sv =
     (i < length (sv_workers sv) \<and> bw_pc (sv_workers sv ! i) \<noteq> Returned \<and> live_moves ms (worker_step ts lat nanos i sv))"

lemma moves_inv:
  assumes "0 < sint L" and "sint L + int n < 2 ^ 63"
  shows "run_inv L n c0 e0 S b sv \<Longrightarrow> \<exists>S' b'. run_inv L n c0 e0 S' b' (server_moves ms sv)"
proof (induction ms arbitrary: S b sv)
  case (Cons m ms)
  obtain ts lat nn i where m: "m = (ts, lat, nn, i)" by (metis prod_cases4)
  show ?case
  proof (cases "i < length (sv_workers sv) \<and> bw_pc (sv_workers sv ! i) \<noteq> Returned")
    case True
    then have "i < n" using Cons.prems by (simp add: run_inv_def)
    then show ?thesis using worker_step_inv [OF Cons.prems assms _ conjunct2 [OF True]] Cons.IH m by fastforce
  next
    case False
    then have "worker_step ts lat nn i sv = sv" by (auto simp: worker_step_def)
    then show ?thesis using Cons m by simp
  qed
qed auto

lemma live_moves_bounded:
  assumes "0 < sint L" and "sint L + int n < 2 ^ 63"
  shows "run_inv L n c0 e0 S b sv \<Longrightarrow> live_moves ms sv \<Longrightarrow> length ms \<le> moves_left b sv"
proof (induction ms arbitrary: S b sv)
  case (Cons m ms)
  obtain ts lat nn i where m: "m = (ts, lat, nn, i)" by (metis prod_cases4)
  have i: "i < n" "bw_pc (sv_workers sv ! i) \<noteq> Returned" using Cons.prems m by (simp_all add: run_inv_def)
  obtain S' b' where s: "run_inv L n c0 e0 S' b' (worker_step ts lat nn i sv)"
    "moves_left b' (worker_step ts lat nn i sv) < moves_left b sv"
    using worker_step_inv [OF Cons.prems(1) assms i] by blast
  have "length ms \<le> moves_left b' (worker_step ts lat nn i sv)" using Cons.IH [OF s(1)] Cons.prems(2) m by simp
  then show ?case using s(2) by simp
qed simp

text \<open>The server right after a benchmark was requested.\<close>

definition start_request :: "nat \<Rightarrow> i64 \<Rightarrow> BenchRequest" where
  "start_request workers limit =
     \<lparr>rq_Action = ''start'', rq_Workers = int workers, rq_Channels = 0, rq_DelayUs = 0, rq_Limit = limit\<rparr>"

definition started ::
  "string \<Rightarrow> nat \<Rightarrow> i64 \<Rightarrow> 'db Registry \<Rightarrow> 'db StateEngine option \<Rightarrow> 'db \<Rightarrow> HLFServer \<Rightarrow> 'w HLFCommitter option
   \<Rightarrow> ('db, 'w) Server" where
  "started ts workers limit reg db s hlf cm =
     snd (handleBenchmark ts ''POST'' (Inr (start_request workers limit)) (NewServer reg db s hlf cm))"

lemma started_inv:
  assumes "0 < n" and "0 < sint L"
  shows "run_inv L n 0 0 0 \<lparr>bx_cancelled = False, bx_limit = L, bx_sent = 0\<rparr> (started ts n L reg db s hlf cm)
    \<and> moves_left \<lparr>bx_cancelled = False, bx_limit = L, bx_sent = 0\<rparr> (started ts n L reg db s hlf cm) = 3 * nat (sint L) + 2 * n"
proof -
  have "sum_list (map f (map g xs)) = sum_list (map (f \<circ> g) xs)" for f :: "bench_worker \<Rightarrow> nat" and g :: "nat \<Rightarrow> bench_worker" and xs
    by simp
  then show ?thesis
    using assms
    by (simp add: started_def start_request_def handleBenchmark_def start_run_def sys_event_def NewServer_def NewEPipeline_def
        run_inv_def moves_left_def at_pc_def ep_counted_def frame_simps Let_def comp_def sum_list_triv)
qed

text \<open>
  C9 A benchmark with a limit submits exactly that many transactions: for every interleaving of its
  workers the pipeline never counts more submissions than the limit, and when all workers have
  returned it has counted exactly the limit and the server is no longer testing; and the number of
  failures the metrics report is twice the number of failed submissions, because the pipeline and
  the worker both count each.
\<close>

theorem server_benchmark_exact:
  assumes "0 < workers" and "0 < sint limit" and "sint limit + int workers < 2 ^ 63"
    and "sv = server_moves ms (started ts workers limit reg db s hlf cm)"
  shows "unat (TotalCommitted (sv_pipeline sv) + TotalFailed (sv_pipeline sv)) \<le> nat (sint limit)
    \<and> ((\<forall>w \<in> set (sv_workers sv). bw_pc w = Returned) \<longrightarrow>
         unat (TotalCommitted (sv_pipeline sv) + TotalFailed (sv_pipeline sv)) = nat (sint limit) \<and> \<not> sv_isTesting sv)
    \<and> failed_total sv = 2 * TotalFailed (sv_pipeline sv)"
proof -
  note start = conjunct1 [OF started_inv [OF assms(1,2), of ts reg db s hlf cm]]
  obtain S b where I: "run_inv limit workers 0 0 S b sv"
    using moves_inv [OF assms(2,3) start, of ms] assms(4) by metis
  note I' = I [unfolded run_inv_def]
  have le: "int S \<le> sint limit" using I' by linarith
  then have "int S < 2 ^ 63" using assms(3) by linarith
  then have "S < 2 ^ 64" by simp
  moreover have "TotalCommitted (sv_pipeline sv) + TotalFailed (sv_pipeline sv) = of_nat S"
    using I' by (simp add: TotalCommitted_def TotalFailed_def ep_counted_def)
  ultimately have S: "unat (TotalCommitted (sv_pipeline sv) + TotalFailed (sv_pipeline sv)) = S"
    by (simp only: unat_of_nat_u64)
  have "S = nat (sint limit) \<and> \<not> sv_isTesting sv" if all: "\<forall>w \<in> set (sv_workers sv). bw_pc w = Returned"
  proof -
    have "map (\<lambda>w. if bw_pc w = pc then 1 else (0 :: nat)) (sv_workers sv)
        = map (\<lambda>w. if Returned = pc then 1 else 0) (sv_workers sv)" for pc
      using all by simp
    then have "at_pc AtSubmit (sv_workers sv) = 0" "at_pc Returned (sv_workers sv) = workers"
      using I' by (simp_all only: at_pc_def sum_list_triv) simp_all
    then show ?thesis using I' assms(1) by (auto split: if_splits)
  qed
  moreover have "failed_total sv = 2 * TotalFailed (sv_pipeline sv)"
    using I' by (simp add: failed_total_def TotalFailed_def)
  ultimately show ?thesis using S le by simp
qed

theorem server_benchmark_exact_witness:
  "\<exists>sv :: (MemoryEngine, unit) Server. sv = server_moves [(''t'', 1, 2, 0), (''t'', 1, 2, 1), (''t'', 1, 2, 0)]
      (started ''t'' 2 5 NewRegistry (Some Memory) New_Memory (NewHLFServer NewNetwork) None)
    \<and> unat (TotalCommitted (sv_pipeline sv) + TotalFailed (sv_pipeline sv)) \<le> 5
    \<and> failed_total sv = 2 * TotalFailed (sv_pipeline sv)"
proof -
  have five: "sint (5 :: i64) = 5" using sint_of_int_i64 [of 5] by simp
  have pre: "0 < (2 :: nat)" "0 < sint (5 :: i64)" "sint (5 :: i64) + int 2 < 2 ^ 63" by (simp_all add: five)
  from server_benchmark_exact [OF pre refl] show ?thesis unfolding five by (metis nat_numeral)
qed



text \<open>
  A worker that passed its select before a stop still holds its turn in the next run: when it finds
  its old counter beyond the limit it clears the flag of the new benchmark and cancels it.
\<close>

definition restarted ::
  "string \<Rightarrow> int \<Rightarrow> int \<Rightarrow> 'db Registry \<Rightarrow> 'db \<Rightarrow> HLFServer \<Rightarrow> 'w HLFCommitter option \<Rightarrow> ('db, 'w) Server" where
  "restarted t l x reg s hlf cm =
     (let sv1 = server_moves [(t, l, x, 0), (t, l, x, 0), (t, l, x, 0), (t, l, x, 0)] (started t 2 1 reg None s hlf cm);
          sv2 = snd (handleBenchmark t ''POST'' (Inr ((start_request 2 7)\<lparr>rq_Action := ''stop''\<rparr>)) sv1)
      in snd (handleBenchmark t ''POST'' (Inr (start_request 2 7)) sv2))"

lemma stale_worker_stops_next_run:
  "sv_isTesting (restarted t l x reg s hlf cm) \<and> \<not> sv_isTesting (worker_step t l x 0 (restarted t l x reg s hlf cm))
    \<and> bx_cancelled (sv_runs (worker_step t l x 0 (restarted t l x reg s hlf cm)) ! 1)"
proof -
  have num: "sint (1 :: i64) = 1" "sint (2 :: i64) = 2" "sint (7 :: i64) = 7"
    using sint_of_int_i64 [of 1] sint_of_int_i64 [of 2] sint_of_int_i64 [of 7] by simp_all
  show ?thesis
    by (simp add: restarted_def num started_def start_request_def handleBenchmark_def start_run_def sys_event_def
        NewServer_def NewEPipeline_def worker_step_def count_sent_def submit_one_def SubmitTransaction_def cancel_run_def
        reach_limit_def set_pc_def Let_def upt_rec frame_simps split: prod.splits)
qed

end
