(* ===== verification/Dashboard_Routes.thy ===== *)
theory Dashboard_Routes
  imports Dashboard_Server
begin

text \<open>
  The routes of \<^verbatim>\<open>pkg/dashboard\<close>: what \<^verbatim>\<open>Server.Start\<close> and
  \<^verbatim>\<open>HLFServer.RegisterRoutes\<close> register, and the dispatch of a request to its handler. A
  request is its method, path and body; decoding a body into the struct of a handler is an argument,
  an error or the fields, as is the page. Handlers that read the clock get the readings with the
  request. A reply is a response, a stream of events with its subscription, or a panic of the handler.
\<close>

datatype sv_route =
    SvTx | SvMetrics | SvConfig | SvBenchmark | SvLogs | SvReport | SvDashboard
  | HlfTelemetry | HlfInstall | HlfDeploy | HlfLogs

definition start_routes :: "sv_route mux" where
  "start_routes =
     [(''/api/v1/tx'', SvTx), (''/api/metrics'', SvMetrics), (''/api/config'', SvConfig), (''/api/benchmark'', SvBenchmark),
      (''/api/logs'', SvLogs), (''/api/report/pdf'', SvReport), (''/'', SvDashboard)]"

definition hlf_routes :: "sv_route mux" where
  "hlf_routes =
     [(''/api/hlf/telemetry'', HlfTelemetry), (''/api/hlf/install'', HlfInstall), (''/api/hlf/deploy'', HlfDeploy),
      (''/api/hlf/logs'', HlfLogs)]"

definition RegisterRoutes :: "sv_route mux \<Rightarrow> sv_route mux option" where
  "RegisterRoutes mux = mux_register hlf_routes mux"

definition Server_Start :: "sv_route mux \<Rightarrow> sv_route mux option" where
  "Server_Start mux = mux_register start_routes mux"

subsection \<open>Requests\<close>

record http_request =
  hr_Method :: string
  hr_Path :: string
  hr_Body :: bytes
  hr_CanFlush :: bool

text \<open>The decoders of the request bodies, and the renderer of the report.\<close>

record body_codec =
  dc_Tx :: "bytes \<Rightarrow> string + TxPayload"
  dc_Config :: "bytes \<Rightarrow> string + string \<times> int"
  dc_Benchmark :: "bytes \<Rightarrow> string + BenchRequest"
  dc_Install :: "bytes \<Rightarrow> string + int \<times> int \<times> string \<times> string"
  dc_Render :: "pdf_op list \<Rightarrow> string + bytes"

text \<open>The readings of the clock a handler makes.\<close>

record sv_clock =
  ck_ts :: string
  ck_now :: string
  ck_stamp :: string
  ck_ack :: int
  ck_uptime :: rat

datatype sv_reply = SvReply Response | SvStream string "nat option" | SvPanic

definition sv_handleDashboard :: "string \<Rightarrow> Response" where
  "sv_handleDashboard page = html_reply ''text/html'' page"

definition handleLogsSSE :: "bool \<Rightarrow> ('db, 'w) Server \<Rightarrow> sv_reply \<times> ('db, 'w) Server" where
  "handleLogsSSE canFlush sv = (case sse_open canFlush sv of (ch, sv') \<Rightarrow> (SvStream ''text/event-stream'' ch, sv'))"

definition on_reply :: "Response \<times> 's \<Rightarrow> sv_reply \<times> 's" where
  "on_reply x = (case x of (r, s) \<Rightarrow> (SvReply r, s))"

definition on_hlf :: "Response \<times> HLFServer \<Rightarrow> ('db, 'w) Server \<Rightarrow> sv_reply \<times> ('db, 'w) Server" where
  "on_hlf x sv = (case x of (r, h) \<Rightarrow> (SvReply r, sv\<lparr>sv_hlfServer := h\<rparr>))"

definition sv_handle ::
  "body_codec \<Rightarrow> string \<Rightarrow> sv_clock \<Rightarrow> http_request \<Rightarrow> sv_route \<Rightarrow> ('db, 'w) Server \<Rightarrow> sv_reply \<times> ('db, 'w) Server" where
  "sv_handle dc page ck rq h sv =
     (case h of
        SvTx \<Rightarrow> on_reply (handleTxSubmission (ck_ts ck) (ck_ack ck) (hr_Method rq) (dc_Tx dc (hr_Body rq)) sv)
      | SvMetrics \<Rightarrow> (SvReply (handleMetrics sv), sv)
      | SvConfig \<Rightarrow> on_reply (handleConfig (ck_ts ck) (hr_Method rq) (dc_Config dc (hr_Body rq)) sv)
      | SvBenchmark \<Rightarrow> on_reply (handleBenchmark (ck_ts ck) (hr_Method rq) (dc_Benchmark dc (hr_Body rq)) sv)
      | SvLogs \<Rightarrow> handleLogsSSE (hr_CanFlush rq) sv
      | SvReport \<Rightarrow> (SvReply (handlePDFReport (dc_Render dc) (ck_now ck) (ck_uptime ck) sv), sv)
      | SvDashboard \<Rightarrow> (SvReply (sv_handleDashboard page), sv)
      | HlfTelemetry \<Rightarrow> ((case handleTelemetry (sv_hlfServer sv) of None \<Rightarrow> SvPanic | Some r \<Rightarrow> SvReply r), sv)
      | HlfInstall \<Rightarrow>
          on_hlf (handleInstall (ck_stamp ck) (ck_now ck) (hr_Method rq) (dc_Install dc (hr_Body rq)) (sv_hlfServer sv)) sv
      | HlfDeploy \<Rightarrow> on_hlf (handleDeploy (ck_now ck) (sv_hlfServer sv)) sv
      | HlfLogs \<Rightarrow> (SvReply (hs_handleLogs (sv_hlfServer sv)), sv))"

definition sv_serve ::
  "body_codec \<Rightarrow> string \<Rightarrow> sv_route mux \<Rightarrow> sv_clock \<times> http_request \<Rightarrow> ('db, 'w) Server \<Rightarrow> sv_reply \<times> ('db, 'w) Server" where
  "sv_serve dc page mux x sv =
     (case x of (ck, rq) \<Rightarrow>
        (case mux_Handler mux (hr_Path rq) of
           None \<Rightarrow> (SvReply (http_Error ''404 page not found'' StatusNotFound), sv)
         | Some h \<Rightarrow> sv_handle dc page ck rq h sv))"

text \<open>Requests interleaved with the moves of benchmark workers.\<close>

datatype sv_event = EvRequest sv_clock http_request | EvWorker string int int nat

fun sv_step :: "body_codec \<Rightarrow> string \<Rightarrow> sv_route mux \<Rightarrow> sv_event \<Rightarrow> ('db, 'w) Server \<Rightarrow> sv_reply option \<times> ('db, 'w) Server" where
  "sv_step dc page mux (EvRequest ck rq) sv = (case sv_serve dc page mux (ck, rq) sv of (r, sv') \<Rightarrow> (Some r, sv'))"
| "sv_step dc page mux (EvWorker ts lat nanos i) sv = (None, worker_step ts lat nanos i sv)"

fun sv_run :: "body_codec \<Rightarrow> string \<Rightarrow> sv_route mux \<Rightarrow> sv_event list \<Rightarrow> ('db, 'w) Server \<Rightarrow> sv_reply list \<times> ('db, 'w) Server" where
  "sv_run dc page mux [] sv = ([], sv)"
| "sv_run dc page mux (ev # evs) sv =
     (case sv_step dc page mux ev sv of
        (r, sv') \<Rightarrow> (case sv_run dc page mux evs sv' of (rs, sv'') \<Rightarrow> ((case r of None \<Rightarrow> rs | Some x \<Rightarrow> x # rs), sv'')))"

subsection \<open>Registration\<close>

lemma routes_registered:
  "RegisterRoutes [] = Some hlf_routes" "Server_Start [] = Some start_routes"
  "Server_Start hlf_routes = Some (hlf_routes @ start_routes)" "RegisterRoutes start_routes = Some (start_routes @ hlf_routes)"
  by (simp_all add: RegisterRoutes_def Server_Start_def hlf_routes_def start_routes_def)

lemma route_of:
  assumes "mux_Handler (hlf_routes @ start_routes) path = Some h" and "h \<noteq> SvDashboard"
  shows "(path, h) \<in> set (hlf_routes @ start_routes)"
  using assms
  by (auto simp: mux_Handler_def hlf_routes_def start_routes_def split: if_splits)

subsection \<open>The Fabric page stays consistent\<close>

lemma handle_hlf:
  assumes "hs_inv (sv_hlfServer sv)" and "sv_handle dc page ck rq h sv = (r, sv')"
  shows "hs_inv (sv_hlfServer sv') \<and> r \<noteq> SvPanic"
proof -
  have f: "sv_hlfServer (snd (handleTxSubmission ts l m b sv)) = sv_hlfServer sv"
      "sv_hlfServer (snd (handleConfig ts m b' sv)) = sv_hlfServer sv"
      "sv_hlfServer (snd (handleBenchmark ts m b'' sv)) = sv_hlfServer sv"
      "sv_hlfServer (snd (sse_open cf sv)) = sv_hlfServer sv" for ts l m b b' b'' cf
    by (simp_all add: handleTxSubmission_def handleConfig_def handleBenchmark_def start_run_def sys_event_def cancel_run_def
        sse_open_def Let_def split: prod.splits sum.splits option.splits)
  have t: "handleTelemetry (sv_hlfServer sv) \<noteq> None"
    using assms(1) by (auto simp: hs_inv_def handleTelemetry_def telemetry_peers_def)
  have g: "hs_inv (snd (handleInstall st n m b (sv_hlfServer sv)))" "hs_inv (snd (handleDeploy n (sv_hlfServer sv)))" for st n m b
    using hs_step_inv [OF assms(1), of "OpInstall st n m b"] hs_step_inv [OF assms(1), of "OpDeploy n"] by simp_all
  have "hs_inv (sv_hlfServer (snd (sv_handle dc page ck rq h sv))) \<and> fst (sv_handle dc page ck rq h sv) \<noteq> SvPanic"
    using assms(1) t f g
    by (cases h) (simp_all add: sv_handle_def on_reply_def on_hlf_def handleLogsSSE_def case_prod_unfold split: option.splits)
  then show ?thesis using assms(2) by simp
qed

lemma worker_hlf: "sv_hlfServer (worker_step ts lat nanos i sv) = sv_hlfServer sv"
  by (simp add: worker_step_def set_pc_def count_sent_def submit_one_def reach_limit_def sys_event_def cancel_run_def Let_def
      split: bench_pc.splits prod.splits option.splits)

lemma sv_step_hlf:
  assumes "hs_inv (sv_hlfServer sv)" and "sv_step dc page mux ev sv = (r, sv')"
  shows "hs_inv (sv_hlfServer sv') \<and> r \<noteq> Some SvPanic"
proof (cases ev)
  case (EvRequest ck rq)
  show ?thesis
  proof (cases "mux_Handler mux (hr_Path rq)")
    case None
    then show ?thesis using assms EvRequest by (auto simp: sv_serve_def)
  next
    case (Some h)
    then show ?thesis using assms EvRequest handle_hlf [OF assms(1), of dc page ck rq h]
      by (auto simp: sv_serve_def split: prod.splits)
  qed
next
  case (EvWorker ts lat nanos i)
  then show ?thesis using assms by (auto simp: worker_hlf)
qed

lemma sv_run_hlf:
  "hs_inv (sv_hlfServer sv) \<Longrightarrow> sv_run dc page mux evs sv = (rs, sv')
    \<Longrightarrow> hs_inv (sv_hlfServer sv') \<and> SvPanic \<notin> set rs"
proof (induction evs arbitrary: sv rs)
  case (Cons ev evs)
  obtain r sv1 where s: "sv_step dc page mux ev sv = (r, sv1)" by force
  obtain rs1 sv2 where t: "sv_run dc page mux evs sv1 = (rs1, sv2)" by force
  note h = sv_step_hlf [OF Cons.prems(1) s]
  have e: "sv' = sv2" "rs = (case r of None \<Rightarrow> rs1 | Some x \<Rightarrow> x # rs1)" using Cons.prems(2) s t by simp_all
  have "hs_inv (sv_hlfServer sv')" "SvPanic \<notin> set rs1" using Cons.IH [OF conjunct1 [OF h]] t e(1) by blast+
  then show ?case using h e(2) by (cases r) auto
qed auto

subsection \<open>Properties\<close>


definition codec0 :: body_codec where
  "codec0 = \<lparr>dc_Tx = \<lambda>b. Inl ''EOF'', dc_Config = \<lambda>b. Inl ''EOF'', dc_Benchmark = \<lambda>b. Inl ''EOF'',
     dc_Install = \<lambda>b. Inr (4, 2, ''ch'', b), dc_Render = \<lambda>ops. Inr ''doc''\<rparr>"

definition clock0 :: sv_clock where
  "clock0 = \<lparr>ck_ts = ''t'', ck_now = ''t'', ck_stamp = ''t'', ck_ack = 1, ck_uptime = 1\<rparr>"

definition request :: "string \<Rightarrow> string \<Rightarrow> bytes \<Rightarrow> http_request" where
  "request m p b = \<lparr>hr_Method = m, hr_Path = p, hr_Body = b, hr_CanFlush = True\<rparr>"


text \<open>
  Only POST changes the server, with one exception: a request with another method leaves the server as
  it is on every path but that of the event stream, which subscribes the client, and that of the
  deployment, whose handler does not look at the method and marks the contract as deployed.
\<close>

theorem only_post_changes_server:
  assumes "hr_Method rq \<noteq> ''POST''"
  shows "(hr_Path rq \<notin> {''/api/logs'', ''/api/hlf/deploy''} \<longrightarrow> snd (sv_serve dc page (hlf_routes @ start_routes) (ck, rq) sv) = sv)
     \<and> (hr_Path rq = ''/api/hlf/deploy'' \<longrightarrow>
          fst (sv_serve dc page (hlf_routes @ start_routes) (ck, rq) sv) = SvReply ok_reply
          \<and> IsDeployed (sv_hlfServer (snd (sv_serve dc page (hlf_routes @ start_routes) (ck, rq) sv))))"
proof -
  have ro: "snd (sv_handle dc page ck rq h sv) = sv" if "h \<noteq> SvLogs" "h \<noteq> HlfDeploy" for h
    using that assms
    by (cases h) (simp_all add: sv_handle_def on_reply_def on_hlf_def handleTxSubmission_def handleConfig_def handleBenchmark_def
        handleInstall_def)
  have "snd (sv_serve dc page (hlf_routes @ start_routes) (ck, rq) sv) = sv" if p: "hr_Path rq \<notin> {''/api/logs'', ''/api/hlf/deploy''}"
  proof (cases "mux_Handler (hlf_routes @ start_routes) (hr_Path rq)")
    case (Some h)
    have "h \<noteq> SvLogs" "h \<noteq> HlfDeploy" using route_of [OF Some] p by (auto simp: hlf_routes_def start_routes_def)
    then show ?thesis using ro Some by (simp add: sv_serve_def)
  qed (simp add: sv_serve_def)
  moreover have "mux_Handler (hlf_routes @ start_routes) ''/api/hlf/deploy'' = Some HlfDeploy"
    by (simp add: mux_Handler_def hlf_routes_def)
  ultimately show ?thesis
    by (auto simp: sv_serve_def sv_handle_def on_hlf_def handleDeploy_def applyDeploy_def hs_addLog_def IsDeployed_def Let_def)
qed

theorem only_post_changes_server_witness:
  "snd (sv_serve codec0 ''page'' (hlf_routes @ start_routes) (clock0, request ''GET'' ''/api/config'' [])
      (NewServer NewRegistry (Some Memory) New_Memory (NewHLFServer NewNetwork) (None :: unit HLFCommitter option)))
    = NewServer NewRegistry (Some Memory) New_Memory (NewHLFServer NewNetwork) None"
  using only_post_changes_server [of "request ''GET'' ''/api/config'' []" codec0 "''page''" clock0
      "NewServer NewRegistry (Some Memory) New_Memory (NewHLFServer NewNetwork) (None :: unit HLFCommitter option)"]
  by (simp add: request_def)

end
