(* ===== verification/Spec2Isabelle.thy ===== *)
theory Spec2Isabelle
  imports V2_Concurrency V2_Engine Ring_Buffer Gateway_Router Benchmark_Runner Delta_Aggregator
    V2_Wal_Faults Fabric_Engine Control_System Dashboard_Routes
begin

text \<open>
  \<^bold>\<open>The HED core: a verification library.\<close>

  The program moves payment transactions between in-memory stages, databases and a Hyperledger
  Fabric ledger. It has four groups of parts.

  \<^item> The engine of \<^verbatim>\<open>pkg/v2\<close>: \<^verbatim>\<open>Submit\<close> validates a transaction, drops duplicates,
    gives it a partition and a sequence number, writes it to a write-ahead log and queues it; one
    worker per partition batches the queue and commits each transaction through a backend with
    retries; recovery reads the log after a crash and queues what is unresolved.
  \<^item> Payments: contract rules and fees (\<^verbatim>\<open>pkg/contract\<close>), a hash-linked audit ledger
    (\<^verbatim>\<open>pkg/ledger\<close>, \<^verbatim>\<open>pkg/types\<close>), an in-memory delta engine flushed to KeyDB
    (\<^verbatim>\<open>pkg/delta\<close>, \<^verbatim>\<open>pkg/plugin\<close>, \<^verbatim>\<open>plugins\<close>), cross-shard transfers in two phases
    (\<^verbatim>\<open>pkg/router\<close>), and the programs that put them together (\<^verbatim>\<open>cmd\<close>).
  \<^item> Fabric: a batching committer, a staged deployer and a network view (\<^verbatim>\<open>pkg/hlf\<close>), the
    chaincode (\<^verbatim>\<open>chaincode\<close>) and the gateway backend (\<^verbatim>\<open>integration/fabric-gateway\<close>).
  \<^item> Execution pipeline, events and dashboards (\<^verbatim>\<open>pkg/engine\<close>, \<^verbatim>\<open>pkg/dashboard\<close>,
    \<^verbatim>\<open>cmd/dashboard\<close>).

  \<^bold>\<open>Conventions.\<close> A Go struct is a record whose fields carry a prefix, an enumeration a datatype,
  a method a function that takes and returns its receiver. Strings and byte slices are lists of
  bytes. Counters, hashes and amounts are words of their width and wrap; configuration values,
  lengths and times are integers. Errors are strings or constructors in an option or sum; a panic
  or a call that never returns is \<open>None\<close>. Maps are association lists with one entry per key, and
  the iteration order of the runtime is an argument. Clock readings, printed times and outcomes of
  system calls are arguments. A call into another package that is not part of the repository is a
  parameter, a record of functions on a state of its own. Goroutines are step functions; theorems
  about concurrency hold for every sequence of steps. The granularity is stated by each theory: an
  operation under one mutex, or on one atomic variable, is one step.

  \<^bold>\<open>Shared theories.\<close>

  \<^item> \<open>HED_Prelude\<close>: types, decimal printing, Go maps, generic lemmas, the collections
    \<open>gomap_simps\<close>, \<open>inv_intros\<close> and \<open>frame_simps\<close>.
  \<^item> \<open>HED_Hash\<close> (FNV-1a and CRC-32), \<open>Sha256\<close>, \<open>Go_Strings\<close>, \<open>Go_Json\<close> and \<open>Go_Http\<close>: what
    the program uses of the standard library. \<open>Go_Json\<close> proves that its parser inverts its
    printer up to the replacement of invalid UTF-8, and refuses every proper prefix of a printed
    object. \<open>Go_Http\<close> has the request multiplexer.

  \<^bold>\<open>The v2 engine\<close> (\<^verbatim>\<open>core.go\<close>, \<^verbatim>\<open>recovery.go\<close>).

  \<^item> \<open>V2_Types\<close>: transactions, configuration, router. \<open>V2_Queue\<close>: the partition queue as an
    interpretation of the locale \<open>bounded_fifo\<close>; runs lose nothing and keep the order.
  \<^item> \<open>V2_Dedup\<close>: the sharded table with eviction and expiry; bounds on its size, exactness of the
    time-to-live, and the stale slot that breaks it after \<^verbatim>\<open>Forget\<close>.
  \<^item> \<open>V2_Wal\<close>: the bytes of the log, records as JSON with a checksum. \<^verbatim>\<open>Replay\<close> refines the
    abstract set of unresolved transactions; torn writes are ignored by \<^verbatim>\<open>Replay\<close> and stop
    \<^verbatim>\<open>ReplayIDs\<close>.
  \<^item> \<open>V2_Committer\<close>: retries with backoff; success exactly when an attempt in the budget succeeds.
  \<^item> \<open>V2_Pipeline\<close>, \<open>V2_Pipeline_Runs\<close>: submission, workers, flush, \<^verbatim>\<open>Stop\<close>, metrics; every run
    of whole operations is lossless, ordered and counted, and \<^verbatim>\<open>Stop\<close> drains.
  \<^item> \<open>V2_Concurrency\<close>: \<^verbatim>\<open>Submit\<close> as atomic steps of many clients, a step relation with
    reachability; the steps of one client alone are \<^verbatim>\<open>Submit\<close>, numbers are unique in every
    interleaving, and two races are shown.
  \<^item> \<open>V2_Recovery\<close>: recovery with and without a ledger.
  \<^item> \<open>V2_Wal_Faults\<close>: where the log and \<^verbatim>\<open>Submit\<close> do not fit. A record is read back exactly when
    its key is valid UTF-8, and one that is not makes the log unreadable; a record whose sync failed
    is replayed; the abort of a reused identifier erases an accepted transaction.
  \<^item> \<open>V2_Engine\<close>: the operations in any sequence from a new pipeline; none panics and none leaves the
    type of engine states, in which a stopped engine is refusing, closed and empty for good.

  \<^bold>\<open>Payments.\<close>

  \<^item> \<open>State_Engine\<close>: the storage interface as the locale \<open>state_engine\<close>, the registry, and the
    in-memory engine as its interpretation. \<open>Plugin_Batch\<close>: the KeyDB and YugabyteDB engines; the
    locale \<open>incr_server\<close> is a server that adds increments.
  \<^item> \<open>Delta_Engine\<close>: shards, cells and flushes; no delta is lost between whole operations, one can
    be lost inside. \<open>Delta_Aggregator\<close> and \<open>Benchmark_Runner\<close> are its clients.
  \<^item> \<open>Contract_Ledger\<close>: fees split the amount exactly; the ledger is append-only, linked and
    tamper-evident up to collisions of SHA-256.
  \<^item> \<open>Gateway_Router\<close> and \<open>Ring_Buffer\<close>: claims never exceed locks when run one after another.
  \<^item> \<open>Payment_Flow\<close>: the composition of \<^verbatim>\<open>cmd/main.go\<close>; payments conserve money across rules,
    deltas, flushes and ledger (locale \<open>payment_server\<close>), and the demonstration run settles.
  \<^item> \<open>Control_Center\<close>: the program of \<^verbatim>\<open>cmd/dashboard\<close>; a benchmark run processes all its jobs
    and loses the fees (locale \<open>bench_world\<close>, an extension of \<open>payment_server\<close>).
  \<^item> \<open>Control_System\<close>: that program as a step relation over requests and goroutines, from the state
    \<^verbatim>\<open>main\<close> sets up; an invariant of all reachable states, the completion of runs, and the
    ticker that outlives its run.

  \<^bold>\<open>Fabric.\<close>

  \<^item> \<open>HLF_Committer\<close>: every accepted payload is committed, failed or held, exactly once.
  \<^item> \<open>HLF_Deployer\<close>: five stages that fail fast. \<open>HLF_Network\<close>: throughput over a window.
  \<^item> \<open>Fabric_Gateway\<close>: chaincode and backend; the locale \<open>fabric_network\<close> states what the backend
    relies on and is interpreted on the chaincode; committing twice is harmless.
  \<^item> \<open>Fabric_Engine\<close>: the v2 engine with the gateway backend, a crash, a restart on the log and a
    recovery against the ledger; nothing accepted is lost and nothing is committed twice. The
    invariant \<open>durable\<close> ties log, ledger and queues together.

  \<^bold>\<open>Pipeline and dashboards.\<close>

  \<^item> \<open>Engine_Pipeline\<close>: submissions through the active engine are all counted; events reach bounded
    buffers. \<open>TPS_Report\<close>: the drawing commands of the report.
  \<^item> \<open>HLF_Server\<close>: the Fabric page's state is consistent after any requests.
  \<^item> \<open>Dashboard_Server\<close>: handlers and benchmark; a limited run submits exactly its limit in every
    interleaving and ends within three moves per transaction and two per worker.
  \<^item> \<open>Dashboard_Routes\<close>: routes and dispatch of \<^verbatim>\<open>pkg/dashboard\<close>; no request panics, and which
    requests change the server.

  \<^bold>\<open>Fuel and bounds.\<close> The JSON parser takes one more than the length of the text as fuel, and trimming
  white space the length of the text; each round consumes a byte. The loops over retries have the
  number of attempts as their argument, three in both database engines. Theorems on counters assume
  runs shorter than the width of the counter where they state exact numbers.

  \<^bold>\<open>Not modelled.\<close> The texts of the two HTML pages (an argument), listening and signals, console
  output, sleeping and timeouts of contexts as durations (their outcome is an argument), rounding of
  floating-point numbers (rates are exact rationals), memory allocation. Decoding of request bodies
  is at the boundary: a handler takes the decoded fields or the decoder's error. The vendored
  packages are parameters, except the command buffer of the go-redis pipeline, on which the retry
  loop of the KeyDB engine depends.
\<close>

end
